(* ===== verification/Vox_Prelude.thy ===== *)
theory Vox_Prelude
  imports Main "HOL-Library.Word" "HOL-Library.Monad_Syntax" "HOL-Library.Sublist"
begin

text \<open>
  Shared material of the EchoLink development: the machine types of the C sources, bounds-checked
  array access, writing into a file at an offset, and the generic facts on lists and options that
  the component theories use.

  Undefined behaviour of the C code (a dangling or null pointer that is read, an index outside an
  array, a value that was never initialised) is the value \<open>None\<close> throughout: an operation of type
  \<open>'s \<Rightarrow> 's option\<close> that returns \<open>Some\<close> has stayed inside the language.
\<close>

section \<open>Machine types\<close>

type_synonym byte = "8 word"
type_synonym u16 = "16 word"
type_synonym u32 = "32 word"

type_synonym addr = nat \<comment> \<open>a heap address; a C pointer is an \<open>addr option\<close>, with \<open>None\<close> for NULL\<close>

unbundle bit_operations_syntax

named_theorems mem_simps \<open>evaluation of bounds-checked memory accesses\<close>
named_theorems file_simps \<open>evaluation of reads and writes of files\<close>
named_theorems text_simps \<open>evaluation of the C string functions\<close>

section \<open>Arrays\<close>

definition arr_get :: "'a list \<Rightarrow> nat \<Rightarrow> 'a option" where
  "arr_get xs i = (if i < length xs then Some (xs ! i) else None)"

definition arr_set :: "'a list \<Rightarrow> nat \<Rightarrow> 'a \<Rightarrow> 'a list option" where
  "arr_set xs i v = (if i < length xs then Some (xs[i := v]) else None)"

lemma arr_get_Some [mem_simps]: "i < length xs \<Longrightarrow> arr_get xs i = Some (xs ! i)"
  by (simp add: arr_get_def)

lemma arr_set_Some [mem_simps]: "i < length xs \<Longrightarrow> arr_set xs i v = Some (xs[i := v])"
  by (simp add: arr_set_def)

lemma arr_get_eq_Some: "arr_get xs i = Some x \<longleftrightarrow> i < length xs \<and> xs ! i = x"
  by (auto simp: arr_get_def)

lemma arr_set_eq_Some: "arr_set xs i v = Some ys \<longleftrightarrow> i < length xs \<and> ys = xs[i := v]"
  by (auto simp: arr_set_def)

section \<open>Writing into a file at an offset\<close>

text \<open>
  \<open>overwrite z off ys xs\<close> is the file \<open>xs\<close> after the bytes \<open>ys\<close> were written at offset \<open>off\<close>: a gap
  between the end of the file and the offset reads as \<open>z\<close>, bytes behind the written range stay.
\<close>

definition overwrite :: "'a \<Rightarrow> nat \<Rightarrow> 'a list \<Rightarrow> 'a list \<Rightarrow> 'a list" where
  "overwrite z off ys xs =
     (if ys = [] then xs
      else take off xs @ replicate (off - length xs) z @ ys @ drop (off + length ys) xs)"

lemma length_overwrite [simp]:
  "length (overwrite z off ys xs) =
     (if ys = [] then length xs else max (length xs) (off + length ys))"
  by (auto simp: overwrite_def max_def)

lemma overwrite_end [file_simps]: "overwrite z (length xs) ys xs = xs @ ys"
  by (simp add: overwrite_def)

lemma overwrite_Nil [file_simps]: "overwrite z 0 ys [] = ys" "overwrite z off [] xs = xs"
  by (simp_all add: overwrite_def)

lemma overwrite_nth:
  assumes "i < length (overwrite z off ys xs)"
  shows "overwrite z off ys xs ! i =
    (if off \<le> i \<and> i < off + length ys then ys ! (i - off)
     else if i < length xs then xs ! i else z)"
proof (cases "ys = []")
  case True
  with assms show ?thesis by (auto simp: overwrite_def)
next
  case ne: False
  consider "i < off" "i < length xs" | "i < off" "length xs \<le> i"
    | "off \<le> i" "i < off + length ys" | "off + length ys \<le> i"
    by linarith
  then show ?thesis
  proof cases
    case 1
    with ne show ?thesis by (simp add: overwrite_def nth_append)
  next
    case 2
    then have "i - length xs < off - length xs" by linarith
    with 2 ne show ?thesis by (simp add: overwrite_def nth_append)
  next
    case 3
    with ne show ?thesis by (simp add: overwrite_def nth_append min_def) (auto simp: not_less)
  next
    case 4
    with assms ne have "i < length xs" by (simp split: if_splits)
    moreover from 4 have "\<not> i - off < length ys" by linarith
    ultimately show ?thesis using 4 ne by (simp add: overwrite_def nth_append min_def)
  qed
qed

text \<open>A read of \<open>n\<close> elements at an offset; short at the end of the file.\<close>

definition read_at :: "nat \<Rightarrow> nat \<Rightarrow> 'a list \<Rightarrow> 'a list" where
  "read_at off n xs = take n (drop off xs)"

lemma length_read_at: "length (read_at off n xs) = min n (length xs - off)"
  by (simp add: read_at_def)

lemma read_at_overwrite_same [file_simps]:
  "n = length ys \<Longrightarrow> read_at off n (overwrite z off ys xs) = ys"
  by (auto simp: read_at_def overwrite_def)

lemma read_at_overwrite_before:
  assumes "off + n \<le> off'" "off + n \<le> length xs"
  shows "read_at off n (overwrite z off' ys xs) = read_at off n xs"
proof (rule nth_equalityI)
  show "length (read_at off n (overwrite z off' ys xs)) = length (read_at off n xs)"
    using assms by (auto simp: length_read_at)
next
  fix i assume "i < length (read_at off n (overwrite z off' ys xs))"
  then have i: "i < n" by (simp add: length_read_at)
  with assms have "off + i < length (overwrite z off' ys xs)" by auto
  with i show "read_at off n (overwrite z off' ys xs) ! i = read_at off n xs ! i"
    using assms by (simp add: read_at_def overwrite_nth)
qed

lemma read_at_overwrite_after:
  assumes "off' + length ys \<le> off" "off' \<le> length xs"
  shows "read_at off n (overwrite z off' ys xs) = read_at off n xs"
proof (rule nth_equalityI)
  show "length (read_at off n (overwrite z off' ys xs)) = length (read_at off n xs)"
    using assms by (auto simp: length_read_at)
next
  fix i assume i: "i < length (read_at off n (overwrite z off' ys xs))"
  then have "i < n" and "off + i < length xs" using assms by (auto simp: length_read_at split: if_splits)
  then show "read_at off n (overwrite z off' ys xs) ! i = read_at off n xs ! i"
    using assms by (simp add: read_at_def overwrite_nth)
qed

section \<open>Lists and options\<close>

lemma bind_eq_SomeE:
  assumes "Option.bind m f = Some y"
  obtains x where "m = Some x" and "f x = Some y"
  using assms by (cases m) auto

lemma find_first_index:
  assumes "\<exists>i < length xs. P (xs ! i)"
  obtains i where "i < length xs" "P (xs ! i)" "\<forall>j < i. \<not> P (xs ! j)"
proof -
  let ?Q = "\<lambda>i. i < length xs \<and> P (xs ! i)"
  from assms have ex: "\<exists>i. ?Q i" by blast
  have "?Q (LEAST i. ?Q i)" by (rule LeastI_ex [OF ex])
  moreover have "\<not> P (xs ! j)" if "j < (LEAST i. ?Q i)" for j
    using not_less_Least [OF that] that calculation by auto
  ultimately show ?thesis using that by blast
qed

end
