(* ===== verification/C_Lib.thy ===== *)
theory C_Lib
  imports Vox_Prelude
begin

text \<open>
  The functions of the C library that the sources call on text: \<open>strcmp\<close>, \<open>strcasecmp\<close>,
  \<open>strncmp\<close>, \<open>strstr\<close>, \<open>strtok\<close>, \<open>strtok_r\<close>, \<open>atoi\<close>, \<open>sscanf\<close> with \<open>%d\<close> and \<open>%Ns\<close>, and \<open>snprintf\<close> with
  \<open>%d\<close> and \<open>%s\<close>. A C string is its characters in front of the terminating NUL; a character array
  holds the string written to it, and the arrays' sizes appear where the code uses them (the field
  width of a conversion, the size argument of \<open>snprintf\<close>).
\<close>

section \<open>Characters\<close>

abbreviation nul :: char where
  "nul \<equiv> CHR 0x00"

abbreviation newline :: char where
  "newline \<equiv> CHR 0x0A"

abbreviation escape :: char where
  "escape \<equiv> CHR 0x1B"

definition char_code :: "char \<Rightarrow> nat" where
  "char_code c = of_char c"

definition is_space :: "char \<Rightarrow> bool" where
  "is_space c \<longleftrightarrow> char_code c = 32 \<or> 9 \<le> char_code c \<and> char_code c \<le> 13"

definition is_digit :: "char \<Rightarrow> bool" where
  "is_digit c \<longleftrightarrow> 48 \<le> char_code c \<and> char_code c \<le> 57"

definition tolower :: "char \<Rightarrow> char" where
  "tolower c = (if 65 \<le> char_code c \<and> char_code c \<le> 90 then char_of (char_code c + 32) else c)"

section \<open>Comparing and searching\<close>

definition strcasecmp_eq :: "string \<Rightarrow> string \<Rightarrow> bool" where
  "strcasecmp_eq a b \<longleftrightarrow> map tolower a = map tolower b"

definition strncmp_eq :: "string \<Rightarrow> string \<Rightarrow> nat \<Rightarrow> bool" where
  "strncmp_eq a b n \<longleftrightarrow> take n a = take n b"

fun strstr :: "string \<Rightarrow> string \<Rightarrow> bool" where
  "strstr [] needle \<longleftrightarrow> needle = []"
| "strstr (x # xs) needle \<longleftrightarrow> prefix needle (x # xs) \<or> strstr xs needle"

text \<open>The C string at the start of a buffer.\<close>

definition c_string :: "string \<Rightarrow> string" where
  "c_string s = takeWhile (\<lambda>c. c \<noteq> nul) s"

section \<open>Tokens\<close>

text \<open>The tokens \<open>strtok\<close> returns one after the other: runs of characters that are no delimiter.\<close>

function tokens :: "(char \<Rightarrow> bool) \<Rightarrow> string \<Rightarrow> string list" where
  "tokens d s =
     (case dropWhile d s of
        [] \<Rightarrow> []
      | c # t \<Rightarrow> takeWhile (\<lambda>x. \<not> d x) (c # t) # tokens d (dropWhile (\<lambda>x. \<not> d x) (c # t)))"
  by pat_completeness auto
termination
proof (relation "measure (\<lambda>(d, s). length s)", simp)
  fix d :: "char \<Rightarrow> bool" and s c t
  assume eq: "dropWhile d s = c # t"
  then have "\<not> d c" by (metis hd_dropWhile list.discI list.sel(1))
  then have "length (dropWhile (\<lambda>x. \<not> d x) (c # t)) \<le> length t"
    by (simp add: length_dropWhile_le)
  also have "\<dots> < length s" using length_dropWhile_le [of d s] eq by simp
  finally show "((d, dropWhile (\<lambda>x. \<not> d x) (c # t)), (d, s)) \<in> measure (\<lambda>(d, s). length s)"
    by simp
qed

declare tokens.simps [simp del]

text \<open>
  \<open>strtok_r(s, d, &save)\<close> followed by \<open>strtok_r(NULL, "", &save)\<close>: the first token, and what stands
  behind the delimiter that ended it (NULL when nothing does).
\<close>

definition strtok_first :: "(char \<Rightarrow> bool) \<Rightarrow> string \<Rightarrow> string option" where
  "strtok_first d s = (case dropWhile d s of [] \<Rightarrow> None | t \<Rightarrow> Some (takeWhile (\<lambda>x. \<not> d x) t))"

definition strtok_rest :: "(char \<Rightarrow> bool) \<Rightarrow> string \<Rightarrow> string option" where
  "strtok_rest d s =
     (case drop 1 (dropWhile (\<lambda>x. \<not> d x) (dropWhile d s)) of [] \<Rightarrow> None | t \<Rightarrow> Some t)"

section \<open>Printing\<close>

definition digit_char :: "nat \<Rightarrow> char" where
  "digit_char d = char_of (48 + d)"

fun print_nat :: "nat \<Rightarrow> string" where
  "print_nat n = (if n < 10 then [digit_char n] else print_nat (n div 10) @ [digit_char (n mod 10)])"

declare print_nat.simps [simp del]

definition print_int :: "int \<Rightarrow> string" where
  "print_int i = (if i < 0 then CHR ''-'' # print_nat (nat (- i)) else print_nat (nat i))"

text \<open>\<open>%-Nd\<close> and \<open>%-Ns\<close>: the text, filled with blanks up to the width.\<close>

definition left_justify :: "nat \<Rightarrow> string \<Rightarrow> string" where
  "left_justify n s = s @ replicate (n - length s) CHR '' ''"

text \<open>What \<open>snprintf(buf, n, \<dots>)\<close> leaves in \<open>buf\<close> when the whole text would be \<open>s\<close>.\<close>

definition snprintf :: "nat \<Rightarrow> string \<Rightarrow> string" where
  "snprintf n s = take (n - 1) s"

section \<open>Scanning\<close>

datatype directive = Lit char | Ws | ConvD | ConvS nat

datatype arg = ArgInt int | ArgStr string

definition skip_ws :: "string \<Rightarrow> string" where
  "skip_ws s = dropWhile is_space s"

definition digits_value :: "string \<Rightarrow> nat" where
  "digits_value ds = foldl (\<lambda>a c. 10 * a + (char_code c - 48)) 0 ds"

text \<open>
  \<open>%d\<close> converts like \<open>strtol\<close> (a \<open>long\<close>, cut off at its bounds) and stores the value in an \<open>int\<close>.
\<close>

definition wrap_i32 :: "int \<Rightarrow> int" where
  "wrap_i32 i = (i + 2 ^ 31) mod 2 ^ 32 - 2 ^ 31"

definition to_int :: "int \<Rightarrow> int" where
  "to_int i = wrap_i32 (max (- (2 ^ 63)) (min (2 ^ 63 - 1) i))"

definition scan_digits :: "(nat \<Rightarrow> int) \<Rightarrow> string \<Rightarrow> (int \<times> string) option" where
  "scan_digits f s =
     (case takeWhile is_digit s of
        [] \<Rightarrow> None
      | ds \<Rightarrow> Some (to_int (f (digits_value ds)), dropWhile is_digit s))"

definition scan_d :: "string \<Rightarrow> (int \<times> string) option" where
  "scan_d s =
     (case s of
        [] \<Rightarrow> None
      | c # t \<Rightarrow>
          if c = CHR ''-'' then scan_digits (\<lambda>n. - int n) t
          else if c = CHR ''+'' then scan_digits int t
          else scan_digits int s)"

definition atoi :: "string \<Rightarrow> int" where
  "atoi s = (case scan_d (skip_ws s) of None \<Rightarrow> 0 | Some (i, _) \<Rightarrow> i)"

text \<open>The values that \<open>sscanf\<close> stores, in order; it stops at the first directive that fails.\<close>

fun sscanf :: "directive list \<Rightarrow> string \<Rightarrow> arg list" where
  "sscanf [] s = []"
| "sscanf (Ws # ds) s = sscanf ds (skip_ws s)"
| "sscanf (Lit c # ds) s = (case s of [] \<Rightarrow> [] | x # t \<Rightarrow> if x = c then sscanf ds t else [])"
| "sscanf (ConvD # ds) s =
     (case scan_d (skip_ws s) of None \<Rightarrow> [] | Some (i, t) \<Rightarrow> ArgInt i # sscanf ds t)"
| "sscanf (ConvS n # ds) s =
     (let t = skip_ws s; w = take n (takeWhile (\<lambda>c. \<not> is_space c) t)
      in if w = [] then [] else ArgStr w # sscanf ds (drop (length w) t))"

text \<open>
  The value that ends up in the \<open>i\<close>-th destination: for a character array that was zeroed before,
  and for an \<open>int\<close>, where \<open>None\<close> says that nothing was stored.
\<close>

definition arg_str :: "arg list \<Rightarrow> nat \<Rightarrow> string" where
  "arg_str as i = (if i < length as then (case as ! i of ArgStr w \<Rightarrow> w | ArgInt _ \<Rightarrow> []) else [])"

definition arg_int :: "arg list \<Rightarrow> nat \<Rightarrow> int option" where
  "arg_int as i =
     (if i < length as then (case as ! i of ArgInt n \<Rightarrow> Some n | ArgStr _ \<Rightarrow> None) else None)"

definition in_i32 :: "int \<Rightarrow> bool" where
  "in_i32 i \<longleftrightarrow> - (2 ^ 31) \<le> i \<and> i < 2 ^ 31"

text \<open>A word that \<open>%s\<close> reads back: not empty, no white space, no NUL.\<close>

definition is_word :: "string \<Rightarrow> bool" where
  "is_word s \<longleftrightarrow> s \<noteq> [] \<and> (\<forall>c \<in> set s. \<not> is_space c \<and> c \<noteq> nul)"

section \<open>Facts\<close>

lemma char_code_less [simp]: "char_code c < 256"
  by (simp add: char_code_def)

lemma char_code_char_of [simp]: "char_code (char_of n) = n mod 256"
  by (simp add: char_code_def)

lemma char_of_char_code [simp]: "char_of (char_code c) = c"
  by (simp add: char_code_def)

lemma char_code_inject [simp]: "char_code c = char_code d \<longleftrightarrow> c = d"
  by (simp add: char_code_def)

lemma digit_char_props [simp]:
  assumes "d < 10"
  shows "is_digit (digit_char d)" "\<not> is_space (digit_char d)" "char_code (digit_char d) = 48 + d"
  using assms by (simp_all add: digit_char_def is_digit_def is_space_def)

lemma is_digit_not_space [simp]: "is_digit c \<Longrightarrow> \<not> is_space c"
  by (auto simp: is_digit_def is_space_def)

lemma space_chars [simp]: "is_space CHR '' ''" "is_space newline" "\<not> is_digit CHR '' ''"
  "\<not> is_digit newline" "\<not> is_space CHR ''-''" "\<not> is_digit CHR ''-''"
  "\<not> is_space nul" "\<not> is_digit nul"
  by (simp_all add: is_space_def is_digit_def char_code_def)

lemma is_digit_not_sign [simp]: "is_digit c \<Longrightarrow> c \<noteq> CHR ''-''" "is_digit c \<Longrightarrow> c \<noteq> CHR ''+''"
  by (auto simp: is_digit_def char_code_def)

subsection \<open>Printing a number and scanning it back\<close>

lemma print_nat_digits: "\<forall>c \<in> set (print_nat n). is_digit c"
proof (induction n rule: print_nat.induct)
  case (1 n)
  then show ?case by (subst print_nat.simps) auto
qed

lemma print_nat_not_Nil [simp]: "print_nat n \<noteq> []"
  by (subst print_nat.simps) simp

lemma digits_value_snoc [simp]: "digits_value (ds @ [c]) = 10 * digits_value ds + (char_code c - 48)"
  by (simp add: digits_value_def)

lemma digits_value_print [simp]: "digits_value (print_nat n) = n"
proof (induction n rule: print_nat.induct)
  case (1 n)
  show ?case
  proof (cases "n < 10")
    case True
    then have "print_nat n = [] @ [digit_char n]" by (subst print_nat.simps) simp
    then have "digits_value (print_nat n) = 10 * digits_value [] + (char_code (digit_char n) - 48)"
      by (simp only: digits_value_snoc)
    with True show ?thesis by (simp add: digits_value_def)
  next
    case False
    then have "digits_value (print_nat n) = 10 * digits_value (print_nat (n div 10)) + n mod 10"
      by (subst print_nat.simps) simp
    with 1 False show ?thesis by simp
  qed
qed

lemma length_print_nat: "n < 10 ^ Suc k \<Longrightarrow> length (print_nat n) \<le> Suc k"
proof (induction k arbitrary: n)
  case 0
  then show ?case by (subst print_nat.simps) simp
next
  case (Suc k)
  show ?case
  proof (cases "n < 10")
    case False
    have "n div 10 < 10 ^ Suc k" using Suc.prems by simp
    with Suc.IH [of "n div 10"] False show ?thesis by (subst print_nat.simps) simp
  qed (subst print_nat.simps, simp)
qed

lemma to_int_id: "in_i32 i \<Longrightarrow> to_int i = i"
  by (simp add: to_int_def wrap_i32_def in_i32_def max_def min_def)

definition ends_number :: "string \<Rightarrow> bool" where
  "ends_number t \<longleftrightarrow> (case t of [] \<Rightarrow> True | c # _ \<Rightarrow> \<not> is_digit c)"

lemma length_print_int:
  assumes "in_i32 i"
  shows "length (print_int i) \<le> 11"
proof -
  have "nat i < 10 ^ Suc 9" "nat (- i) < 10 ^ Suc 9" using assms by (auto simp: in_i32_def)
  from this [THEN length_print_nat] show ?thesis by (simp add: print_int_def)
qed

lemma takeWhile_digits:
  assumes "\<forall>c \<in> set ds. is_digit c" "ends_number t"
  shows "takeWhile is_digit (ds @ t) = ds" "dropWhile is_digit (ds @ t) = t"
  using assms by (auto simp: ends_number_def takeWhile_append dropWhile_append split: list.splits)

lemma scan_digits_print:
  assumes "ends_number t"
  shows "scan_digits f (print_nat n @ t) = Some (to_int (f n), t)"
proof -
  obtain c ds where "print_nat n = c # ds" by (cases "print_nat n") auto
  then show ?thesis
    using takeWhile_digits [OF print_nat_digits assms, of n] digits_value_print [of n]
    by (simp add: scan_digits_def)
qed

lemma scan_d_print:
  assumes "in_i32 i" "ends_number t"
  shows "scan_d (print_int i @ t) = Some (i, t)"
proof (cases "i < 0")
  case True
  with assms show ?thesis
    by (simp add: print_int_def scan_d_def scan_digits_print to_int_id)
next
  case False
  obtain c ds where cds: "print_nat (nat i) = c # ds" by (cases "print_nat (nat i)") auto
  with print_nat_digits [of "nat i"] have "is_digit c" by simp
  with False cds assms scan_digits_print [OF assms(2), of int "nat i"] show ?thesis
    by (auto simp: print_int_def scan_d_def to_int_id)
qed

lemma print_int_hd: "\<exists>c t. print_int i = c # t \<and> \<not> is_space c"
proof -
  obtain c t where "print_nat (nat i) = c # t" by (cases "print_nat (nat i)") auto
  with print_nat_digits [of "nat i"] show ?thesis by (auto simp: print_int_def)
qed

lemma skip_ws_print [text_simps]: "skip_ws (print_int i @ t) = print_int i @ t"
  using print_int_hd [of i] by (auto simp: skip_ws_def)

lemma atoi_print: "in_i32 i \<Longrightarrow> atoi (print_int i) = i"
  using skip_ws_print [of i "[]"] scan_d_print [of i "[]"] by (simp add: atoi_def ends_number_def)

lemma skip_ws_blank [text_simps]: "skip_ws (CHR '' '' # t) = skip_ws t"
  by (simp add: skip_ws_def)

lemma skip_ws_word [text_simps]: "is_word w \<Longrightarrow> skip_ws (w @ t) = w @ t"
  by (cases w) (auto simp: is_word_def skip_ws_def)

lemma takeWhile_word:
  assumes "is_word w" "t = [] \<or> is_space (hd t)"
  shows "takeWhile (\<lambda>c. \<not> is_space c) (w @ t) = w"
  using assms by (cases t) (auto simp: is_word_def takeWhile_append)

lemma sscanf_print_int [text_simps]:
  assumes "in_i32 i" "ends_number t"
  shows "sscanf (ConvD # ds) (print_int i @ t) = ArgInt i # sscanf ds t"
  using assms by (simp add: skip_ws_print scan_d_print)

lemma sscanf_word [text_simps]:
  assumes "is_word w" "length w \<le> n" "t = [] \<or> is_space (hd t)"
  shows "sscanf (ConvS n # ds) (w @ t) = ArgStr w # sscanf ds t"
proof -
  from assms(1) have ne: "w \<noteq> []" by (simp add: is_word_def)
  have "takeWhile (\<lambda>c. \<not> is_space c) (w @ t) = w" by (rule takeWhile_word [OF assms(1,3)])
  moreover from ne assms(2) have "take n w = w" "0 < n" by (cases n; simp)+
  ultimately show ?thesis using ne assms(1) by (simp add: Let_def skip_ws_word)
qed

lemma sscanf_ws_blank [text_simps]: "sscanf (Ws # ds) (CHR '' '' # t) = sscanf (Ws # ds) t"
  by (simp add: skip_ws_blank)

lemma ends_number_simps [text_simps, simp]:
  "ends_number []" "ends_number (c # t) \<longleftrightarrow> \<not> is_digit c"
  by (simp_all add: ends_number_def)

subsection \<open>Reading what \<open>%Ns\<close> stores\<close>

lemma sscanf_str_bounds:
  "arg_str (sscanf (ConvS n # ds) s) 0 = take n (takeWhile (\<lambda>c. \<not> is_space c) (skip_ws s))"
  by (simp add: arg_str_def Let_def)

subsection \<open>Lines\<close>

lemma tokens_Nil [text_simps, simp]: "tokens d [] = []"
  by (simp add: tokens.simps)

lemma tokens_line:
  assumes "w \<noteq> []" "\<forall>c \<in> set w. \<not> d c" "d x"
  shows "tokens d (w @ x # t) = w # tokens d t"
proof -
  obtain a v where w: "w = a # v" using assms(1) by (cases w) auto
  have tw: "takeWhile (\<lambda>x. \<not> d x) (w @ x # t) = w" "dropWhile (\<lambda>x. \<not> d x) (w @ x # t) = x # t"
    using assms(2,3) by (simp_all add: takeWhile_append dropWhile_append)
  have "tokens d (x # t) = tokens d t"
    using assms(3) by (subst (1 2) tokens.simps) simp
  with w tw assms(2) show ?thesis by (subst tokens.simps) simp
qed

lemma tokens_last:
  assumes "w \<noteq> []" "\<forall>c \<in> set w. \<not> d c"
  shows "tokens d w = [w]"
proof -
  obtain a v where w: "w = a # v" using assms(1) by (cases w) auto
  have "takeWhile (\<lambda>x. \<not> d x) v = v" "dropWhile (\<lambda>x. \<not> d x) v = []"
    using assms(2) w by (simp_all add: takeWhile_eq_all_conv)
  with assms(2) show ?thesis unfolding w
    by (subst tokens.simps) (simp del: dropWhile_eq_Nil_conv takeWhile_eq_all_conv)
qed

lemma tokens_lines:
  assumes "\<forall>w \<in> set ls. w \<noteq> [] \<and> newline \<notin> set w"
  shows "tokens (\<lambda>c. c = newline) (concat (map (\<lambda>w. w @ [newline]) ls)) = ls"
  using assms
proof (induction ls)
  case (Cons w ls)
  then have "tokens (\<lambda>c. c = newline) (w @ newline # concat (map (\<lambda>w. w @ [newline]) ls)) =
      w # tokens (\<lambda>c. c = newline) (concat (map (\<lambda>w. w @ [newline]) ls))"
    by (intro tokens_line) auto
  with Cons show ?case by simp
qed simp

end
