(* ===== verification/Utils.thy ===== *)
theory Utils
  imports C_Lib
begin

text \<open>
  \<open>src/src/common/utils.c\<close>: the clock in milliseconds, the password hash, the line that
  \<open>log_message\<close> writes, and the comparison that reads all bytes. The hash is shown to be
  injective on passwords of at most 31 characters, by giving its inverse.
\<close>

section \<open>Definitions\<close>

definition get_time_ms :: "int \<Rightarrow> int \<Rightarrow> int" where
  "get_time_ms tv_sec tv_nsec = tv_sec * 1000 + tv_nsec div 1000000"

definition byte_of :: "char \<Rightarrow> byte" where
  "byte_of c = of_nat (char_code c)"

text \<open>The first loop of \<open>sha256_hash\<close>: the characters are mixed into 32 bytes.\<close>

fun hash_loop :: "nat \<Rightarrow> string \<Rightarrow> byte list \<Rightarrow> byte list" where
  "hash_loop i [] hash = hash"
| "hash_loop i (c # cs) hash =
     (let hash1 = hash[i mod 32 := (hash ! (i mod 32)) XOR byte_of c];
          hash2 = hash1[(i + 1) mod 32 := hash1 ! ((i + 1) mod 32) + byte_of c]
      in hash_loop (Suc i) cs hash2)"

definition hash_bytes :: "string \<Rightarrow> byte list" where
  "hash_bytes input = hash_loop 0 input (replicate 32 0)"

definition hex_digit :: "nat \<Rightarrow> byte" where
  "hex_digit d = (if d < 10 then of_nat (48 + d) else of_nat (87 + d))"

definition hex2 :: "byte \<Rightarrow> byte list" where
  "hex2 b = [hex_digit (unat b div 16), hex_digit (unat b mod 16)]"

definition sha256_hash :: "string \<Rightarrow> byte list" where
  "sha256_hash input = concat (map hex2 (hash_bytes input)) @ [0]"

definition safe_memcmp :: "byte list \<Rightarrow> byte list \<Rightarrow> nat \<Rightarrow> byte option" where
  "safe_memcmp p1 p2 n =
     (if n \<le> length p1 \<and> n \<le> length p2
      then Some (foldl (\<lambda>result i. result OR (p1 ! i XOR p2 ! i)) 0 [0..<n])
      else None)"

text \<open>\<open>%0Nd\<close> for the numbers of a time stamp, and the line \<open>log_message\<close> prints.\<close>

definition zero_pad :: "nat \<Rightarrow> int \<Rightarrow> string" where
  "zero_pad n i =
     (let ds = print_nat (nat (abs i)); sign = (if i < 0 then ''-'' else [])
      in sign @ replicate (n - length sign - length ds) CHR ''0'' @ ds)"

record tm =
  tm_mday :: int
  tm_mon :: int
  tm_year :: int
  tm_hour :: int
  tm_min :: int
  tm_sec :: int

definition log_message :: "tm \<Rightarrow> string \<Rightarrow> string \<Rightarrow> string" where
  "log_message t level msg =
     ''['' @ zero_pad 2 (tm_mday t) @ ''-'' @ zero_pad 2 (tm_mon t + 1) @ ''-'' @
       zero_pad 4 (tm_year t + 1900) @ '' '' @ zero_pad 2 (tm_hour t) @ '':'' @
       zero_pad 2 (tm_min t) @ '':'' @ zero_pad 2 (tm_sec t) @ ''] ['' @ level @ ''] '' @
       msg @ [newline]"

section \<open>The comparison\<close>

lemma xor_eq_0: "a XOR b = 0 \<longleftrightarrow> a = b" for a b :: byte
  by (metis xor.assoc xor.right_neutral xor.left_neutral xor_self_eq)

lemma foldl_or_eq_0:
  fixes r :: byte
  shows "foldl (\<lambda>result i. result OR f i) r is = 0 \<longleftrightarrow> r = 0 \<and> (\<forall>i \<in> set is. f i = 0)"
proof (induction "is" arbitrary: r)
  case (Cons i "is")
  have "r OR f i = 0 \<longleftrightarrow> r = 0 \<and> f i = 0" by (simp add: or_eq_0_iff)
  with Cons show ?case by auto
qed simp

lemma safe_memcmp_0_iff:
  assumes "n \<le> length p1" "n \<le> length p2"
  shows "safe_memcmp p1 p2 n = Some 0 \<longleftrightarrow> take n p1 = take n p2"
proof -
  have "safe_memcmp p1 p2 n = Some 0 \<longleftrightarrow> (\<forall>i < n. p1 ! i = p2 ! i)"
    using assms by (auto simp: safe_memcmp_def foldl_or_eq_0 xor_eq_0)
  also have "\<dots> \<longleftrightarrow> take n p1 = take n p2"
    using assms by (auto simp: list_eq_iff_nth_eq)
  finally show ?thesis .
qed

section \<open>The hash\<close>

lemma length_hash_loop [simp]: "length (hash_loop i cs hash) = length hash"
  by (induction i cs hash rule: hash_loop.induct) (simp_all add: Let_def)

lemma length_hash_bytes [simp]: "length (hash_bytes s) = 32"
  by (simp add: hash_bytes_def)

lemma length_concat_hex2 [simp]: "length (concat (map hex2 bs)) = 2 * length bs"
  by (induction bs) (simp_all add: hex2_def)

lemma length_sha256_hash [simp]: "length (sha256_hash s) = 65"
  by (simp add: sha256_hash_def)

lemma hex_digit_inj: "a < 16 \<Longrightarrow> b < 16 \<Longrightarrow> hex_digit a = hex_digit b \<Longrightarrow> a = b"
proof -
  assume ab: "a < 16" "b < 16" and eq: "hex_digit a = hex_digit b"
  have u: "unat (hex_digit d) = (if d < 10 then 48 + d else 87 + d)" if "d < 16" for d
    using that by (simp add: hex_digit_def unat_of_nat del: of_nat_add)
  from eq have "unat (hex_digit a) = unat (hex_digit b)" by simp
  then show "a = b" using ab by (simp add: u split: if_splits)
qed

lemma hex2_inj: "hex2 a = hex2 b \<Longrightarrow> a = b"
proof -
  assume "hex2 a = hex2 b"
  moreover have "unat x div 16 < 16" for x :: byte
    using unsigned_less [of x, where ?'a = nat] by (simp add: less_mult_imp_div_less)
  ultimately have "unat a div 16 = unat b div 16" "unat a mod 16 = unat b mod 16"
    by (auto simp: hex2_def intro!: hex_digit_inj)
  then have "unat a = unat b" by (metis div_mult_mod_eq)
  then show "a = b" by (simp add: unsigned_word_eqI)
qed

lemma concat_hex2_inj:
  "length as = length bs \<Longrightarrow> concat (map hex2 as) = concat (map hex2 bs) \<Longrightarrow> as = bs"
proof (induction as bs rule: list_induct2)
  case (Cons a as b bs)
  have "length (hex2 a) = length (hex2 b)" by (simp add: hex2_def)
  with Cons show ?case by (auto dest: hex2_inj)
qed simp

text \<open>
  The inverse: each byte of the hash is the XOR of two neighbouring characters, so the password is
  read off from left to right.
\<close>

fun unhash :: "byte \<Rightarrow> byte list \<Rightarrow> string" where
  "unhash p [] = []"
| "unhash p (x # xs) =
     (let b = x XOR p in if b = 0 then [] else char_of (unat b) # unhash b xs)"

lemma unat_byte_of [simp]: "unat (byte_of c) = char_code c"
  by (simp add: byte_of_def unat_of_nat)

lemma byte_of_eq_0 [simp]: "byte_of c = 0 \<longleftrightarrow> c = nul"
proof -
  have "byte_of c = 0 \<longleftrightarrow> char_code c = 0" by (simp add: unat_eq_0 flip: unat_byte_of)
  also have "\<dots> \<longleftrightarrow> char_code c = char_code nul" by (simp add: char_code_def)
  finally show ?thesis by simp
qed

lemma char_of_byte_of [simp]: "char_of (unat (byte_of c)) = c"
  by simp

lemma hash_loop_step:
  assumes "Suc i < 32" "length h = 32" "h ! Suc i = 0"
  shows "hash_loop i (c # cs) h = hash_loop (Suc i) cs (h[i := h ! i XOR byte_of c, Suc i := byte_of c])"
  using assms by (simp add: Let_def)

lemma hash_loop_keeps:
  "i + length cs < 32 \<Longrightarrow> length h = 32 \<Longrightarrow> k < i \<Longrightarrow> hash_loop i cs h ! k = h ! k"
  by (induction cs arbitrary: i h) (simp_all add: Let_def)

lemma unhash_hash_loop:
  assumes "i + length cs < 32" "length h = 32" "\<forall>k. i < k \<and> k < 32 \<longrightarrow> h ! k = 0" "nul \<notin> set cs"
  shows "unhash (h ! i) (drop i (hash_loop i cs h)) = cs"
  using assms
proof (induction cs arbitrary: i h)
  case Nil
  then have "drop i h = h ! i # drop (Suc i) h" by (simp add: Cons_nth_drop_Suc)
  then show ?case by simp
next
  case (Cons c cs)
  let ?b = "byte_of c"
  let ?h = "h[i := h ! i XOR ?b, Suc i := ?b]"
  let ?r = "hash_loop (Suc i) cs ?h"
  from Cons have step: "hash_loop i (c # cs) h = ?r" by (intro hash_loop_step) auto
  from Cons have IH: "unhash ?b (drop (Suc i) ?r) = cs"
    using Cons.IH [of "Suc i" ?h] by simp
  from Cons have "?r ! i = h ! i XOR ?b" by (subst hash_loop_keeps) auto
  with Cons have "drop i ?r = (h ! i XOR ?b) # drop (Suc i) ?r"
    by (simp add: Cons_nth_drop_Suc [symmetric])
  moreover have "(h ! i XOR ?b) XOR h ! i = ?b"
    by (metis xor.assoc xor.commute xor.right_neutral xor_self_eq)
  ultimately show ?case using step IH Cons.prems by (auto simp: Let_def)
qed

lemma unhash_hash_bytes:
  "length s < 32 \<Longrightarrow> nul \<notin> set s \<Longrightarrow> unhash 0 (hash_bytes s) = s"
  using unhash_hash_loop [of 0 s "replicate 32 0"] by (simp add: hash_bytes_def)

lemma sha256_hash_eq_iff: "sha256_hash s = sha256_hash t \<longleftrightarrow> hash_bytes s = hash_bytes t"
  by (auto simp: sha256_hash_def dest!: concat_hex2_inj [rotated])

text \<open>
  On passwords of at most 31 characters the password hash of the user file is injective, so
  two users' records agree in the hash only if the passwords are the same.
\<close>

theorem sha256_hash_inj_short:
  assumes "length s < 32" "length t < 32" "nul \<notin> set s" "nul \<notin> set t"
  shows "sha256_hash s = sha256_hash t \<longleftrightarrow> s = t"
  using assms unhash_hash_bytes by (metis sha256_hash_eq_iff)

theorem sha256_hash_inj_short_witness:
  "sha256_hash ''admin123'' = sha256_hash ''admin124'' \<longleftrightarrow> ''admin123'' = ''admin124''"
  by (rule sha256_hash_inj_short) simp_all

end
