(* ===== verification/Record_File.thy ===== *)
theory Record_File
  imports Vox_Prelude
begin

text \<open>
  Files of fixed-size records, the format of \<open>data/rooms.bin\<close> and \<open>data/users.bin\<close>: a record is the
  memory image of a C struct, record \<open>i\<close> stands at offset \<open>i * sizeof(struct)\<close>, and a scan is a loop
  of \<open>read\<close> calls that ends at the first short read. The locale \<open>record_file\<close> is the contract
  between a struct's encoding and the code that reads and writes the file; the theory Protocol
  interprets it for \<open>room_record\<close> and \<open>user_record\<close>.
\<close>

section \<open>Reading records\<close>

definition read_record :: "(byte list \<Rightarrow> 'r) \<Rightarrow> nat \<Rightarrow> nat \<Rightarrow> byte list \<Rightarrow> 'r option" where
  "read_record dec sz i f =
     (let bs = read_at (i * sz) sz f in if length bs = sz then Some (dec bs) else None)"

text \<open>The records that \<open>while(read(fd, &rec, sz) == sz)\<close> sees, in order.\<close>

definition file_records :: "(byte list \<Rightarrow> 'r) \<Rightarrow> nat \<Rightarrow> byte list \<Rightarrow> 'r list" where
  "file_records dec sz f = map (\<lambda>i. dec (read_at (i * sz) sz f)) [0..<length f div sz]"

lemma length_file_records [simp]: "length (file_records dec sz f) = length f div sz"
  by (simp add: file_records_def)

lemma read_full_iff:
  fixes sz :: nat
  assumes "0 < sz"
  shows "length (read_at (i * sz) sz f) = sz \<longleftrightarrow> i < length f div sz"
proof -
  have "length (read_at (i * sz) sz f) = sz \<longleftrightarrow> Suc i * sz \<le> length f"
    using assms by (auto simp: length_read_at min_def)
  also have "\<dots> \<longleftrightarrow> Suc i \<le> length f div sz" using assms by (simp add: less_eq_div_iff_mult_less_eq)
  finally show ?thesis by (simp add: Suc_le_eq)
qed

lemma read_record_conv:
  assumes "0 < sz"
  shows "read_record dec sz i f =
    (if i < length (file_records dec sz f) then Some (file_records dec sz f ! i) else None)"
  using read_full_iff [OF assms, of i f] by (simp add: read_record_def file_records_def Let_def)

section \<open>The contract of a record encoding\<close>

locale record_file =
  fixes enc :: "'r \<Rightarrow> byte list"
    and dec :: "byte list \<Rightarrow> 'r"
    and sz :: nat
    and ok :: "'r \<Rightarrow> bool"
  assumes sz_pos: "0 < sz"
    and enc_length: "ok r \<Longrightarrow> length (enc r) = sz"
    and dec_enc: "ok r \<Longrightarrow> dec (enc r) = r"
begin

lemma read_write_same:
  "ok r \<Longrightarrow> read_record dec sz i (overwrite 0 (i * sz) (enc r) f) = Some r"
  by (simp add: read_record_def file_simps enc_length dec_enc Let_def)

text \<open>A write of at most one record at \<open>i\<close>, torn or not, leaves every other record alone.\<close>

lemma read_write_other:
  assumes "length bs \<le> sz" "i * sz \<le> length f" "j \<noteq> i"
  shows "read_record dec sz j (overwrite 0 (i * sz) bs f) = read_record dec sz j f"
proof (cases "j < i")
  case True
  then have "j * sz + sz \<le> i * sz" using mult_le_mono1 [of "Suc j" i sz] by simp
  with assms show ?thesis by (simp add: read_record_def read_at_overwrite_before)
next
  case False
  with assms(3) have "i * sz + sz \<le> j * sz" using mult_le_mono1 [of "Suc i" j sz] by simp
  with assms show ?thesis by (simp add: read_record_def read_at_overwrite_after)
qed

lemma records_le:
  assumes "i \<le> length (file_records dec sz f)"
  shows "i * sz \<le> length f"
proof -
  have "i * sz \<le> length f div sz * sz" using assms by (intro mult_le_mono1) simp
  also have "\<dots> \<le> length f" by (rule div_times_less_eq_dividend)
  finally show ?thesis .
qed

lemma mono_div: "mono (\<lambda>n. n div k)" for k :: nat
  by (simp add: monoI div_le_mono)

lemma write_length:
  assumes "ok r" "i \<le> length (file_records dec sz f)"
  shows "length (overwrite 0 (i * sz) (enc r) f) div sz = max (length f div sz) (Suc i)"
proof -
  have "length (overwrite 0 (i * sz) (enc r) f) = max (length f) (Suc i * sz)"
    using assms sz_pos enc_length [OF assms(1)] by auto
  moreover have "max (length f) (Suc i * sz) div sz = max (length f div sz) (Suc i * sz div sz)"
    by (rule max_of_mono [OF mono_div, symmetric])
  ultimately show ?thesis using sz_pos by simp
qed

text \<open>On the level of the records a write is an update, or it appends one.\<close>

lemma records_write:
  assumes "ok r" "i \<le> length (file_records dec sz f)"
  shows "file_records dec sz (overwrite 0 (i * sz) (enc r) f) =
    (if i < length (file_records dec sz f) then (file_records dec sz f)[i := r]
     else file_records dec sz f @ [r])"
    (is "file_records dec sz ?g = ?rs")
proof (rule nth_equalityI)
  show "length (file_records dec sz ?g) = length ?rs"
    using write_length [OF assms] assms(2) by auto
next
  fix j assume j: "j < length (file_records dec sz ?g)"
  then have "read_record dec sz j ?g = Some (file_records dec sz ?g ! j)"
    using sz_pos by (simp only: read_record_conv if_True)
  moreover have "read_record dec sz j ?g = (if j = i then Some r else read_record dec sz j f)"
    using read_write_same [OF assms(1)] read_write_other [OF _ records_le [OF assms(2)]] enc_length [OF assms(1)]
    by (cases "j = i") auto
  ultimately show "file_records dec sz ?g ! j = ?rs ! j"
    using j write_length [OF assms] assms(2) sz_pos
    by (auto simp: read_record_conv nth_append split: if_splits)
qed

text \<open>Appending at the end of a file that holds whole records only.\<close>

lemma records_append:
  assumes "ok r" "sz dvd length f"
  shows "file_records dec sz (f @ enc r) = file_records dec sz f @ [r]"
proof -
  from assms(2) have "length f div sz * sz = length f" by simp
  then have "overwrite 0 (length f div sz * sz) (enc r) f = f @ enc r"
    by (simp add: overwrite_end)
  with records_write [OF assms(1), of "length f div sz" f] show ?thesis by simp
qed

text \<open>A file that is written record by record holds these records.\<close>

lemma records_concat:
  assumes "\<forall>r \<in> set rs. ok r"
  shows "file_records dec sz (concat (map enc rs)) = rs \<and> sz dvd length (concat (map enc rs))"
  using assms
proof (induction rs rule: rev_induct)
  case (snoc r rs)
  then show ?case using records_append [of r "concat (map enc rs)"] enc_length [of r] by auto
qed (simp add: file_records_def)

lemma dvd_write:
  assumes "ok r" "sz dvd length f" "i \<le> length (file_records dec sz f)"
  shows "sz dvd length (overwrite 0 (i * sz) (enc r) f)"
  using assms sz_pos enc_length [OF assms(1)] by (auto simp: max_def)

end

end
