(* ===== verification/Protocol.thy ===== *)
theory Protocol
  imports Utils Record_File
begin

text \<open>
  \<open>src/src/common/protocol.h\<close>: the constants, the structs as records, and the memory images of the
  two structs that are stored on disk (little-endian, with the padding of the C layout). C strings
  in fixed arrays are the characters before the NUL; the padding behind them is written as zeros,
  which no reader of the files looks at.
\<close>

section \<open>Constants\<close>

abbreviation (input) MAX_CLIENTS :: nat where "MAX_CLIENTS \<equiv> 50"
abbreviation (input) MAX_ROOMS :: nat where "MAX_ROOMS \<equiv> 32"
abbreviation (input) MAX_USERNAME_LEN :: nat where "MAX_USERNAME_LEN \<equiv> 32"
abbreviation (input) MAX_PASSWORD_LEN :: nat where "MAX_PASSWORD_LEN \<equiv> 64"
abbreviation (input) MAX_ROLE_LEN :: nat where "MAX_ROLE_LEN \<equiv> 16"
abbreviation (input) MAX_ROOM_NAME_LEN :: nat where "MAX_ROOM_NAME_LEN \<equiv> 32"
abbreviation (input) MAX_PACKET_SIZE :: nat where "MAX_PACKET_SIZE \<equiv> 4096"
abbreviation (input) AUDIO_PAYLOAD_SIZE :: nat where "AUDIO_PAYLOAD_SIZE \<equiv> 2048"
abbreviation (input) JITTER_BUFFER_SIZE :: nat where "JITTER_BUFFER_SIZE \<equiv> 20"
abbreviation (input) MAX_SPEAKERS_PER_ROOM :: int where "MAX_SPEAKERS_PER_ROOM \<equiv> 10"
abbreviation (input) RING_BUFFER_CAPACITY :: nat where "RING_BUFFER_CAPACITY \<equiv> 128"
abbreviation (input) DEFAULT_PORT :: int where "DEFAULT_PORT \<equiv> 8080"

abbreviation (input) ROLE_ADMIN :: int where "ROLE_ADMIN \<equiv> 1"
abbreviation (input) ROLE_MODERATOR :: int where "ROLE_MODERATOR \<equiv> 2"
abbreviation (input) ROLE_USER :: int where "ROLE_USER \<equiv> 3"
abbreviation (input) ROLE_GUEST :: int where "ROLE_GUEST \<equiv> 4"

abbreviation (input) CMD_LOGIN :: int where "CMD_LOGIN \<equiv> 1"
abbreviation (input) CMD_LOGOUT :: int where "CMD_LOGOUT \<equiv> 2"
abbreviation (input) CMD_CREATE :: int where "CMD_CREATE \<equiv> 3"
abbreviation (input) CMD_JOIN :: int where "CMD_JOIN \<equiv> 4"
abbreviation (input) CMD_LEAVE :: int where "CMD_LEAVE \<equiv> 5"
abbreviation (input) CMD_LIST :: int where "CMD_LIST \<equiv> 6"
abbreviation (input) CMD_KICK :: int where "CMD_KICK \<equiv> 7"
abbreviation (input) CMD_MUTE :: int where "CMD_MUTE \<equiv> 8"
abbreviation (input) CMD_STATUS :: int where "CMD_STATUS \<equiv> 9"
abbreviation (input) CMD_PROMOTE :: int where "CMD_PROMOTE \<equiv> 10"

abbreviation (input) STATUS_OK :: int where "STATUS_OK \<equiv> 200"
abbreviation (input) STATUS_ERR_AUTH :: int where "STATUS_ERR_AUTH \<equiv> 401"
abbreviation (input) STATUS_ERR_NOT_FOUND :: int where "STATUS_ERR_NOT_FOUND \<equiv> 404"
abbreviation (input) STATUS_ERR_FORBIDDEN :: int where "STATUS_ERR_FORBIDDEN \<equiv> 403"
abbreviation (input) STATUS_ERR_CONFLICT :: int where "STATUS_ERR_CONFLICT \<equiv> 409"
abbreviation (input) STATUS_ERR_FULL :: int where "STATUS_ERR_FULL \<equiv> 507"
abbreviation (input) STATUS_ERR_INTERNAL :: int where "STATUS_ERR_INTERNAL \<equiv> 500"

section \<open>Structs\<close>

record user_record =
  ur_user_id :: int
  ur_username :: string
  ur_role :: string
  ur_password_hash :: "byte list" \<comment> \<open>the whole array of 65 bytes: it is compared with \<open>safe_memcmp\<close>\<close>
  ur_is_active :: int

record room_record =
  rr_room_id :: int
  rr_room_name :: string
  rr_password :: string
  rr_is_active :: int
  rr_user_count :: int

record audio_packet =
  ap_room_id :: u32
  ap_sender_id :: u32
  ap_seq_num :: u32
  ap_timestamp :: u32
  ap_payload_size :: u16
  ap_payload :: "byte list"

record response_packet =
  resp_opcode :: int
  resp_status :: int
  resp_message :: string
  resp_data :: string

record sockaddr_in =
  sin_addr :: u32
  sin_port :: u16

record client =
  c_fd :: int
  c_slot :: nat
  c_user_id :: int
  c_username :: string
  c_role :: int
  c_current_room :: "addr option"
  c_is_mute :: bool
  c_is_active :: bool
  c_ref_count :: int
  c_udp_addr :: sockaddr_in
  c_udp_addr_len :: nat

record room =
  r_room_id :: nat
  r_room_name :: string
  r_password :: string
  r_participants :: "addr option list"
  r_participant_count :: nat
  r_active_speakers :: int
  r_prev :: "addr option"
  r_next :: "addr option"

record jitter_entry =
  je_seq_num :: u32
  je_timestamp :: u32
  je_payload_size :: u16
  je_payload :: "byte list"
  je_valid :: bool

record jitter_buffer =
  jb_buffer :: "jitter_entry list"
  jb_head :: int
  jb_tail :: int
  jb_count :: int
  jb_buffering :: bool
  jb_next_expected_seq :: u32

record ring_buffer =
  rb_packets :: "audio_packet list"
  rb_head :: u32
  rb_tail :: u32
  rb_count :: u32

section \<open>Memory images\<close>

definition enc_i32 :: "int \<Rightarrow> byte list" where
  "enc_i32 i = [word_of_int i, word_of_int (i div 256), word_of_int (i div 65536),
     word_of_int (i div 16777216)]"

definition dec_i32 :: "byte list \<Rightarrow> int" where
  "dec_i32 bs =
     (case bs of
        [a, b, c, d] \<Rightarrow> wrap_i32 (uint a + 256 * uint b + 65536 * uint c + 16777216 * uint d)
      | _ \<Rightarrow> 0)"

definition enc_str :: "nat \<Rightarrow> string \<Rightarrow> byte list" where
  "enc_str n s = map byte_of s @ replicate (n - length s) 0"

definition dec_str :: "byte list \<Rightarrow> string" where
  "dec_str bs = map (\<lambda>b. char_of (unat b)) (takeWhile (\<lambda>b. b \<noteq> 0) bs)"

abbreviation (input) ROOM_RECORD_SIZE :: nat where "ROOM_RECORD_SIZE \<equiv> 108"
abbreviation (input) USER_RECORD_SIZE :: nat where "USER_RECORD_SIZE \<equiv> 124"

definition enc_room :: "room_record \<Rightarrow> byte list" where
  "enc_room r = enc_i32 (rr_room_id r) @ enc_str MAX_ROOM_NAME_LEN (rr_room_name r) @
     enc_str MAX_PASSWORD_LEN (rr_password r) @ enc_i32 (rr_is_active r) @ enc_i32 (rr_user_count r)"

definition dec_room :: "byte list \<Rightarrow> room_record" where
  "dec_room bs = \<lparr>rr_room_id = dec_i32 (read_at 0 4 bs), rr_room_name = dec_str (read_at 4 32 bs),
     rr_password = dec_str (read_at 36 64 bs), rr_is_active = dec_i32 (read_at 100 4 bs),
     rr_user_count = dec_i32 (read_at 104 4 bs)\<rparr>"

definition enc_user :: "user_record \<Rightarrow> byte list" where
  "enc_user u = enc_i32 (ur_user_id u) @ enc_str MAX_USERNAME_LEN (ur_username u) @
     enc_str MAX_ROLE_LEN (ur_role u) @ ur_password_hash u @ [0, 0, 0] @ enc_i32 (ur_is_active u)"

definition dec_user :: "byte list \<Rightarrow> user_record" where
  "dec_user bs = \<lparr>ur_user_id = dec_i32 (read_at 0 4 bs), ur_username = dec_str (read_at 4 32 bs),
     ur_role = dec_str (read_at 36 16 bs), ur_password_hash = read_at 52 65 bs,
     ur_is_active = dec_i32 (read_at 120 4 bs)\<rparr>"

text \<open>A string that fits an array of \<open>n\<close> characters with its NUL, and records that fit their struct.\<close>

definition fits :: "nat \<Rightarrow> string \<Rightarrow> bool" where
  "fits n s \<longleftrightarrow> length s < n \<and> nul \<notin> set s"

definition room_record_ok :: "room_record \<Rightarrow> bool" where
  "room_record_ok r \<longleftrightarrow> in_i32 (rr_room_id r) \<and> fits MAX_ROOM_NAME_LEN (rr_room_name r) \<and>
     fits MAX_PASSWORD_LEN (rr_password r) \<and> in_i32 (rr_is_active r) \<and> in_i32 (rr_user_count r)"

definition user_record_ok :: "user_record \<Rightarrow> bool" where
  "user_record_ok u \<longleftrightarrow> in_i32 (ur_user_id u) \<and> fits MAX_USERNAME_LEN (ur_username u) \<and>
     fits MAX_ROLE_LEN (ur_role u) \<and> length (ur_password_hash u) = 65 \<and> in_i32 (ur_is_active u)"

section \<open>Round trips\<close>

lemma length_enc_i32 [simp]: "length (enc_i32 i) = 4"
  by (simp add: enc_i32_def)

lemma length_enc_str [simp]: "fits n s \<Longrightarrow> length (enc_str n s) = n"
  by (simp add: enc_str_def fits_def)

lemma uint_byte [simp]: "uint (word_of_int k :: byte) = k mod 256"
  by (simp add: uint_word_of_int)

lemma mod_split: "i mod (256 * k) = i mod 256 + 256 * (i div 256 mod k)" if "0 \<le> k" for i k :: int
  using zmod_zmult2_eq [OF that, of i 256] by simp

lemma i32_bytes:
  "i mod 256 + 256 * (i div 256 mod 256) + 65536 * (i div 65536 mod 256) +
     16777216 * (i div 16777216 mod 256) = i mod 4294967296" for i :: int
proof -
  have d: "i div 65536 = i div 256 div 256" "i div 16777216 = i div 256 div 256 div 256"
    using zdiv_zmult2_eq [of 256 i 256] zdiv_zmult2_eq [of 256 "i div 256" 256]
      zdiv_zmult2_eq [of 65536 i 256] by simp_all
  have "i mod 4294967296 = i mod 256 + 256 * (i div 256 mod 16777216)"
    using mod_split [of 16777216 i] by simp
  moreover have "i div 256 mod 16777216 = i div 256 mod 256 + 256 * (i div 256 div 256 mod 65536)"
    using mod_split [of 65536 "i div 256"] by simp
  moreover have "i div 256 div 256 mod 65536 =
      i div 256 div 256 mod 256 + 256 * (i div 256 div 256 div 256 mod 256)"
    using mod_split [of 256 "i div 256 div 256"] by simp
  moreover have "x + 256 * y + 65536 * z + 16777216 * w = x + 256 * (y + 256 * (z + 256 * w))"
    for x y z w :: int by simp
  ultimately show ?thesis by (simp only: d)
qed

lemma dec_enc_i32 [simp]: "in_i32 i \<Longrightarrow> dec_i32 (enc_i32 i) = i"
proof -
  assume i: "in_i32 i"
  have "dec_i32 (enc_i32 i) = wrap_i32 (i mod 4294967296)"
    by (simp only: dec_i32_def enc_i32_def list.case uint_byte i32_bytes)
  also have "\<dots> = wrap_i32 i" by (simp add: wrap_i32_def mod_add_left_eq)
  finally show ?thesis using i by (simp add: wrap_i32_def in_i32_def)
qed

lemma dec_enc_str [simp]: "fits n s \<Longrightarrow> dec_str (enc_str n s) = s"
proof -
  assume s: "fits n s"
  then have "takeWhile (\<lambda>b. b \<noteq> 0) (enc_str n s) = map byte_of s"
    by (auto simp: enc_str_def fits_def takeWhile_append takeWhile_replicate)
  then show ?thesis by (simp add: dec_str_def comp_def)
qed

lemma read_at_append:
  "length xs = off \<Longrightarrow> n \<le> length ys \<Longrightarrow> read_at off n (xs @ ys @ zs) = take n ys"
  by (simp add: read_at_def)

interpretation room_file: record_file enc_room dec_room ROOM_RECORD_SIZE room_record_ok
proof
  fix r assume r: "room_record_ok r"
  then show "length (enc_room r) = ROOM_RECORD_SIZE" by (simp add: enc_room_def room_record_ok_def)
  show "dec_room (enc_room r) = r"
    using r by (simp add: dec_room_def enc_room_def room_record_ok_def read_at_def)
qed simp

interpretation user_file: record_file enc_user dec_user USER_RECORD_SIZE user_record_ok
proof
  fix u assume u: "user_record_ok u"
  then show "length (enc_user u) = USER_RECORD_SIZE" by (simp add: enc_user_def user_record_ok_def)
  show "dec_user (enc_user u) = u"
    using u by (simp add: dec_user_def enc_user_def user_record_ok_def read_at_def)
qed simp

end
