(* ===== verification/File_Db.thy ===== *)
theory File_Db
  imports Protocol
begin

text \<open>
  \<open>src/src/server/file_db.c\<close>: the room file, the user file and the write-ahead log. The state holds
  the contents of the three files, the position of the log's descriptor (it is the only file that
  is written without seeking first), and what the operating system will answer: \<open>disk\<close> lists how many
  bytes the coming \<open>write\<close> calls accept (0 for a failed call) and \<open>calls\<close> what the coming \<open>malloc\<close>,
  \<open>read\<close> and \<open>ftruncate\<close> calls on the log return: 0 for a failed call, otherwise success, and for a
  \<open>read\<close> at most so many bytes; an exhausted list means that everything succeeds in full. The \<open>fcntl\<close> locks and \<open>fsync\<close> have no effect on the contents and are left out.
\<close>

section \<open>State\<close>

record file_db =
  rooms_fd :: int
  rooms_bin :: "byte list"
  wal_fd :: int
  wal_log :: string
  wal_pos :: nat
  users_fd :: int
  users_bin :: "byte list"
  disk :: "nat list"
  calls :: "nat list"

definition sys_write :: "nat \<Rightarrow> file_db \<Rightarrow> nat \<times> file_db" where
  "sys_write n s = (case disk s of [] \<Rightarrow> (n, s) | k # ks \<Rightarrow> (min n k, s\<lparr>disk := ks\<rparr>))"

definition sys_call :: "file_db \<Rightarrow> bool \<times> file_db" where
  "sys_call s = (case calls s of [] \<Rightarrow> (True, s) | k # ks \<Rightarrow> (0 < k, s\<lparr>calls := ks\<rparr>))"

definition sys_read :: "nat \<Rightarrow> file_db \<Rightarrow> nat \<times> file_db" where
  "sys_read n s = (case calls s of [] \<Rightarrow> (n, s) | k # ks \<Rightarrow> (min n k, s\<lparr>calls := ks\<rparr>))"

section \<open>The log\<close>

definition begin_line :: "int \<Rightarrow> string" where
  "begin_line record_id = ''BEGIN '' @ print_int record_id"

definition record_text :: "room_record \<Rightarrow> string" where
  "record_text r = print_int (rr_room_id r) @ '' '' @ rr_room_name r @ '' '' @ rr_password r @ '' '' @
     print_int (rr_is_active r) @ '' '' @ print_int (rr_user_count r)"

definition old_line :: "room_record option \<Rightarrow> string" where
  "old_line old = (case old of Some r \<Rightarrow> ''OLD '' @ record_text r | None \<Rightarrow> ''OLD NULL'')"

definition new_line :: "room_record \<Rightarrow> string" where
  "new_line r = ''NEW '' @ record_text r"

definition commit_line :: "int \<Rightarrow> string" where
  "commit_line record_id = ''COMMIT '' @ print_int record_id"

definition rollback_line :: "int \<Rightarrow> string" where
  "rollback_line record_id = ''ROLLBACK '' @ print_int record_id"

text \<open>\<open>wal_write\<close> writes at the descriptor's position; an incomplete write is only logged.\<close>

definition wal_write :: "string \<Rightarrow> file_db \<Rightarrow> file_db" where
  "wal_write buf s =
     (if wal_fd s = - 1 then s
      else let (n, s1) = sys_write (length buf) s
           in s1\<lparr>wal_log := overwrite nul (wal_pos s1) (take n buf) (wal_log s1),
                 wal_pos := wal_pos s1 + n\<rparr>)"

definition wal_begin :: "int \<Rightarrow> room_record option \<Rightarrow> room_record \<Rightarrow> file_db \<Rightarrow> file_db" where
  "wal_begin record_id old_rec new_rec s =
     (let s1 = wal_write (begin_line record_id @ [newline]) s;
          s2 = wal_write (old_line old_rec @ [newline]) s1
      in wal_write (new_line new_rec @ [newline]) s2)"

definition wal_commit :: "int \<Rightarrow> file_db \<Rightarrow> file_db" where
  "wal_commit record_id s = wal_write (commit_line record_id @ [newline]) s"

text \<open>
  Reading the log into memory: seek to the start, allocate, read. \<open>None\<close> says that one of the calls
  failed, and then the descriptor stays at the start. Only the first 512 lines of what was read are
  kept.
\<close>

definition wal_load :: "file_db \<Rightarrow> string list option \<times> file_db" where
  "wal_load s =
     (let (malloc_ok, s1) = sys_call (s\<lparr>wal_pos := 0\<rparr>)
      in if \<not> malloc_ok then (None, s1)
         else let (bytes, s2) = sys_read (length (wal_log s1)) s1
              in if bytes = 0 then (None, s2)
                 else (Some (take 512 (tokens (\<lambda>c. c = newline) (c_string (take bytes (wal_log s2))))),
                       s2\<lparr>wal_pos := bytes\<rparr>))"

section \<open>Records of the room file\<close>

definition db_read_room_raw :: "nat \<Rightarrow> file_db \<Rightarrow> room_record option" where
  "db_read_room_raw room_id s =
     (if rooms_fd s = - 1 then None
      else read_record dec_room ROOM_RECORD_SIZE room_id (rooms_bin s))"

definition db_read_room :: "nat \<Rightarrow> file_db \<Rightarrow> room_record option" where
  "db_read_room room_id s =
     (if rooms_fd s = - 1 then None
      else case read_record dec_room ROOM_RECORD_SIZE room_id (rooms_bin s) of
             None \<Rightarrow> None
           | Some rec \<Rightarrow> if rr_is_active rec = 0 then None else Some rec)"

text \<open>\<open>lseek\<close> to the record and \<open>write\<close>: how many bytes went out, and the file with those bytes.\<close>

definition put_room :: "nat \<Rightarrow> room_record \<Rightarrow> file_db \<Rightarrow> nat \<times> file_db" where
  "put_room room_id rec s =
     (let (n, s1) = sys_write ROOM_RECORD_SIZE s
      in (n, s1\<lparr>rooms_bin :=
                 overwrite 0 (room_id * ROOM_RECORD_SIZE) (take n (enc_room rec)) (rooms_bin s1)\<rparr>))"

fun next_free :: "nat \<Rightarrow> room_record list \<Rightarrow> nat" where
  "next_free i [] = i"
| "next_free i (rec # recs) = (if rr_is_active rec = 0 then i else next_free (Suc i) recs)"

definition db_next_free_room_id :: "file_db \<Rightarrow> nat" where
  "db_next_free_room_id s =
     next_free 0 (if rooms_fd s = - 1 then [] else file_records dec_room ROOM_RECORD_SIZE (rooms_bin s))"

fun find_user :: "string \<Rightarrow> user_record list \<Rightarrow> user_record option" where
  "find_user username [] = None"
| "find_user username (rec # recs) =
     (if ur_is_active rec \<noteq> 0 \<and> ur_username rec = username then Some rec
      else find_user username recs)"

definition db_read_user_by_name :: "string \<Rightarrow> file_db \<Rightarrow> user_record option" where
  "db_read_user_by_name username s =
     (if users_fd s = - 1 then None
      else find_user username (file_records dec_user USER_RECORD_SIZE (users_bin s)))"

section \<open>Undoing a transaction\<close>

text \<open>The first \<open>OLD\<close> line of the transaction that starts with the first line of the list.\<close>

fun find_old :: "bool \<Rightarrow> string list \<Rightarrow> string option" where
  "find_old at_start [] = None"
| "find_old at_start (l # ls) =
     (if \<not> at_start \<and> strncmp_eq l ''BEGIN'' 5 then None
      else if strncmp_eq l ''OLD'' 3 then Some l
      else find_old False ls)"

definition old_format :: "directive list" where
  "old_format = map Lit ''OLD'' @ [Ws, ConvD, Ws, ConvS 31, Ws, ConvS 63, Ws, ConvD, Ws, ConvD]"

definition empty_record :: room_record where
  "empty_record = \<lparr>rr_room_id = 0, rr_room_name = [], rr_password = [], rr_is_active = 0,
     rr_user_count = 0\<rparr>"

definition parse_old :: "string \<Rightarrow> room_record" where
  "parse_old l =
     (let vs = sscanf old_format l; num = \<lambda>i. (case arg_int vs i of None \<Rightarrow> 0 | Some n \<Rightarrow> n)
      in \<lparr>rr_room_id = num 0, rr_room_name = arg_str vs 1, rr_password = arg_str vs 2,
          rr_is_active = num 3, rr_user_count = num 4\<rparr>)"

text \<open>
  A negative id makes the \<open>lseek\<close> fail, and the record would go wherever the descriptor happens to
  stand: that is \<open>None\<close>.
\<close>

definition wal_restore_old :: "int \<Rightarrow> string list \<Rightarrow> file_db \<Rightarrow> file_db option" where
  "wal_restore_old record_id lines s =
     (case find_old True lines of
        None \<Rightarrow> Some s
      | Some l \<Rightarrow>
          if record_id < 0 then None
          else if strstr l ''OLD NULL'' then Some (snd (put_room (nat record_id) empty_record s))
          else Some (snd (put_room (nat record_id) (parse_old l) s)))"

text \<open>The number behind a keyword; \<open>None\<close> when \<open>sscanf\<close> stores nothing and the variable is unset.\<close>

definition line_id :: "string \<Rightarrow> string \<Rightarrow> int option" where
  "line_id key l = arg_int (sscanf (map Lit key @ [Ws, ConvD]) l) 0"

fun find_begin :: "int \<Rightarrow> string list \<Rightarrow> string list option option" where
  "find_begin record_id [] = Some None"
| "find_begin record_id (l # ls) =
     (if strncmp_eq l ''BEGIN'' 5 then
        (case line_id ''BEGIN'' l of
           None \<Rightarrow> None
         | Some rid \<Rightarrow> if rid = record_id then Some (Some (l # ls)) else find_begin record_id ls)
      else find_begin record_id ls)"

definition wal_rollback :: "int \<Rightarrow> file_db \<Rightarrow> file_db option" where
  "wal_rollback record_id s =
     (let s1 = wal_write (rollback_line record_id @ [newline]) s
      in if wal_fd s1 = - 1 then Some s1
         else if wal_log s1 = [] then Some (s1\<lparr>wal_pos := 0\<rparr>)
         else case wal_load s1 of
                (None, s2) \<Rightarrow> Some s2
              | (Some lines, s2) \<Rightarrow>
                  (case find_begin record_id lines of
                     None \<Rightarrow> None
                   | Some None \<Rightarrow> Some s2
                   | Some (Some ls) \<Rightarrow> wal_restore_old record_id ls s2))"

text \<open>Whether a \<open>COMMIT\<close> or \<open>ROLLBACK\<close> of the record follows before the next \<open>BEGIN\<close>.\<close>

fun wal_completed :: "int \<Rightarrow> string list \<Rightarrow> bool option" where
  "wal_completed record_id [] = Some False"
| "wal_completed record_id (l # ls) =
     (if strncmp_eq l ''BEGIN'' 5 then Some False
      else if strncmp_eq l ''COMMIT'' 6 then
        (case line_id ''COMMIT'' l of
           None \<Rightarrow> None
         | Some check_id \<Rightarrow> if check_id = record_id then Some True else wal_completed record_id ls)
      else if strncmp_eq l ''ROLLBACK'' 8 then
        (case line_id ''ROLLBACK'' l of
           None \<Rightarrow> None
         | Some check_id \<Rightarrow> if check_id = record_id then Some True else wal_completed record_id ls)
      else wal_completed record_id ls)"

fun recover_loop :: "string list \<Rightarrow> file_db \<Rightarrow> file_db option" where
  "recover_loop [] s = Some s"
| "recover_loop (l # ls) s =
     (if strncmp_eq l ''BEGIN'' 5 then
        (case line_id ''BEGIN'' l of
           None \<Rightarrow> None
         | Some record_id \<Rightarrow>
             (case wal_completed record_id ls of
                None \<Rightarrow> None
              | Some True \<Rightarrow> recover_loop ls s
              | Some False \<Rightarrow> Option.bind (wal_restore_old record_id (l # ls) s) (recover_loop ls)))
      else recover_loop ls s)"

definition wal_recover :: "file_db \<Rightarrow> file_db option" where
  "wal_recover s =
     (if wal_fd s = - 1 then Some s
      else if wal_log s = [] then Some (s\<lparr>wal_pos := 0\<rparr>)
      else case wal_load s of
             (None, s1) \<Rightarrow> Some s1
           | (Some lines, s1) \<Rightarrow>
               (case recover_loop lines s1 of
                  None \<Rightarrow> None
                | Some s2 \<Rightarrow>
                    let (truncate_ok, s3) = sys_call s2
                    in Some ((if truncate_ok then s3\<lparr>wal_log := []\<rparr> else s3)\<lparr>wal_pos := 0\<rparr>)))"

section \<open>Writing a record and starting up\<close>

definition db_write_room :: "nat \<Rightarrow> room_record \<Rightarrow> file_db \<Rightarrow> (bool \<times> file_db) option" where
  "db_write_room room_id rec s =
     (if rooms_fd s = - 1 then Some (False, s)
      else let s1 = wal_begin (int room_id) (db_read_room_raw room_id s) rec s;
               (n, s2) = put_room room_id rec s1
           in if n \<noteq> ROOM_RECORD_SIZE
              then map_option (Pair False) (wal_rollback (int room_id) s2)
              else Some (True, wal_commit (int room_id) s2))"

text \<open>
  \<open>file_db_init\<close> with the descriptors its four \<open>open\<close> calls return (\<open>-1\<close> for a failure); \<open>Inl\<close> is the
  process's exit code.
\<close>

definition file_db_init :: "int \<Rightarrow> int \<Rightarrow> int \<Rightarrow> int \<Rightarrow> file_db \<Rightarrow> (int + file_db) option" where
  "file_db_init open_rooms create_rooms open_wal create_wal s =
     (let rfd = (if open_rooms = - 1 then create_rooms else open_rooms);
          wfd = (if open_wal = - 1 then create_wal else open_wal)
      in if rfd = - 1 then Some (Inl 1)
         else if wfd = - 1 then Some (Inl 1)
         else map_option Inr (wal_recover (s\<lparr>rooms_fd := rfd, wal_fd := wfd, wal_pos := 0\<rparr>)))"

section \<open>Facts\<close>

abbreviation rooms_of :: "file_db \<Rightarrow> room_record list" where
  "rooms_of s \<equiv> file_records dec_room ROOM_RECORD_SIZE (rooms_bin s)"

abbreviation users_of :: "file_db \<Rightarrow> user_record list" where
  "users_of s \<equiv> file_records dec_user USER_RECORD_SIZE (users_bin s)"

text \<open>The descriptors are open, the log is written at its end, and no system call fails.\<close>

definition db_ready :: "file_db \<Rightarrow> bool" where
  "db_ready s \<longleftrightarrow> rooms_fd s \<noteq> - 1 \<and> wal_fd s \<noteq> - 1 \<and> disk s = [] \<and> calls s = [] \<and>
     wal_pos s = length (wal_log s)"

lemma sys_write_full [file_simps]: "disk s = [] \<Longrightarrow> sys_write n s = (n, s)"
  by (simp add: sys_write_def)

lemma sys_call_ok [file_simps]: "calls s = [] \<Longrightarrow> sys_call s = (True, s)"
  by (simp add: sys_call_def)

lemma wal_load_full [file_simps]:
  assumes "calls s = []" "wal_log s \<noteq> []"
  shows "wal_load s = (Some (take 512 (tokens (\<lambda>c. c = newline) (c_string (wal_log s)))), s\<lparr>wal_pos := length (wal_log s)\<rparr>)"
  using assms by (simp add: wal_load_def sys_call_def sys_read_def)

lemma wal_write_append [file_simps]:
  assumes "wal_fd s \<noteq> - 1" "disk s = []" "wal_pos s = length (wal_log s)"
  shows "wal_write buf s = s\<lparr>wal_log := wal_log s @ buf, wal_pos := length (wal_log s) + length buf\<rparr>"
  using assms by (simp add: wal_write_def file_simps)

lemma put_room_full [file_simps]:
  assumes "disk s = []" "room_record_ok rec"
  shows "put_room i rec s =
    (ROOM_RECORD_SIZE, s\<lparr>rooms_bin := overwrite 0 (i * ROOM_RECORD_SIZE) (enc_room rec) (rooms_bin s)\<rparr>)"
  using assms room_file.enc_length [OF assms(2)] by (simp add: put_room_def file_simps)

text \<open>The state after a write of a room record in which every system call succeeds.\<close>

definition txn_lines :: "nat \<Rightarrow> room_record option \<Rightarrow> room_record \<Rightarrow> string list" where
  "txn_lines i old rec =
     [begin_line (int i), old_line old, new_line rec, commit_line (int i)]"

definition log_text :: "string list \<Rightarrow> string" where
  "log_text ls = concat (map (\<lambda>l. l @ [newline]) ls)"

lemma log_text_simps [simp]:
  "log_text [] = []" "log_text (l # ls) = l @ newline # log_text ls"
  "log_text (ls @ ms) = log_text ls @ log_text ms"
  by (simp_all add: log_text_def)

lemma db_write_room_ready:
  assumes "db_ready s" "room_record_ok rec"
  shows "db_write_room i rec s =
    Some (True, s\<lparr>rooms_bin := overwrite 0 (i * ROOM_RECORD_SIZE) (enc_room rec) (rooms_bin s),
                  wal_log := wal_log s @ log_text (txn_lines i (db_read_room_raw i s) rec),
                  wal_pos := length (wal_log s @ log_text (txn_lines i (db_read_room_raw i s) rec))\<rparr>)"
  using assms
  by (simp add: db_ready_def db_write_room_def wal_begin_def wal_commit_def file_simps txn_lines_def)

lemma db_write_room_ready_keeps:
  assumes "db_ready s" "room_record_ok rec" "db_write_room i rec s = Some (b, s')"
  shows "b" "db_ready s'" "users_bin s' = users_bin s" "users_fd s' = users_fd s"
    "rooms_bin s' = overwrite 0 (i * ROOM_RECORD_SIZE) (enc_room rec) (rooms_bin s)"
  using assms by (auto simp: db_write_room_ready) (auto simp: db_ready_def)

lemma db_write_room_records:
  assumes "db_ready s" "room_record_ok rec" "i \<le> length (rooms_of s)"
    "db_write_room i rec s = Some (b, s')"
  shows "rooms_of s' = (if i < length (rooms_of s) then (rooms_of s)[i := rec] else rooms_of s @ [rec])"
  using room_file.records_write [OF assms(2,3)] db_write_room_ready_keeps(5) [OF assms(1,2,4)]
  by simp

lemma db_read_room_raw_conv:
  "rooms_fd s \<noteq> - 1 \<Longrightarrow>
    db_read_room_raw i s = (if i < length (rooms_of s) then Some (rooms_of s ! i) else None)"
  by (simp add: db_read_room_raw_def read_record_conv)

lemma db_read_room_conv:
  "rooms_fd s \<noteq> - 1 \<Longrightarrow>
    db_read_room i s = (if i < length (rooms_of s) \<and> rr_is_active (rooms_of s ! i) \<noteq> 0
      then Some (rooms_of s ! i) else None)"
  by (simp add: db_read_room_def read_record_conv)

lemma next_free_props:
  "i \<le> next_free i recs \<and> next_free i recs \<le> i + length recs \<and>
   (next_free i recs < i + length recs \<longrightarrow> rr_is_active (recs ! (next_free i recs - i)) = 0) \<and>
   (\<forall>j. i \<le> j \<and> j < next_free i recs \<longrightarrow> rr_is_active (recs ! (j - i)) \<noteq> 0)"
proof (induction i recs rule: next_free.induct)
  case (2 i rec recs)
  show ?case
  proof (cases "rr_is_active rec = 0")
    case False
    with 2 have IH: "Suc i \<le> next_free (Suc i) recs"
      "next_free (Suc i) recs \<le> Suc i + length recs"
      "next_free (Suc i) recs < Suc i + length recs \<longrightarrow>
         rr_is_active (recs ! (next_free (Suc i) recs - Suc i)) = 0"
      "\<forall>j. Suc i \<le> j \<and> j < next_free (Suc i) recs \<longrightarrow> rr_is_active (recs ! (j - Suc i)) \<noteq> 0"
      by auto
    have "rr_is_active ((rec # recs) ! (j - i)) \<noteq> 0" if "i \<le> j" "j < next_free (Suc i) recs" for j
      using that False IH(4) by (cases "j = i") (auto simp: nth_Cons')
    moreover have "(rec # recs) ! (next_free (Suc i) recs - i) = recs ! (next_free (Suc i) recs - Suc i)"
      using IH(1) by (simp add: nth_Cons')
    ultimately show ?thesis using False IH by simp
  qed simp
qed simp

text \<open>
  \<open>db_next_free_room_id\<close> returns the least room id whose record is free: every record before
  it is active, and the record at the id itself is inactive or lies behind the end of the file.
\<close>

theorem db_next_free_room_id_least:
  assumes "rooms_fd s \<noteq> - 1"
  shows "db_read_room (db_next_free_room_id s) s = None \<and>
    db_next_free_room_id s \<le> length (rooms_of s) \<and>
    (\<forall>j < db_next_free_room_id s. db_read_room j s = Some (rooms_of s ! j))"
  using assms next_free_props [of 0 "rooms_of s"]
  by (auto simp: db_next_free_room_id_def db_read_room_conv)

text \<open>
  A room record that is written reads back unchanged, and no other record of the file changes,
  whatever partial transactions the file held before.
\<close>

theorem db_write_room_read_back:
  assumes "db_ready s" "room_record_ok rec" "i \<le> length (rooms_of s)"
  shows "\<exists>s'. db_write_room i rec s = Some (True, s') \<and> db_read_room_raw i s' = Some rec \<and>
    (\<forall>j. j \<noteq> i \<longrightarrow> db_read_room_raw j s' = db_read_room_raw j s)"
proof -
  let ?f = "overwrite 0 (i * ROOM_RECORD_SIZE) (enc_room rec) (rooms_bin s)"
  from assms(1) have fd: "rooms_fd s \<noteq> - 1" by (simp add: db_ready_def)
  have len: "length (enc_room rec) \<le> ROOM_RECORD_SIZE"
    using room_file.enc_length [OF assms(2)] by simp
  have same: "read_record dec_room ROOM_RECORD_SIZE i ?f = Some rec"
    by (rule room_file.read_write_same [OF assms(2)])
  have other: "read_record dec_room ROOM_RECORD_SIZE j ?f =
      read_record dec_room ROOM_RECORD_SIZE j (rooms_bin s)" if "j \<noteq> i" for j
    by (rule room_file.read_write_other [OF len room_file.records_le [OF assms(3)] that])
  show ?thesis
    using fd same other by (simp add: db_write_room_ready [OF assms(1,2)] db_read_room_raw_def)
qed

section \<open>A small database for the witnesses\<close>

definition example_db :: file_db where
  "example_db = \<lparr>rooms_fd = 3, rooms_bin = [], wal_fd = 4, wal_log = [], wal_pos = 0, users_fd = 5,
     users_bin = [], disk = [], calls = []\<rparr>"

definition example_record :: room_record where
  "example_record = \<lparr>rr_room_id = 0, rr_room_name = ''room'', rr_password = ''pass'', rr_is_active = 1,
     rr_user_count = 0\<rparr>"

lemma example_ready [simp]: "db_ready example_db"
  by (simp add: db_ready_def example_db_def)

lemma example_record_ok [simp]: "room_record_ok example_record"
  by (simp add: room_record_ok_def example_record_def in_i32_def fits_def)

theorem db_next_free_room_id_least_witness:
  "db_read_room (db_next_free_room_id example_db) example_db = None \<and>
    db_next_free_room_id example_db \<le> length (rooms_of example_db)"
proof -
  have "rooms_fd example_db \<noteq> - 1" by (simp add: example_db_def)
  from db_next_free_room_id_least [OF this] show ?thesis by blast
qed

theorem db_write_room_read_back_witness:
  "\<exists>s'. db_write_room 0 example_record example_db = Some (True, s') \<and>
    db_read_room_raw 0 s' = Some example_record \<and>
    (\<forall>j. j \<noteq> 0 \<longrightarrow> db_read_room_raw j s' = db_read_room_raw j example_db)"
  by (rule db_write_room_read_back) simp_all

end
