(* ===== verification/Wal_Log.thy ===== *)
theory Wal_Log
  imports File_Db
begin

text \<open>
  The lines of the write-ahead log of \<open>src/src/server/file_db.c\<close>: what \<open>wal_recover\<close> reads back from the
  lines that \<open>wal_begin\<close>, \<open>wal_commit\<close> and \<open>wal_rollback\<close> print, whole or cut off after some characters.
\<close>

section \<open>Logs of completed transactions\<close>

text \<open>A log of completed transactions.\<close>

type_synonym txn = "nat \<times> room_record option \<times> room_record"

definition log_lines :: "txn list \<Rightarrow> string list" where
  "log_lines txns = concat (map (\<lambda>(i, old, rec). txn_lines i old rec) txns)"

definition line_ok :: "string \<Rightarrow> bool" where
  "line_ok l \<longleftrightarrow> l \<noteq> [] \<and> newline \<notin> set l \<and> nul \<notin> set l"

definition txn_ok :: "txn \<Rightarrow> bool" where
  "txn_ok = (\<lambda>(i, old, rec). in_i32 (int i) \<and> line_ok (old_line old) \<and> line_ok (new_line rec))"

text \<open>
  The records that recovery can restore: name and password are words of \<open>sscanf\<close>, and the line does
  not look like the one for a new record.
\<close>

definition restorable :: "room_record \<Rightarrow> bool" where
  "restorable r \<longleftrightarrow> room_record_ok r \<and> is_word (rr_room_name r) \<and> is_word (rr_password r) \<and>
     \<not> strstr (old_line (Some r)) ''OLD NULL''"

section \<open>Lines\<close>

lemma print_int_chars: "c \<in> set (print_int i) \<Longrightarrow> is_digit c \<or> c = CHR ''-''"
  using print_nat_digits by (auto simp: print_int_def split: if_splits)

lemma print_int_line [simp]: "newline \<notin> set (print_int i)" "nul \<notin> set (print_int i)"
  using print_int_chars [of newline i] print_int_chars [of nul i] by auto

lemma line_kinds [simp]:
  "strncmp_eq (begin_line i) ''BEGIN'' 5"
  "\<not> strncmp_eq (old_line old) ''BEGIN'' 5" "\<not> strncmp_eq (new_line r) ''BEGIN'' 5"
  "\<not> strncmp_eq (commit_line i) ''BEGIN'' 5" "\<not> strncmp_eq (rollback_line i) ''BEGIN'' 5"
  "\<not> strncmp_eq (old_line old) ''COMMIT'' 6" "\<not> strncmp_eq (new_line r) ''COMMIT'' 6"
  "strncmp_eq (commit_line i) ''COMMIT'' 6" "\<not> strncmp_eq (rollback_line i) ''COMMIT'' 6"
  "\<not> strncmp_eq (old_line old) ''ROLLBACK'' 8" "\<not> strncmp_eq (new_line r) ''ROLLBACK'' 8"
  "strncmp_eq (rollback_line i) ''ROLLBACK'' 8"
  "strncmp_eq (old_line old) ''OLD'' 3" "\<not> strncmp_eq (new_line r) ''OLD'' 3"
  "\<not> strncmp_eq (begin_line i) ''OLD'' 3"
  by (simp_all add: strncmp_eq_def begin_line_def old_line_def new_line_def commit_line_def
      rollback_line_def split: option.splits)

lemma line_id_print:
  assumes "in_i32 i"
  shows "arg_int (sscanf [Ws, ConvD] (CHR '' '' # print_int i)) 0 = Some i"
proof -
  have "sscanf [Ws, ConvD] (CHR '' '' # print_int i) = sscanf [ConvD] (print_int i @ [])"
    using skip_ws_print [of i "[]"] by (simp add: skip_ws_blank)
  also have "\<dots> = [ArgInt i]" by (subst sscanf_print_int [OF assms]) simp_all
  finally show ?thesis by (simp add: arg_int_def)
qed

lemma line_id_lines [simp]:
  assumes "in_i32 i"
  shows "line_id ''BEGIN'' (begin_line i) = Some i" "line_id ''COMMIT'' (commit_line i) = Some i"
    "line_id ''ROLLBACK'' (rollback_line i) = Some i"
  using line_id_print [OF assms]
  by (simp_all add: line_id_def begin_line_def commit_line_def rollback_line_def)

lemma line_ok_numbered [simp]:
  "line_ok (begin_line i)" "line_ok (commit_line i)" "line_ok (rollback_line i)"
  by (simp_all add: line_ok_def begin_line_def commit_line_def rollback_line_def)

lemma line_ok_old_None [simp]: "line_ok (old_line None)"
  by (simp add: line_ok_def old_line_def)

lemma is_word_line: "is_word w \<Longrightarrow> newline \<notin> set w \<and> nul \<notin> set w"
  unfolding is_word_def using space_chars(2) by blast

lemma line_ok_record:
  assumes "newline \<notin> set (rr_room_name r) \<and> nul \<notin> set (rr_room_name r)"
    "newline \<notin> set (rr_password r) \<and> nul \<notin> set (rr_password r)"
  shows "line_ok (old_line (Some r))" "line_ok (new_line r)"
  using assms by (simp_all add: line_ok_def old_line_def new_line_def record_text_def)

lemma restorable_line: "restorable r \<Longrightarrow> line_ok (old_line (Some r))"
  by (simp add: restorable_def line_ok_record is_word_line)

text \<open>The lines of a text that ends after the first \<open>n\<close> characters.\<close>

fun cut_lines :: "nat \<Rightarrow> string list \<Rightarrow> string list" where
  "cut_lines n [] = []"
| "cut_lines n (l # ls) =
     (if n = 0 then [] else if n \<le> length l then [take n l] else l # cut_lines (n - Suc (length l)) ls)"

lemma cut_lines_0 [simp]: "cut_lines 0 ls = []"
  by (cases ls) simp_all

lemma cut_lines_all: "length (log_text ls) \<le> n \<Longrightarrow> cut_lines n ls = ls"
  by (induction ls arbitrary: n) auto

lemma length_cut_lines: "length (cut_lines n ls) \<le> length ls"
  by (induction n ls rule: cut_lines.induct) auto

lemma line_ok_take: "line_ok l \<Longrightarrow> 0 < n \<Longrightarrow> line_ok (take n l)"
  by (auto simp: line_ok_def dest: in_set_takeD)

lemma cut_lines_ok: "\<forall>l \<in> set ls. line_ok l \<Longrightarrow> \<forall>l \<in> set (cut_lines n ls). line_ok l"
  by (induction n ls rule: cut_lines.induct) (auto simp: line_ok_take)

lemma tokens_cut:
  assumes "\<forall>l \<in> set ls. line_ok l"
  shows "tokens (\<lambda>c. c = newline) (take n (log_text ls)) = cut_lines n ls"
  using assms
proof (induction n ls rule: cut_lines.induct)
  case (2 n l ls)
  have l: "l \<noteq> []" "\<forall>c \<in> set l. c \<noteq> newline" using 2(2) by (auto simp: line_ok_def)
  show ?case
  proof (cases "n \<le> length l")
    case True
    have "tokens (\<lambda>c. c = newline) (take n l) = [take n l]" if "0 < n"
      using that l tokens_last [of "take n l" "\<lambda>c. c = newline"] by (auto dest: in_set_takeD)
    with True show ?thesis by auto
  next
    case False
    then obtain k where k: "n - length l = Suc k" "k = n - Suc (length l)" by (cases "n - length l") auto
    with False 2 tokens_line [OF l(1) l(2), of newline] show ?thesis by simp
  qed
qed simp

lemma wal_lines:
  assumes "\<forall>l \<in> set ls. line_ok l"
  shows "tokens (\<lambda>c. c = newline) (c_string (take n (log_text ls))) = cut_lines n ls"
proof -
  have "nul \<notin> set (log_text ls)" using assms by (auto simp: log_text_def line_ok_def)
  then have "c_string (take n (log_text ls)) = take n (log_text ls)"
    by (auto simp: c_string_def takeWhile_eq_all_conv dest: in_set_takeD)
  with tokens_cut [OF assms] show ?thesis by simp
qed

section \<open>Restoring a record\<close>

lemma parse_old_line:
  assumes "restorable r"
  shows "parse_old (old_line (Some r)) = r"
proof -
  from assms have ok: "in_i32 (rr_room_id r)" "in_i32 (rr_is_active r)" "in_i32 (rr_user_count r)"
    "is_word (rr_room_name r)" "is_word (rr_password r)"
    "length (rr_room_name r) \<le> 31" "length (rr_password r) \<le> 63"
    by (simp_all add: restorable_def room_record_ok_def fits_def)
  have "sscanf old_format (old_line (Some r)) =
    [ArgInt (rr_room_id r), ArgStr (rr_room_name r), ArgStr (rr_password r),
     ArgInt (rr_is_active r), ArgInt (rr_user_count r)]"
    using ok sscanf_print_int [OF ok(3), of "[]" "[]"] skip_ws_print [of "rr_user_count r" "[]"]
    by (simp add: old_format_def old_line_def record_text_def text_simps del: sscanf.simps(4,5))
  then show ?thesis by (simp add: parse_old_def arg_int_def arg_str_def)
qed

text \<open>The record that \<open>wal_restore_old\<close> writes for a transaction that began with \<open>old\<close>.\<close>

definition restored :: "room_record option \<Rightarrow> room_record" where
  "restored old = (case old of None \<Rightarrow> empty_record | Some r \<Rightarrow> r)"

lemma empty_record_ok [simp]: "room_record_ok empty_record"
  by (simp add: empty_record_def room_record_ok_def fits_def in_i32_def)

lemma restored_ok: "(\<forall>r. old = Some r \<longrightarrow> restorable r) \<Longrightarrow> room_record_ok (restored old)"
  by (cases old) (simp_all add: restored_def restorable_def)

text \<open>The record that \<open>wal_restore_old\<close> reads from an \<open>OLD\<close> line.\<close>

definition read_old :: "string \<Rightarrow> room_record" where
  "read_old l = (if strstr l ''OLD NULL'' then empty_record else parse_old l)"

lemma read_old_restored:
  assumes "\<forall>r. old = Some r \<longrightarrow> restorable r"
  shows "read_old (old_line old) = restored old"
proof (cases old)
  case None
  then show ?thesis by (simp add: read_old_def old_line_def restored_def)
next
  case (Some r)
  with assms show ?thesis by (simp add: read_old_def parse_old_line restored_def) (simp add: restorable_def)
qed

lemma wal_restore_line:
  assumes "strncmp_eq l ''OLD'' 3" "\<not> strncmp_eq l ''BEGIN'' 5" "room_record_ok (read_old l)" "disk s = []"
  shows "wal_restore_old (int i) (begin_line (int i) # l # ls) s =
    Some (s\<lparr>rooms_bin := overwrite 0 (i * ROOM_RECORD_SIZE) (enc_room (read_old l)) (rooms_bin s)\<rparr>)"
proof -
  have "wal_restore_old (int i) (begin_line (int i) # l # ls) s = Some (snd (put_room i (read_old l) s))"
    using assms(1,2) by (simp add: wal_restore_old_def read_old_def)
  with assms(3,4) show ?thesis by (simp add: put_room_full)
qed

lemma wal_restore_old_txn:
  assumes "\<forall>r. old = Some r \<longrightarrow> restorable r" "disk s = []"
  shows "wal_restore_old (int i) (begin_line (int i) # old_line old # ls) s =
    Some (s\<lparr>rooms_bin := overwrite 0 (i * ROOM_RECORD_SIZE) (enc_room (restored old)) (rooms_bin s)\<rparr>)"
  using wal_restore_line [of "old_line old" s i ls] assms(2) by (simp add: read_old_restored [OF assms(1)] restored_ok [OF assms(1)])

section \<open>Scanning the log\<close>

lemma recover_loop_completed:
  assumes "in_i32 (int i)"
  shows "recover_loop (txn_lines i old rec @ ls) s = recover_loop ls s"
  using assms by (simp add: txn_lines_def)

lemma recover_loop_log:
  assumes "\<forall>t \<in> set txns. txn_ok t"
  shows "recover_loop (log_lines txns @ ls) s = recover_loop ls s"
  using assms
proof (induction txns)
  case (Cons t txns)
  obtain i old rec where t: "t = (i, old, rec)" by (cases t)
  with Cons.prems have "in_i32 (int i)" by (simp add: txn_ok_def)
  with Cons t show ?case by (simp add: log_lines_def recover_loop_completed)
qed (simp add: log_lines_def)

lemma log_lines_ok:
  assumes "\<forall>t \<in> set txns. txn_ok t"
  shows "\<forall>l \<in> set (log_lines txns). line_ok l"
  using assms by (auto simp: log_lines_def txn_lines_def txn_ok_def)

lemma length_log_lines: "length (log_lines txns) = 4 * length txns"
  by (induction txns) (auto simp: log_lines_def txn_lines_def)

text \<open>
  Recovery of a log of completed transactions with a tail that may be cut off: the lines of the tail
  decide what happens to the room file, and the log is empty afterwards.
\<close>

lemma cut_lines_append: "cut_lines (length (log_text ls) + n) (ls @ ms) = ls @ cut_lines n ms"
  by (induction ls) auto

lemma wal_load_cut:
  assumes "calls c = []" "wal_log c = log_text ls @ take n (log_text ms)" "wal_log c \<noteq> []" "\<forall>l \<in> set (ls @ ms). line_ok l"
  shows "wal_load c = (Some (take 512 (ls @ cut_lines n ms)), c\<lparr>wal_pos := length (wal_log c)\<rparr>)"
proof -
  have "wal_log c = take (length (log_text ls) + n) (log_text (ls @ ms))" using assms(2) by simp
  then show ?thesis
    using wal_load_full [OF assms(1,3)] wal_lines [OF assms(4), of "length (log_text ls) + n"]
    by (simp add: cut_lines_append)
qed

lemma wal_recover_tail:
  assumes "wal_fd c \<noteq> - 1" "calls c = []" "wal_log c = log_text (log_lines txns) @ take n (log_text tail)"
    "\<forall>t \<in> set txns. txn_ok t" "\<forall>l \<in> set tail. line_ok l" "4 * length txns + length tail \<le> 512"
    "recover_loop (cut_lines n tail) (c\<lparr>wal_pos := length (wal_log c)\<rparr>) =
       Some (c\<lparr>wal_pos := length (wal_log c), rooms_bin := g\<rparr>)"
  shows "wal_recover c = Some (c\<lparr>wal_log := [], wal_pos := 0, rooms_bin := g\<rparr>)"
proof (cases "wal_log c = []")
  case True
  then have "n = 0 \<or> tail = []" using assms(3) by (cases tail) auto
  then have "c\<lparr>wal_pos := 0\<rparr> = c\<lparr>wal_pos := 0, rooms_bin := g\<rparr>" using assms(7) True by auto
  then have "g = rooms_bin c" by (metis file_db.select_convs(2) file_db.surjective file_db.update_convs(2,5))
  with True assms(1) show ?thesis by (simp add: wal_recover_def)
next
  case False
  have "length (log_lines txns @ cut_lines n tail) \<le> 512"
    using assms(6) length_cut_lines [of n tail] by (simp add: length_log_lines)
  then have "wal_load c = (Some (log_lines txns @ cut_lines n tail), c\<lparr>wal_pos := length (wal_log c)\<rparr>)"
    using wal_load_cut [OF assms(2,3) False] log_lines_ok [OF assms(4)] assms(5) by auto
  with False assms(1,2,7) show ?thesis
    by (simp add: wal_recover_def recover_loop_log [OF assms(4)] file_simps)
qed

section \<open>Lines that are cut off\<close>

lemma strncmp_short: "length a < n \<Longrightarrow> n \<le> length b \<Longrightarrow> \<not> strncmp_eq a b n"
  unfolding strncmp_eq_def by (metis length_take min.absorb2 min.strict_order_iff min.commute not_less)

lemma strncmp_hd: "hd a \<noteq> hd b \<Longrightarrow> a \<noteq> [] \<Longrightarrow> b \<noteq> [] \<Longrightarrow> 0 < n \<Longrightarrow> \<not> strncmp_eq a b n"
  unfolding strncmp_eq_def by (metis hd_take)

text \<open>The first digits of a number are a number again, and a smaller one.\<close>

lemma take_print_nat:
  assumes "0 < k"
  shows "\<exists>m \<le> n. take k (print_nat n) = print_nat m \<and> (k < length (print_nat n) \<longrightarrow> m < n)"
proof (induction n rule: print_nat.induct)
  case (1 n)
  show ?case
  proof (cases "n < 10")
    case True
    then have "print_nat n = [digit_char n]" by (simp add: print_nat.simps)
    with assms show ?thesis by (intro exI [of _ n]) simp
  next
    case False
    then have eq: "print_nat n = print_nat (n div 10) @ [digit_char (n mod 10)]" by (subst print_nat.simps) simp
    obtain m where m: "m \<le> n div 10" "take k (print_nat (n div 10)) = print_nat m" using 1 False by blast
    show ?thesis
    proof (cases "k \<le> length (print_nat (n div 10))")
      case True
      have "m < n" using m(1) False by linarith
      with True m(2) eq show ?thesis by (intro exI [of _ m]) simp
    next
      case False
      with eq show ?thesis by (intro exI [of _ n]) simp
    qed
  qed
qed

lemma take_numbered_line:
  assumes "length key < k"
  shows "\<exists>m \<le> i. take k (key @ print_int (int i)) = key @ print_int (int m) \<and> (k < length (key @ print_int (int i)) \<longrightarrow> m < i)"
  using take_print_nat [of "k - length key" i] assms by (auto simp: print_int_def)

lemma cut_begin:
  assumes "n \<noteq> 5" "n \<noteq> 6" "n \<le> length (begin_line (int i))" "in_i32 (int i)"
  shows "recover_loop (cut_lines n (begin_line (int i) # ls)) s = Some s"
proof -
  consider "n < 5" | "length ''BEGIN '' < n" using assms(1,2) by fastforce
  then show ?thesis
  proof cases
    case 1
    have "\<not> strncmp_eq (take n (begin_line (int i))) ''BEGIN'' 5" using 1 by (intro strncmp_short) auto
    with assms(3) show ?thesis by simp
  next
    case 2
    with take_numbered_line [OF 2, of i] obtain m where m: "m \<le> i" "take n (begin_line (int i)) = begin_line (int m)"
      by (auto simp: begin_line_def)
    then have "in_i32 (int m)" using assms(4) by (simp add: in_i32_def)
    with assms(3) m(2) 2 show ?thesis by (auto simp: wal_restore_old_def)
  qed
qed

text \<open>An open transaction whose \<open>OLD\<close> line is there is undone.\<close>

lemma recover_loop_quiet: "\<forall>l \<in> set ls. \<not> strncmp_eq l ''BEGIN'' 5 \<Longrightarrow> recover_loop ls s = Some s"
  by (induction ls) auto

lemma recover_open:
  assumes "strncmp_eq l ''OLD'' 3" "room_record_ok (read_old l)" "disk s = []" "in_i32 (int i)"
    "wal_completed (int i) rest = Some False" "\<forall>l \<in> set rest. \<not> strncmp_eq l ''BEGIN'' 5"
  shows "recover_loop (begin_line (int i) # l # rest) s =
    Some (s\<lparr>rooms_bin := overwrite 0 (i * ROOM_RECORD_SIZE) (enc_room (read_old l)) (rooms_bin s)\<rparr>)"
proof -
  have "take 1 l = ''O''" using arg_cong [OF assms(1) [unfolded strncmp_eq_def], of "take 1"] by simp
  then have hd: "l \<noteq> []" "hd l = CHR ''O''" by (cases l; simp)+
  then have "\<not> strncmp_eq l ''BEGIN'' 5" "\<not> strncmp_eq l ''COMMIT'' 6" "\<not> strncmp_eq l ''ROLLBACK'' 8"
    by (simp_all add: strncmp_hd)
  with assms wal_restore_line [OF assms(1) _ assms(2,3)] show ?thesis by (simp add: recover_loop_quiet)
qed

text \<open>What follows the \<open>OLD\<close> line: only a complete number behind \<open>COMMIT\<close> completes the transaction.\<close>

lemma cut_new:
  assumes "k \<noteq> length (new_line rec) + 7" "k \<noteq> length (new_line rec) + 8" "in_i32 (int i)"
  defines "rest \<equiv> cut_lines k [new_line rec, commit_line (int i)]"
  shows "wal_completed (int i) rest = Some (length (new_line rec) + 1 + length (commit_line (int i)) \<le> k)"
    "\<forall>l \<in> set rest. \<not> strncmp_eq l ''BEGIN'' 5"
proof -
  let ?j = "k - Suc (length (new_line rec))"
  have new: "\<not> strncmp_eq (take k (new_line rec)) b n" if "b \<noteq> []" "hd b \<noteq> CHR ''N''" "0 < n" "0 < k" for b n
    using that by (intro strncmp_hd) (auto simp: new_line_def hd_append)
  have com: "\<not> strncmp_eq (take j (commit_line (int i))) b n" if "b \<noteq> []" "hd b \<noteq> CHR ''C''" "0 < n" "0 < j" for b n j
    using that by (intro strncmp_hd) (auto simp: commit_line_def)
  consider "k \<le> length (new_line rec)" | "Suc (length (new_line rec)) \<le> k" "?j < 6"
    | "Suc (length (new_line rec)) \<le> k" "length ''COMMIT '' < ?j" using assms(1,2) by fastforce
  then have "wal_completed (int i) rest = Some (length (new_line rec) + 1 + length (commit_line (int i)) \<le> k) \<and>
    (\<forall>l \<in> set rest. \<not> strncmp_eq l ''BEGIN'' 5)"
  proof cases
    case 1
    then show ?thesis using new by (auto simp: rest_def)
  next
    case 2
    have "\<not> strncmp_eq (take ?j (commit_line (int i))) ''COMMIT'' 6" using 2 by (intro strncmp_short) auto
    moreover have "6 < length (commit_line (int i))" by (simp add: commit_line_def)
    ultimately show ?thesis using 2 com by (auto simp: rest_def)
  next
    case 3
    obtain m where m: "m \<le> i" "take ?j (commit_line (int i)) = commit_line (int m)"
        "?j < length (commit_line (int i)) \<longrightarrow> m < i"
      using take_numbered_line [OF 3(2), of i] by (auto simp: commit_line_def)
    have i32: "in_i32 (int m)" using assms(3) m(1) by (simp add: in_i32_def)
    have "commit_line (int i) = commit_line (int m)" if "length (commit_line (int i)) \<le> ?j" using that m(2) by simp
    then have "m = i" if "length (commit_line (int i)) \<le> ?j"
      using that line_id_lines(2) [OF assms(3)] line_id_lines(2) [OF i32] by (metis of_nat_eq_iff option.inject)
    with m(3) have i: "m = i \<longleftrightarrow> length (commit_line (int i)) \<le> ?j" by fastforce
    have "rest = [new_line rec, commit_line (int m)]"
    proof (cases "?j \<le> length (commit_line (int i))")
      case True
      with 3 m(2) show ?thesis by (simp add: rest_def)
    next
      case False
      with 3 i show ?thesis by (simp add: rest_def)
    qed
    moreover have "length (commit_line (int i)) \<le> ?j \<longleftrightarrow> length (new_line rec) + 1 + length (commit_line (int i)) \<le> k"
      using 3(1) by linarith
    ultimately show ?thesis using i i32 by auto
  qed
  then show "wal_completed (int i) rest = Some (length (new_line rec) + 1 + length (commit_line (int i)) \<le> k)"
    "\<forall>l \<in> set rest. \<not> strncmp_eq l ''BEGIN'' 5" by blast+
qed

lemma cut_old_begin:
  assumes "k < 3" "in_i32 (int i)"
  shows "recover_loop (begin_line (int i) # cut_lines k (old_line old # ls)) s = Some s"
proof -
  have "k \<le> length (old_line old)" using assms(1) by (simp add: old_line_def split: option.split)
  moreover have "\<not> strncmp_eq (take k (old_line old)) ''BEGIN'' 5" "\<not> strncmp_eq (take k (old_line old)) ''COMMIT'' 6"
    "\<not> strncmp_eq (take k (old_line old)) ''ROLLBACK'' 8" "\<not> strncmp_eq (take k (old_line old)) ''OLD'' 3"
    using assms(1) by (simp_all add: strncmp_short)
  ultimately show ?thesis using assms(2) by (auto simp: wal_restore_old_def)
qed

lemma cut_old_new_record:
  assumes "3 \<le> k" "k \<le> 8" "in_i32 (int i)" "disk s = []"
  shows "recover_loop (begin_line (int i) # cut_lines k (old_line None # ls)) s =
    Some (s\<lparr>rooms_bin := overwrite 0 (i * ROOM_RECORD_SIZE) (enc_room empty_record) (rooms_bin s)\<rparr>)"
proof -
  let ?l = "take k (old_line None)"
  consider "k = 3" | "k = 4" | "k = 5" | "k = 6" | "k = 7" | "k = 8" using assms(1,2) by linarith
  then have "read_old ?l = empty_record"
    by cases (simp_all add: read_old_def old_line_def parse_old_def old_format_def skip_ws_def scan_d_def scan_digits_def
        is_space_def is_digit_def char_code_def arg_int_def arg_str_def empty_record_def)
  moreover have "strncmp_eq ?l ''OLD'' 3" using assms(1) by (simp add: strncmp_eq_def old_line_def)
  ultimately have "recover_loop [begin_line (int i), ?l] s =
      Some (s\<lparr>rooms_bin := overwrite 0 (i * ROOM_RECORD_SIZE) (enc_room empty_record) (rooms_bin s)\<rparr>)"
    using recover_open [of ?l s i "[]"] assms(3,4) by simp
  moreover have "length (old_line None) = 8" by (simp add: old_line_def)
  ultimately show ?thesis using assms(1,2) by simp
qed

text \<open>
  Where the log of a transaction may be cut so that recovery knows the state to go back to: not right
  behind the words \<open>BEGIN\<close> and \<open>COMMIT\<close>, and not inside the \<open>OLD\<close> line of an existing record.
\<close>

abbreviation old_at :: "nat \<Rightarrow> nat" where
  "old_at i \<equiv> Suc (length (begin_line (int i)))"

abbreviation commit_at :: "nat \<Rightarrow> room_record option \<Rightarrow> room_record \<Rightarrow> nat" where
  "commit_at i old rec \<equiv> length (log_text [begin_line (int i), old_line old, new_line rec])"

definition readable_cut :: "nat \<Rightarrow> room_record option \<Rightarrow> room_record \<Rightarrow> nat \<Rightarrow> bool" where
  "readable_cut i old rec n \<longleftrightarrow> n \<notin> {5, 6} \<and>
     (old = None \<or> n < old_at i + 3 \<or> old_at i + length (old_line old) \<le> n) \<and>
     n \<notin> {commit_at i old rec + 6, commit_at i old rec + 7}"

lemma recover_cut:
  assumes "\<forall>r. old = Some r \<longrightarrow> restorable r" "disk s = []" "in_i32 (int i)" "readable_cut i old rec n"
  shows "recover_loop (cut_lines n (txn_lines i old rec)) s =
    Some (if n < old_at i + 3 \<or> commit_at i old rec + length (commit_line (int i)) \<le> n then s
          else s\<lparr>rooms_bin := overwrite 0 (i * ROOM_RECORD_SIZE) (enc_room (restored old)) (rooms_bin s)\<rparr>)"
proof (cases "n \<le> length (begin_line (int i))")
  case True
  with cut_begin [of n i "[old_line old, new_line rec, commit_line (int i)]" s] assms(3,4) show ?thesis
    by (simp add: readable_cut_def txn_lines_def)
next
  case False
  let ?k = "n - old_at i"
  have old3: "3 < length (old_line old)" by (simp add: old_line_def split: option.split)
  have cut: "cut_lines n (txn_lines i old rec) = begin_line (int i) # cut_lines ?k [old_line old, new_line rec, commit_line (int i)]"
    using False by (simp add: txn_lines_def)
  consider "?k < 3" | "3 \<le> ?k" "?k < length (old_line old)" | "length (old_line old) \<le> ?k" by linarith
  then show ?thesis
  proof cases
    case 1
    with cut False cut_old_begin [OF 1 assms(3)] show ?thesis by auto
  next
    case 2
    with assms(4) False have old: "old = None" by (auto simp: readable_cut_def)
    with 2 have "?k \<le> 8" by (simp add: old_line_def)
    with 2 old cut False cut_old_new_record [OF 2(1) _ assms(3,2)] show ?thesis by (auto simp: restored_def)
  next
    case 3
    let ?j = "?k - Suc (length (old_line old))"
    let ?rest = "if ?k = length (old_line old) then [] else cut_lines ?j [new_line rec, commit_line (int i)]"
    have lines: "cut_lines n (txn_lines i old rec) = begin_line (int i) # old_line old # ?rest"
      using cut 3 old3 by auto
    have j: "?j \<noteq> length (new_line rec) + 7" "?j \<noteq> length (new_line rec) + 8"
      using assms(4) False 3 by (auto simp: readable_cut_def)
    have fin: "commit_at i old rec + length (commit_line (int i)) \<le> n \<longleftrightarrow>
        ?k \<noteq> length (old_line old) \<and> length (new_line rec) + 1 + length (commit_line (int i)) \<le> ?j"
      using 3 False by auto
    have rest: "wal_completed (int i) ?rest = Some (commit_at i old rec + length (commit_line (int i)) \<le> n)"
      "\<forall>l \<in> set ?rest. \<not> strncmp_eq l ''BEGIN'' 5"
      using cut_new [OF j assms(3)] unfolding fin by auto
    show ?thesis
    proof (cases "commit_at i old rec + length (commit_line (int i)) \<le> n")
      case True
      have "recover_loop (old_line old # ?rest) s = Some s" using rest(2) by (simp add: recover_loop_quiet)
      with True rest(1) lines assms(3) show ?thesis by simp
    next
      case cut: False
      then have "recover_loop (begin_line (int i) # old_line old # ?rest) s =
          Some (s\<lparr>rooms_bin := overwrite 0 (i * ROOM_RECORD_SIZE) (enc_room (restored old)) (rooms_bin s)\<rparr>)"
        using rest cut recover_open [of "old_line old" s i ?rest] read_old_restored [OF assms(1)] restored_ok [OF assms(1)] assms(2,3)
        by simp
      moreover have "\<not> n < old_at i + 3" using 3 old3 by linarith
      ultimately show ?thesis using cut lines by simp
    qed
  qed
qed

end
