(* ===== verification/Wal_Recovery.thy ===== *)
theory Wal_Recovery
  imports Wal_Log
begin

text \<open>
  Crash safety of the write-ahead log of \<open>src/src/server/file_db.c\<close>: what \<open>wal_recover\<close> does to the
  room file after the process died at any point of \<open>db_write_room\<close>, inside a line of the log or inside
  the record included; what the rollback of a failed write does; and the crash points and records for
  which recovery and rollback do not restore the old record.
\<close>

section \<open>Crash points\<close>

text \<open>
  Where the process can die inside \<open>db_write_room\<close>: after \<open>n\<close> characters of the three lines that
  \<open>wal_begin\<close> writes, after \<open>n\<close> bytes of the record, or after \<open>n\<close> characters of the line of
  \<open>wal_commit\<close>; and the files it leaves behind.
\<close>

datatype crash_point = In_Log nat | In_Record nat | In_Commit nat

definition db_write_crash :: "nat \<Rightarrow> room_record \<Rightarrow> crash_point \<Rightarrow> file_db \<Rightarrow> file_db" where
  "db_write_crash i rec pt s =
     (let old = db_read_room_raw i s; s1 = wal_begin (int i) old rec s
      in case pt of
           In_Log n \<Rightarrow> wal_write (take n (log_text [begin_line (int i), old_line old, new_line rec])) s
         | In_Record n \<Rightarrow>
             s1\<lparr>rooms_bin := overwrite 0 (i * ROOM_RECORD_SIZE) (take n (enc_room rec)) (rooms_bin s1)\<rparr>
         | In_Commit n \<Rightarrow> wal_write (take n (commit_line (int i) @ [newline])) (snd (put_room i rec s1)))"

text \<open>The number of characters of the log and of bytes of the record that were written.\<close>

definition log_cut :: "nat \<Rightarrow> room_record option \<Rightarrow> room_record \<Rightarrow> crash_point \<Rightarrow> nat" where
  "log_cut i old rec pt =
     (case pt of In_Log n \<Rightarrow> min n (commit_at i old rec) | In_Record _ \<Rightarrow> commit_at i old rec
      | In_Commit n \<Rightarrow> commit_at i old rec + n)"

definition record_cut :: "crash_point \<Rightarrow> nat" where
  "record_cut pt = (case pt of In_Log _ \<Rightarrow> 0 | In_Record n \<Rightarrow> n | In_Commit _ \<Rightarrow> ROOM_RECORD_SIZE)"

definition commit_written :: "nat \<Rightarrow> crash_point \<Rightarrow> bool" where
  "commit_written i pt \<longleftrightarrow> (case pt of In_Commit n \<Rightarrow> length (commit_line (int i)) \<le> n | _ \<Rightarrow> False)"

text \<open>
  The crash points at which the log tells recovery what to do: not right behind the words \<open>BEGIN\<close> and
  \<open>COMMIT\<close>, where the number is missing, and not inside the \<open>OLD\<close> line of an existing record.
\<close>

definition readable_crash :: "nat \<Rightarrow> room_record option \<Rightarrow> crash_point \<Rightarrow> bool" where
  "readable_crash i old pt \<longleftrightarrow>
     (case pt of
        In_Log n \<Rightarrow> n \<notin> {5, 6} \<and> (old = None \<or> n < old_at i + 3 \<or> old_at i + length (old_line old) \<le> n)
      | In_Record _ \<Rightarrow> True
      | In_Commit n \<Rightarrow> n \<notin> {6, 7})"

lemma begin_line_long: "7 \<le> length (begin_line (int i))"
  using print_int_hd [of "int i"] by (auto simp: begin_line_def)

lemma crash_facts:
  assumes "readable_crash i old pt"
  shows "readable_cut i old rec (log_cut i old rec pt)"
    "commit_at i old rec + length (commit_line (int i)) \<le> log_cut i old rec pt \<longleftrightarrow> commit_written i pt"
    "log_cut i old rec pt < old_at i + 3 \<Longrightarrow> record_cut pt = 0"
proof -
  have long: "old_at i + length (old_line old) < commit_at i old rec" "7 < commit_at i old rec"
    "3 < length (old_line old)" "6 < length (commit_line (int i))"
    using begin_line_long [of i] by (auto simp: commit_line_def old_line_def split: option.split)
  show "readable_cut i old rec (log_cut i old rec pt)"
    using assms long by (cases pt) (auto simp: readable_crash_def readable_cut_def log_cut_def min_def)
  show "commit_at i old rec + length (commit_line (int i)) \<le> log_cut i old rec pt \<longleftrightarrow> commit_written i pt"
    using long(4) by (cases pt) (auto simp: log_cut_def commit_written_def min_def)
  show "record_cut pt = 0" if "log_cut i old rec pt < old_at i + 3"
    using that long by (cases pt) (auto simp: log_cut_def record_cut_def)
qed

lemma take_txn_text:
  "take n (log_text [begin_line (int i), old_line old, new_line rec]) = take (min n (commit_at i old rec)) (log_text (txn_lines i old rec))"
  "take (commit_at i old rec + n) (log_text (txn_lines i old rec)) =
    log_text [begin_line (int i), old_line old, new_line rec] @ take n (commit_line (int i) @ [newline])"
proof -
  have txn: "log_text (txn_lines i old rec) = log_text [begin_line (int i), old_line old, new_line rec] @ commit_line (int i) @ [newline]"
    by (simp add: txn_lines_def)
  show "take n (log_text [begin_line (int i), old_line old, new_line rec]) = take (min n (commit_at i old rec)) (log_text (txn_lines i old rec))"
    unfolding txn by (simp only: take_append take_take min.left_idem) (simp add: min_def)
  show "take (commit_at i old rec + n) (log_text (txn_lines i old rec)) =
    log_text [begin_line (int i), old_line old, new_line rec] @ take n (commit_line (int i) @ [newline])"
    unfolding txn by (simp only: take_append) simp
qed

lemma crash_state:
  fixes i pt
  assumes "db_ready s" "room_record_ok rec"
  defines "old \<equiv> db_read_room_raw i s"
  obtains p where "db_write_crash i rec pt s =
    s\<lparr>wal_log := wal_log s @ take (log_cut i old rec pt) (log_text (txn_lines i old rec)), wal_pos := p,
      rooms_bin := overwrite 0 (i * ROOM_RECORD_SIZE) (take (record_cut pt) (enc_room rec)) (rooms_bin s)\<rparr>"
proof -
  have ready: "wal_fd s \<noteq> - 1" "disk s = []" "wal_pos s = length (wal_log s)" using assms(1) by (simp_all add: db_ready_def)
  have start: "wal_begin (int i) old rec s =
      s\<lparr>wal_log := wal_log s @ log_text [begin_line (int i), old_line old, new_line rec],
        wal_pos := length (wal_log s) + commit_at i old rec\<rparr>"
    using ready by (simp add: wal_begin_def file_simps)
  have len: "length (enc_room rec) = ROOM_RECORD_SIZE" by (rule room_file.enc_length [OF assms(2)])
  show thesis
  proof (cases pt)
    case (In_Log n)
    show ?thesis
      using that [of "wal_pos (db_write_crash i rec pt s)"] In_Log ready take_txn_text(1) [of n i old rec]
      by (simp add: db_write_crash_def Let_def log_cut_def record_cut_def file_simps overwrite_def old_def [symmetric])
  next
    case (In_Record n)
    show ?thesis
      using that [of "wal_pos (db_write_crash i rec pt s)"] In_Record start take_txn_text(2) [of i old rec 0]
      by (simp add: db_write_crash_def Let_def log_cut_def record_cut_def old_def [symmetric])
  next
    case (In_Commit n)
    show ?thesis
      using that [of "wal_pos (db_write_crash i rec pt s)"] In_Commit start ready len take_txn_text(2) [of i old rec n]
      by (simp add: db_write_crash_def Let_def log_cut_def record_cut_def file_simps assms(2) old_def [symmetric])
  qed
qed

text \<open>The last crash point is the end of the function: the files are those of the successful call.\<close>

lemma crash_at_end:
  assumes "db_ready s" "room_record_ok rec"
  shows "db_write_room i rec s = Some (True, db_write_crash i rec (In_Commit (length (commit_line (int i)) + 1)) s)"
  using assms by (simp add: db_write_room_def db_write_crash_def Let_def wal_commit_def db_ready_def put_room_full wal_begin_def file_simps)

section \<open>Atomicity\<close>

lemma read_after_restore:
  assumes "room_record_ok r" "length bs \<le> ROOM_RECORD_SIZE" "i * ROOM_RECORD_SIZE \<le> length f"
  shows "read_record dec_room ROOM_RECORD_SIZE j
      (overwrite 0 (i * ROOM_RECORD_SIZE) (enc_room r) (overwrite 0 (i * ROOM_RECORD_SIZE) bs f)) =
    (if j = i then Some r else read_record dec_room ROOM_RECORD_SIZE j f)"
proof (cases "j = i")
  case True
  then show ?thesis by (simp add: room_file.read_write_same [OF assms(1)])
next
  case False
  have "i * ROOM_RECORD_SIZE \<le> length (overwrite 0 (i * ROOM_RECORD_SIZE) bs f)"
    using assms(3) by auto
  with False show ?thesis
    using room_file.read_write_other [of "enc_room r" i "overwrite 0 (i * ROOM_RECORD_SIZE) bs f" j]
      room_file.read_write_other [OF assms(2,3) False] room_file.enc_length [OF assms(1)]
    by simp
qed

lemma take_enc_room: "room_record_ok r \<Longrightarrow> length (take n (enc_room r)) \<le> ROOM_RECORD_SIZE"
  using room_file.enc_length [of r] by simp

lemma db_read_room_restored:
  "rooms_fd s \<noteq> - 1 \<Longrightarrow>
    (case Some (restored (db_read_room_raw i s)) of None \<Rightarrow> None
     | Some rec \<Rightarrow> if rr_is_active rec = 0 then None else Some rec) = db_read_room i s"
  by (simp add: restored_def db_read_room_raw_def db_read_room_def empty_record_def split: option.splits)

lemma recover_crash:
  assumes ready: "db_ready s"
    and log: "wal_log s = log_text (log_lines txns)" "\<forall>t \<in> set txns. txn_ok t" "length txns < 128"
    and rec: "room_record_ok rec" "line_ok (new_line rec)"
    and old: "\<forall>r. db_read_room_raw i s = Some r \<longrightarrow> restorable r"
    and i: "i * ROOM_RECORD_SIZE \<le> length (rooms_bin s)" "in_i32 (int i)"
    and crash: "readable_crash i (db_read_room_raw i s) pt"
  shows "\<exists>s'. wal_recover (db_write_crash i rec pt s) = Some s' \<and> wal_log s' = [] \<and> rooms_fd s' = rooms_fd s \<and>
    (\<forall>j. read_record dec_room ROOM_RECORD_SIZE j (rooms_bin s') =
      (if j = i \<and> commit_written i pt then Some rec
       else if j = i \<and> old_at i + 3 \<le> log_cut i (db_read_room_raw i s) rec pt then Some (restored (db_read_room_raw i s))
       else read_record dec_room ROOM_RECORD_SIZE j (rooms_bin s)))"
proof -
  let ?old = "db_read_room_raw i s" let ?off = "i * ROOM_RECORD_SIZE"
  let ?n = "log_cut i ?old rec pt"
  have fd: "wal_fd s \<noteq> - 1" "disk s = []" "calls s = []" using ready by (simp_all add: db_ready_def)
  note at = crash_facts [OF crash, of rec]
  let ?f = "overwrite 0 ?off (take (record_cut pt) (enc_room rec)) (rooms_bin s)"
  let ?g = "if ?n < old_at i + 3 \<or> commit_written i pt then ?f else overwrite 0 ?off (enc_room (restored ?old)) ?f"
  obtain p where c: "db_write_crash i rec pt s =
      s\<lparr>wal_log := log_text (log_lines txns) @ take ?n (log_text (txn_lines i ?old rec)), wal_pos := p, rooms_bin := ?f\<rparr>"
    using crash_state [OF ready rec(1), of i pt] log(1) by metis
  have tail: "\<forall>l \<in> set (txn_lines i ?old rec). line_ok l" "length (txn_lines i ?old rec) = 4"
    using rec(2) old restorable_line by (cases ?old; auto simp: txn_lines_def)+
  have "wal_recover (db_write_crash i rec pt s) = Some ((db_write_crash i rec pt s)\<lparr>wal_log := [], wal_pos := 0, rooms_bin := ?g\<rparr>)"
    unfolding c using fd tail log(2,3) recover_cut [OF old _ i(2) at(1)] unfolding at(2)
    by (intro wal_recover_tail [where txns = txns and n = ?n and tail = "txn_lines i ?old rec"]) auto
  moreover have "read_record dec_room ROOM_RECORD_SIZE j ?g =
      (if j = i \<and> commit_written i pt then Some rec
       else if j = i \<and> old_at i + 3 \<le> ?n then Some (restored ?old)
       else read_record dec_room ROOM_RECORD_SIZE j (rooms_bin s))" for j
  proof (cases "commit_written i pt")
    case True
    then have "record_cut pt = ROOM_RECORD_SIZE" by (auto simp: commit_written_def record_cut_def split: crash_point.splits)
    then have "take (record_cut pt) (enc_room rec) = enc_room rec" using room_file.enc_length [OF rec(1)] by simp
    with True read_after_restore [OF rec(1) _ i(1), of "[]" j] show ?thesis by (simp add: overwrite_def)
  next
    case undone: False
    show ?thesis
    proof (cases "?n < old_at i + 3")
      case True
      with at(3) have "?f = rooms_bin s" by (simp add: overwrite_def)
      with True undone show ?thesis by simp
    next
      case False
      with undone read_after_restore [OF restored_ok [OF old] take_enc_room [OF rec(1)] i(1), of j "record_cut pt"] show ?thesis by simp
    qed
  qed
  ultimately show ?thesis by (simp add: c)
qed

text \<open>
  C8: writing a room record is atomic under a crash of the process, when the log can describe the old
  record. The process dies at any character of the log or byte of the record inside \<open>db_write_room\<close>,
  except right behind the words \<open>BEGIN\<close> and \<open>COMMIT\<close> and inside the \<open>OLD\<close> line of an existing record
  (\<open>readable_crash\<close>); the record that the room had before, if any, has a non-empty name and password
  without white space (\<open>restorable\<close>); and the log holds fewer than 128 transactions, all complete.
  Then \<open>wal_recover\<close> at the next start succeeds, empties the log, leaves every other room alone, and the
  room reads as the new record if the \<open>COMMIT\<close> line was written and as before otherwise.
\<close>

theorem crash_recovery_atomic:
  assumes "db_ready s"
    and "wal_log s = log_text (log_lines txns)" "\<forall>t \<in> set txns. txn_ok t" "length txns < 128"
    and "room_record_ok rec" "line_ok (new_line rec)"
    and "\<forall>r. db_read_room_raw i s = Some r \<longrightarrow> restorable r"
    and "i \<le> length (rooms_of s)" "in_i32 (int i)"
    and "readable_crash i (db_read_room_raw i s) pt"
  shows "\<exists>s'. wal_recover (db_write_crash i rec pt s) = Some s' \<and> wal_log s' = [] \<and>
    db_read_room i s' =
      (if commit_written i pt then (if rr_is_active rec = 0 then None else Some rec) else db_read_room i s) \<and>
    (\<forall>j. j \<noteq> i \<longrightarrow> db_read_room j s' = db_read_room j s)"
proof -
  obtain s' where s': "wal_recover (db_write_crash i rec pt s) = Some s'" "wal_log s' = []" "rooms_fd s' = rooms_fd s"
    "\<forall>j. read_record dec_room ROOM_RECORD_SIZE j (rooms_bin s') =
      (if j = i \<and> commit_written i pt then Some rec
       else if j = i \<and> old_at i + 3 \<le> log_cut i (db_read_room_raw i s) rec pt then Some (restored (db_read_room_raw i s))
       else read_record dec_room ROOM_RECORD_SIZE j (rooms_bin s))"
    using recover_crash [OF assms(1-7) room_file.records_le [OF assms(8)] assms(9,10)] by blast
  have "rooms_fd s \<noteq> - 1" using assms(1) by (simp add: db_ready_def)
  with s' db_read_room_restored [of s i] show ?thesis by (auto simp: db_read_room_def)
qed

section \<open>A failed write and its rollback\<close>

lemma wal_write_accepted [file_simps]:
  assumes "wal_fd s \<noteq> - 1" "disk s = k # ks" "length buf \<le> k" "wal_pos s = length (wal_log s)"
  shows "wal_write buf s =
    s\<lparr>wal_log := wal_log s @ buf, wal_pos := length (wal_log s) + length buf, disk := ks\<rparr>"
  using assms by (simp add: wal_write_def sys_write_def file_simps min_def)

text \<open>The record that the first transaction of the log on record \<open>i\<close> started from.\<close>

fun first_old :: "nat \<Rightarrow> txn list \<Rightarrow> room_record option \<Rightarrow> room_record option" where
  "first_old i [] old = old"
| "first_old i ((j, old', rec) # txns) old = (if j = i then old' else first_old i txns old)"

lemma find_begin_log:
  assumes "\<forall>t \<in> set txns. txn_ok t" "in_i32 (int i)"
  shows "\<exists>ls. find_begin (int i) (log_lines txns @ begin_line (int i) # old_line old # tail) =
    Some (Some (begin_line (int i) # old_line (first_old i txns old) # ls))"
  using assms(1)
proof (induction txns)
  case Nil
  with assms(2) show ?case by (simp add: log_lines_def)
next
  case (Cons t txns)
  obtain j old' rec where t: "t = (j, old', rec)" by (cases t)
  with Cons.prems have "in_i32 (int j)" by (simp add: txn_ok_def)
  with Cons t show ?case by (simp add: log_lines_def txn_lines_def)
qed

text \<open>The state when the write of the record accepts only \<open>n\<close> bytes: the rollback follows.\<close>

definition write_fails :: "nat \<Rightarrow> file_db \<Rightarrow> bool" where
  "write_fails n s \<longleftrightarrow> rooms_fd s \<noteq> - 1 \<and> wal_fd s \<noteq> - 1 \<and> calls s = [] \<and> n < ROOM_RECORD_SIZE \<and>
     wal_pos s = length (wal_log s) \<and>
     (\<exists>a b c. disk s = [a, b, c, n] \<and> 512 \<le> a \<and> 512 \<le> b \<and> 512 \<le> c)"

text \<open>No line of the log is longer than the 512 characters of the buffers it is printed into.\<close>

lemma record_text_fits: "room_record_ok r \<Longrightarrow> length (record_text r) \<le> 131"
  using length_print_int [of "rr_room_id r"] length_print_int [of "rr_is_active r"]
    length_print_int [of "rr_user_count r"]
  by (simp add: record_text_def room_record_ok_def fits_def)

lemma wal_line_fits:
  "in_i32 i \<Longrightarrow> length (begin_line i) < 511"
  "room_record_ok r \<Longrightarrow> length (new_line r) < 511"
  "\<forall>r. old = Some r \<longrightarrow> room_record_ok r \<Longrightarrow> length (old_line old) < 511"
  using length_print_int [of i] record_text_fits
  by (fastforce simp: begin_line_def new_line_def old_line_def split: option.splits)+

lemma wal_begin_accepted:
  assumes "wal_fd s \<noteq> - 1" "wal_pos s = length (wal_log s)" "disk s = a # b # c # ks"
    "length (begin_line i) < a" "length (old_line old) < b" "length (new_line rec) < c"
  shows "wal_begin i old rec s =
    s\<lparr>wal_log := wal_log s @ log_text [begin_line i, old_line old, new_line rec],
      wal_pos := length (wal_log s @ log_text [begin_line i, old_line old, new_line rec]), disk := ks\<rparr>"
  unfolding wal_begin_def using assms
  by (simp add: wal_write_accepted [where k = a and ks = "b # c # ks"]
      wal_write_accepted [where k = b and ks = "c # ks"] wal_write_accepted [where k = c and ks = ks])

lemma db_write_room_fails:
  assumes fails: "write_fails n s"
    and log: "wal_log s = log_text (log_lines txns)" "\<forall>t \<in> set txns. txn_ok t" "length txns < 128"
    and rec: "room_record_ok rec" "line_ok (new_line rec)"
    and old: "\<forall>r. db_read_room_raw i s = Some r \<longrightarrow> restorable r"
    and first: "\<forall>r. first_old i txns (db_read_room_raw i s) = Some r \<longrightarrow> restorable r"
    and i: "in_i32 (int i)"
  shows "\<exists>s'. db_write_room i rec s = Some (False, s') \<and> rooms_fd s' = rooms_fd s \<and>
    rooms_bin s' = overwrite 0 (i * ROOM_RECORD_SIZE)
      (enc_room (restored (first_old i txns (db_read_room_raw i s))))
      (overwrite 0 (i * ROOM_RECORD_SIZE) (take n (enc_room rec)) (rooms_bin s))"
proof -
  let ?old = "db_read_room_raw i s"
  let ?tail = "[begin_line (int i), old_line ?old, new_line rec, rollback_line (int i)]"
  let ?f = "overwrite 0 (i * ROOM_RECORD_SIZE) (take n (enc_room rec)) (rooms_bin s)"
  have old_ok: "line_ok (old_line ?old)" "\<forall>r. ?old = Some r \<longrightarrow> room_record_ok r"
    using old restorable_line by (cases ?old; simp add: restorable_def)+
  obtain a b c where d: "disk s = [a, b, c, n]" "512 \<le> a" "512 \<le> b" "512 \<le> c"
    using fails by (auto simp: write_fails_def)
  note fits = wal_line_fits(1) [OF i] wal_line_fits(2) [OF rec(1)] wal_line_fits(3) [OF old_ok(2)]
  define s1 where "s1 = s\<lparr>wal_log := log_text (log_lines txns @ butlast ?tail),
    wal_pos := length (log_text (log_lines txns @ butlast ?tail)), disk := [], rooms_bin := ?f\<rparr>"
  have "put_room i rec (wal_begin (int i) ?old rec s) = (n, s1)"
    using fails d fits log(1) wal_begin_accepted [OF _ _ d(1)]
    by (simp add: write_fails_def put_room_def sys_write_def s1_def)
  then have "db_write_room i rec s = map_option (Pair False) (wal_rollback (int i) s1)"
    using fails by (simp add: db_write_room_def write_fails_def)
  moreover define s2 where "s2 = s1\<lparr>wal_log := log_text (log_lines txns @ ?tail),
    wal_pos := length (log_text (log_lines txns @ ?tail))\<rparr>"
  moreover have "wal_write (rollback_line (int i) @ [newline]) s1 = s2"
    using fails by (simp add: s1_def s2_def write_fails_def file_simps)
  moreover have "wal_load s2 = (Some (log_lines txns @ ?tail), s2)"
  proof -
    have "calls s2 = []" "wal_log s2 = log_text (log_lines txns @ ?tail) @ take 0 (log_text [])" "wal_log s2 \<noteq> []"
      "s2\<lparr>wal_pos := length (wal_log s2)\<rparr> = s2"
      using fails by (simp_all add: s2_def s1_def write_fails_def)
    moreover have "\<forall>l \<in> set ((log_lines txns @ ?tail) @ []). line_ok l" using old_ok rec(2) log_lines_ok [OF log(2)] by auto
    moreover have "length (log_lines txns @ ?tail) \<le> 512" using log(3) by (simp add: length_log_lines)
    ultimately show ?thesis using wal_load_cut [of s2 "log_lines txns @ ?tail" 0 "[]"] by simp
  qed
  moreover obtain ls where "find_begin (int i) (log_lines txns @ ?tail) =
      Some (Some (begin_line (int i) # old_line (first_old i txns ?old) # ls))"
    using find_begin_log [OF log(2) i] by blast
  moreover have "wal_restore_old (int i) (begin_line (int i) # old_line (first_old i txns ?old) # ls) s2 =
      Some (s2\<lparr>rooms_bin := overwrite 0 (i * ROOM_RECORD_SIZE)
        (enc_room (restored (first_old i txns ?old))) ?f\<rparr>)"
    using wal_restore_old_txn [OF first, of s2 i ls] by (simp add: s2_def s1_def)
  moreover have "wal_fd s2 \<noteq> - 1" using fails by (simp add: s2_def s1_def write_fails_def)
  ultimately show ?thesis by (auto simp: wal_rollback_def s2_def s1_def)
qed

lemma db_read_room_after_failure:
  assumes "write_fails n s" "wal_log s = log_text (log_lines txns)" "\<forall>t \<in> set txns. txn_ok t"
    "length txns < 128" "room_record_ok rec" "line_ok (new_line rec)"
    "\<forall>r. db_read_room_raw i s = Some r \<longrightarrow> restorable r"
    "\<forall>r. first_old i txns (db_read_room_raw i s) = Some r \<longrightarrow> restorable r"
    "i \<le> length (rooms_of s)" "in_i32 (int i)"
  shows "\<exists>s'. db_write_room i rec s = Some (False, s') \<and>
    (\<forall>j. db_read_room j s' =
      (if j = i then (let r = restored (first_old i txns (db_read_room_raw i s))
                      in if rr_is_active r = 0 then None else Some r)
       else db_read_room j s))"
proof -
  obtain s' where s': "db_write_room i rec s = Some (False, s')" "rooms_fd s' = rooms_fd s"
    "rooms_bin s' = overwrite 0 (i * ROOM_RECORD_SIZE)
      (enc_room (restored (first_old i txns (db_read_room_raw i s))))
      (overwrite 0 (i * ROOM_RECORD_SIZE) (take n (enc_room rec)) (rooms_bin s))"
    using db_write_room_fails [OF assms(1-8,10)] by blast
  moreover have "rooms_fd s \<noteq> - 1" using assms(1) by (simp add: write_fails_def)
  ultimately show ?thesis
    using read_after_restore [OF restored_ok [OF assms(8)] take_enc_room [OF assms(5)]
        room_file.records_le [OF assms(9)]]
    by (simp add: db_read_room_def Let_def)
qed

lemma failed_write_undone:
  assumes "write_fails n s" "wal_log s = log_text (log_lines txns)" "\<forall>t \<in> set txns. txn_ok t"
    "length txns < 128" "room_record_ok rec" "line_ok (new_line rec)"
    "\<forall>r. db_read_room_raw i s = Some r \<longrightarrow> restorable r" "i \<notin> fst ` set txns"
    "i \<le> length (rooms_of s)" "in_i32 (int i)"
  shows "\<exists>s'. db_write_room i rec s = Some (False, s') \<and> (\<forall>j. db_read_room j s' = db_read_room j s)"
proof -
  have "first_old i txns old = old" for old
    using assms(8) by (induction i txns old rule: first_old.induct) auto
  moreover have "rooms_fd s \<noteq> - 1" using assms(1) by (simp add: write_fails_def)
  ultimately show ?thesis
    using db_read_room_after_failure [OF assms(1-7) _ assms(9,10)] assms(7)
      db_read_room_restored [of s i] by (auto simp: Let_def)
qed


text \<open>
  C38: when the log already holds a transaction on the same room, the rollback of a failed write
  goes back to the state before the first of them, not to the state before the failed write:
  \<open>wal_rollback\<close> takes the first \<open>BEGIN\<close> of the room id. A room whose creation is still in the log
  is deleted by a failed update.
\<close>

theorem failed_write_restores_first_transaction:
  assumes "write_fails n s" "wal_log s = log_text (log_lines ((i, old, r) # txns))"
    "\<forall>t \<in> set ((i, old, r) # txns). txn_ok t"
    "length txns < 127" "room_record_ok rec" "line_ok (new_line rec)"
    "\<forall>r. db_read_room_raw i s = Some r \<longrightarrow> restorable r" "\<forall>r. old = Some r \<longrightarrow> restorable r"
    "i \<le> length (rooms_of s)" "in_i32 (int i)"
  shows "\<exists>s'. db_write_room i rec s = Some (False, s') \<and>
    db_read_room i s' =
      (case old of None \<Rightarrow> None | Some r \<Rightarrow> if rr_is_active r = 0 then None else Some r)"
proof -
  have "(let q = restored old in if rr_is_active q = 0 then None else Some q) =
      (case old of None \<Rightarrow> None | Some r \<Rightarrow> if rr_is_active r = 0 then None else Some r)"
    by (simp add: restored_def empty_record_def split: option.splits)
  then show ?thesis
    using db_read_room_after_failure [OF assms(1-3) _ assms(5-7) _ assms(9,10)] assms(4,8) by auto
qed

section \<open>Where recovery does not restore\<close>

text \<open>
  The line of an open room does not look like the one for a new record: the only blank in it that a
  letter follows stands behind a number.
\<close>

lemma strstr_word:
  assumes "CHR '' '' \<notin> set w" "t \<noteq> []"
  shows "strstr (w @ CHR '' '' # t) ''D N'' \<longleftrightarrow> w \<noteq> [] \<and> last w = CHR ''D'' \<and> hd t = CHR ''N'' \<or> strstr t ''D N''"
  using assms
proof (induction w)
  case (Cons c w)
  obtain d u where t: "t = d # u" using assms(2) by (cases t) auto
  show ?case
  proof (cases w)
    case Nil
    with t show ?thesis by auto
  next
    case (Cons e v)
    with Cons.IH Cons.prems t show ?thesis by (cases v) auto
  qed
qed (cases t; simp)

lemma strstr_no_blank: "CHR '' '' \<notin> set w \<Longrightarrow> \<not> strstr w ''D N''"
  by (induction w) (auto simp: prefix_def)

lemma strstr_part: "strstr l (p @ q @ r) \<Longrightarrow> strstr l q"
proof (induction l)
  case (Cons x l)
  show ?case
  proof (cases "prefix (p @ q @ r) (x # l)")
    case True
    then obtain z where "x # l = p @ q @ r @ z" by (auto simp: prefix_def)
    moreover have "strstr (p @ q @ y) q" for y
      by (induction p) (cases q; cases y; auto simp: prefix_def)+
    ultimately show ?thesis by simp
  next
    case False
    with Cons show ?thesis by simp
  qed
qed simp

lemma print_int_ends: "print_int i \<noteq> []" "CHR '' '' \<notin> set (print_int i)" "last (print_int i) \<noteq> CHR ''D''"
  "hd (print_int i @ t) \<noteq> CHR ''N''"
proof -
  show ne: "print_int i \<noteq> []" using print_int_hd [of i] by auto
  have c: "is_digit c \<or> c = CHR ''-''" if "c \<in> set (print_int i)" for c by (rule print_int_chars [OF that])
  have nd: "\<not> is_digit CHR ''D''" "\<not> is_digit CHR ''N''" by (simp_all add: is_digit_def char_code_def)
  show "CHR '' '' \<notin> set (print_int i)" using c [of "CHR '' ''"] by auto
  show "last (print_int i) \<noteq> CHR ''D''" using c [OF last_in_set [OF ne]] nd by auto
  show "hd (print_int i @ t) \<noteq> CHR ''N''" using c [OF hd_in_set [OF ne]] nd ne by auto
qed

lemma open_room_line:
  assumes "is_word (rr_room_name r)" "rr_password r = []"
  shows "\<not> strstr (old_line (Some r)) ''OLD NULL''"
proof
  assume line: "strstr (old_line (Some r)) ''OLD NULL''"
  let ?t3 = "print_int (rr_is_active r) @ CHR '' '' # print_int (rr_user_count r)"
  let ?t2 = "rr_room_name r @ CHR '' '' # ([] @ CHR '' '' # ?t3)"
  let ?t1 = "print_int (rr_room_id r) @ CHR '' '' # ?t2"
  have "\<not> strstr ?t3 ''D N''" 
    using strstr_word [OF print_int_ends(2,1)] strstr_no_blank [OF print_int_ends(2)] print_int_ends(3) by blast
  then have "\<not> strstr ([] @ CHR '' '' # ?t3) ''D N''" using strstr_word [of "[]" ?t3] by (simp del: strstr.simps)
  moreover have "CHR '' '' \<notin> set (rr_room_name r)" using assms(1) space_chars(1) unfolding is_word_def by blast
  ultimately have "\<not> strstr ?t2 ''D N''" using strstr_word [of "rr_room_name r" "[] @ CHR '' '' # ?t3"] by (simp del: strstr.simps)
  then have "\<not> strstr ?t1 ''D N''" using strstr_word [OF print_int_ends(2), of ?t2] print_int_ends(3) by blast
  then have "\<not> strstr (''OLD'' @ CHR '' '' # ?t1) ''D N''"
    using strstr_word [of "''OLD''" ?t1] print_int_ends(4) [of "rr_room_id r"] by (simp del: strstr.simps append_Cons)
  moreover have "old_line (Some r) = ''OLD'' @ CHR '' '' # ?t1"
    using assms(2) by (simp add: old_line_def record_text_def)
  ultimately show False using line strstr_part [of _ "''OL''" "''D N''" "''ULL''"] by (simp del: strstr.simps)
qed

lemma parse_open_room:
  assumes "room_record_ok r" "is_word (rr_room_name r)" "rr_password r = []"
  shows "parse_old (old_line (Some r)) =
    r\<lparr>rr_password := print_int (rr_is_active r), rr_is_active := rr_user_count r, rr_user_count := 0\<rparr>"
proof -
  from assms have ok: "in_i32 (rr_room_id r)" "in_i32 (rr_is_active r)" "in_i32 (rr_user_count r)"
    "length (rr_room_name r) \<le> 31"
    by (simp_all add: room_record_ok_def fits_def)
  have "\<not> is_space c \<and> c \<noteq> nul" if "c \<in> set (print_int i)" for c i
    using print_int_chars [OF that] by auto
  then have w: "is_word (print_int (rr_is_active r))"
    using print_int_hd [of "rr_is_active r"] by (auto simp: is_word_def)
  have "length (print_int (rr_is_active r)) \<le> 63" using length_print_int [OF ok(2)] by simp
  then have "sscanf old_format (old_line (Some r)) =
    [ArgInt (rr_room_id r), ArgStr (rr_room_name r), ArgStr (print_int (rr_is_active r)),
     ArgInt (rr_user_count r)]"
    using assms ok w sscanf_print_int [OF ok(3), of "[]" "[Ws, ConvD]"]
      skip_ws_print [of "rr_user_count r" "[]"] skip_ws_print [of "rr_is_active r"]
    by (simp add: old_format_def old_line_def record_text_def text_simps del: sscanf.simps(4,5))
      (simp add: skip_ws_def scan_d_def)
  then show ?thesis by (simp add: parse_old_def arg_int_def arg_str_def)
qed

text \<open>Recovery behind completed transactions, of a transaction whose log was cut off inside or behind its \<open>OLD\<close> line.\<close>

lemma recover_cut_old:
  assumes ready: "db_ready s"
    and log: "wal_log s = log_text (log_lines txns)" "\<forall>t \<in> set txns. txn_ok t" "length txns < 128"
    and tail: "cut_lines m ls = begin_line (int i) # l # rest" "\<forall>l \<in> set ls. line_ok l" "length ls \<le> 4"
    and l: "strncmp_eq l ''OLD'' 3" "room_record_ok (read_old l)" "in_i32 (int i)"
    and rest: "wal_completed (int i) rest = Some False" "\<forall>l \<in> set rest. \<not> strncmp_eq l ''BEGIN'' 5"
    and c: "c = s\<lparr>wal_log := wal_log s @ take m (log_text ls), wal_pos := p, rooms_bin := f\<rparr>"
  shows "\<exists>s'. wal_recover c = Some s' \<and> db_read_room_raw i s' = Some (read_old l)"
proof -
  have fd: "rooms_fd s \<noteq> - 1" "wal_fd s \<noteq> - 1" "disk s = []" "calls s = []" using ready by (simp_all add: db_ready_def)
  let ?g = "overwrite 0 (i * ROOM_RECORD_SIZE) (enc_room (read_old l)) f"
  have "recover_loop (cut_lines m ls) (c\<lparr>wal_pos := length (wal_log c)\<rparr>) = Some (c\<lparr>wal_pos := length (wal_log c), rooms_bin := ?g\<rparr>)"
    using fd tail(1) recover_open [OF l(1,2) _ l(3) rest] by (simp add: c)
  then have "wal_recover c = Some (c\<lparr>wal_log := [], wal_pos := 0, rooms_bin := ?g\<rparr>)"
    using fd log tail by (intro wal_recover_tail [where txns = txns and n = m and tail = ls]) (auto simp: c)
  with fd(1) room_file.read_write_same [OF l(2), of i f] show ?thesis by (simp add: c db_read_room_raw_def)
qed

lemma open_room_restored_wrong:
  assumes "db_ready s"
    and "wal_log s = log_text (log_lines txns)" "\<forall>t \<in> set txns. txn_ok t" "length txns < 128"
    and "room_record_ok rec" "line_ok (new_line rec)" "in_i32 (int i)"
    and "db_read_room_raw i s = Some r" "room_record_ok r" "is_word (rr_room_name r)" "rr_password r = []"
  shows "\<exists>s'. wal_recover (db_write_crash i rec (In_Record n) s) = Some s' \<and>
    db_read_room_raw i s' =
      Some (r\<lparr>rr_password := print_int (rr_is_active r), rr_is_active := rr_user_count r, rr_user_count := 0\<rparr>)"
proof -
  let ?ls = "[begin_line (int i), old_line (Some r), new_line rec]"
  let ?r = "r\<lparr>rr_password := print_int (rr_is_active r), rr_is_active := rr_user_count r, rr_user_count := 0\<rparr>"
  have "read_old (old_line (Some r)) = ?r"
    using open_room_line [OF assms(10,11)] parse_open_room [OF assms(9-11)] by (simp add: read_old_def)
  moreover have "room_record_ok ?r"
    using assms(9) length_print_int [of "rr_is_active r"] by (auto simp: room_record_ok_def fits_def in_i32_def)
  moreover obtain p f where "db_write_crash i rec (In_Record n) s =
      s\<lparr>wal_log := wal_log s @ take (commit_at i (Some r) rec) (log_text ?ls), wal_pos := p, rooms_bin := f\<rparr>"
    using crash_state [OF assms(1,5), of i "In_Record n"] take_txn_text(1) [of "commit_at i (Some r) rec" i "Some r" rec] assms(8)
    by (simp add: log_cut_def del: log_text_simps) metis
  moreover have "cut_lines (commit_at i (Some r) rec) ?ls = ?ls" by (rule cut_lines_all) simp
  moreover have "\<forall>l \<in> set ?ls. line_ok l"
    using assms(6,9) is_word_line [OF assms(10)] assms(11) by (simp add: line_ok_record)
  ultimately show ?thesis
    using recover_cut_old [OF assms(1-4), of "commit_at i (Some r) rec" ?ls i "old_line (Some r)" "[new_line rec]"] assms(7)
    by (simp del: log_text_simps)
qed

lemma cut_log_line_not_recovered:
  assumes "db_ready s"
    and "wal_log s = log_text (log_lines txns)" "\<forall>t \<in> set txns. txn_ok t" "length txns < 128"
    and "room_record_ok rec" "line_ok (new_line rec)" "in_i32 (int i)"
    and "db_read_room i s = Some r" "line_ok (old_line (Some r))"
  shows "wal_recover (db_write_crash i rec (In_Log 5) s) = None \<and>
    rooms_bin (db_write_crash i rec (In_Log (old_at i + 3)) s) = rooms_bin s \<and>
    (\<exists>s'. wal_recover (db_write_crash i rec (In_Log (old_at i + 3)) s) = Some s' \<and> db_read_room i s' = None)"
proof -
  let ?ls = "[begin_line (int i), old_line (Some r), new_line rec]"
  have raw: "db_read_room_raw i s = Some r"
    using assms(8) by (simp add: db_read_room_def db_read_room_raw_def split: if_splits option.splits)
  have fd: "rooms_fd s \<noteq> - 1" "wal_fd s \<noteq> - 1" "disk s = []" "calls s = []" "wal_pos s = length (wal_log s)"
    using assms(1) by (simp_all add: db_ready_def)
  have c: "db_write_crash i rec (In_Log m) s =
      s\<lparr>wal_log := wal_log s @ take m (log_text ?ls), wal_pos := length (wal_log s @ take m (log_text ?ls)), rooms_bin := rooms_bin s\<rparr>" for m
    using fd raw by (simp add: db_write_crash_def Let_def file_simps del: log_text_simps)
  have ok: "\<forall>l \<in> set ?ls. line_ok l" using assms(6,9) by simp
  have "cut_lines 5 ?ls = [''BEGIN'']" by (simp add: begin_line_def)
  then have "wal_load (db_write_crash i rec (In_Log 5) s) = (Some (log_lines txns @ [''BEGIN'']), db_write_crash i rec (In_Log 5) s)"
    using wal_load_cut [of "db_write_crash i rec (In_Log 5) s" "log_lines txns" 5 ?ls] fd ok log_lines_ok [OF assms(3)] assms(2,4)
    by (auto simp: c length_log_lines begin_line_def)
  moreover have "line_id ''BEGIN'' ''BEGIN'' = None"
    by (simp add: line_id_def skip_ws_def scan_d_def arg_int_def)
  ultimately have undef: "wal_recover (db_write_crash i rec (In_Log 5) s) = None"
    using fd by (simp add: wal_recover_def recover_loop_log [OF assms(3)] c begin_line_def strncmp_eq_def)
  have "\<exists>s'. wal_recover (db_write_crash i rec (In_Log (old_at i + 3)) s) = Some s' \<and> db_read_room_raw i s' = Some (read_old ''OLD'')"
  proof (rule recover_cut_old [OF assms(1-4) _ ok])
    show "cut_lines (old_at i + 3) ?ls = [begin_line (int i), ''OLD'']" by (simp add: old_line_def)
    show "room_record_ok (read_old ''OLD'')"
      by (simp add: read_old_def parse_old_def old_format_def skip_ws_def scan_d_def arg_int_def arg_str_def room_record_ok_def fits_def in_i32_def)
    show "db_write_crash i rec (In_Log (old_at i + 3)) s = s\<lparr>wal_log := wal_log s @ take (old_at i + 3) (log_text ?ls),
      wal_pos := length (wal_log s @ take (old_at i + 3) (log_text ?ls)), rooms_bin := rooms_bin s\<rparr>" by (rule c)
  qed (use assms(7) in \<open>simp_all add: strncmp_eq_def\<close>)
  then obtain s' where s': "wal_recover (db_write_crash i rec (In_Log (old_at i + 3)) s) = Some s'"
    "db_read_room_raw i s' = Some (read_old ''OLD'')" by blast
  have "rr_is_active (read_old ''OLD'') = 0"
    by (simp add: read_old_def parse_old_def old_format_def skip_ws_def scan_d_def arg_int_def)
  with s'(2) have "db_read_room i s' = None" by (simp add: db_read_room_def db_read_room_raw_def split: if_splits)
  moreover have "rooms_bin (db_write_crash i rec (In_Log (old_at i + 3)) s) = rooms_bin s"
    unfolding c by (simp del: log_text_simps)
  ultimately show ?thesis using undef s'(1) by blast
qed

text \<open>
  C39: crashes that recovery does not repair. The process dies inside \<open>db_write_room\<close> for an existing
  room. If its record is being written and the room had no password, the empty field has disappeared in
  the log's line, and \<open>wal_recover\<close> stores the activity flag as the password, the user count as the
  activity flag, and no user count. If the log ends behind the word \<open>OLD\<close>, \<open>wal_recover\<close> overwrites the
  untouched record with zeros, and the room is gone. If the log ends behind the word \<open>BEGIN\<close>,
  \<open>wal_recover\<close> uses a number that was never stored.
\<close>

theorem open_room_not_restored:
  assumes "db_ready s"
    and "wal_log s = log_text (log_lines txns)" "\<forall>t \<in> set txns. txn_ok t" "length txns < 128"
    and "room_record_ok rec" "line_ok (new_line rec)" "in_i32 (int i)"
    and "db_read_room i s = Some r" "room_record_ok r" "is_word (rr_room_name r)" "newline \<notin> set (rr_password r)"
  shows "(rr_password r = [] \<longrightarrow>
      (\<exists>s'. wal_recover (db_write_crash i rec (In_Record n) s) = Some s' \<and> db_read_room_raw i s' =
        Some (r\<lparr>rr_password := print_int (rr_is_active r), rr_is_active := rr_user_count r, rr_user_count := 0\<rparr>))) \<and>
    rooms_bin (db_write_crash i rec (In_Log (old_at i + 3)) s) = rooms_bin s \<and>
    (\<exists>s'. wal_recover (db_write_crash i rec (In_Log (old_at i + 3)) s) = Some s' \<and> db_read_room i s' = None) \<and>
    wal_recover (db_write_crash i rec (In_Log 5) s) = None"
proof -
  have raw: "db_read_room_raw i s = Some r"
    using assms(8) by (simp add: db_read_room_def db_read_room_raw_def split: if_splits option.splits)
  have "line_ok (old_line (Some r))"
    using is_word_line [OF assms(10)] assms(9,11) by (simp add: line_ok_record room_record_ok_def fits_def)
  with open_room_restored_wrong [OF assms(1-7) raw assms(9,10)] cut_log_line_not_recovered [OF assms(1-8)] show ?thesis by blast
qed

lemma take_log_lines:
  assumes "128 \<le> length txns"
  shows "take 512 (log_lines txns @ tail) = log_lines (take 128 txns)"
proof -
  have "log_lines txns @ tail = log_lines (take 128 txns) @ log_lines (drop 128 txns) @ tail"
    by (metis append_assoc append_take_drop_id concat_append log_lines_def map_append)
  moreover have "length (log_lines (take 128 txns)) = 512" using assms by (simp add: length_log_lines)
  ultimately show ?thesis by simp
qed

lemma wal_recover_first_lines:
  assumes "wal_fd c \<noteq> - 1" "calls c = []" "wal_log c = log_text ls" "\<forall>l \<in> set ls. line_ok l"
    "take 512 ls = log_lines txns" "\<forall>t \<in> set txns. txn_ok t"
  shows "\<exists>s'. wal_recover c = Some s' \<and> wal_log s' = [] \<and> rooms_bin s' = rooms_bin c"
proof (cases "wal_log c = []")
  case True
  with assms(1) show ?thesis by (simp add: wal_recover_def)
next
  case False
  have "wal_load c = (Some (log_lines txns), c\<lparr>wal_pos := length (wal_log c)\<rparr>)"
    using wal_load_cut [OF assms(2) _ False, of ls 0 "[]"] assms(3-5) by simp
  moreover have "recover_loop (log_lines txns) t = Some t" for t
    using recover_loop_log [OF assms(6), of "[]"] by simp
  ultimately show ?thesis using False assms(1,2) by (simp add: wal_recover_def file_simps)
qed

text \<open>
  Recovery of a log in which every transaction was committed changes nothing in the room file,
  however long the log is, and empties the log.
\<close>

theorem wal_recover_committed_log:
  assumes "wal_fd s \<noteq> - 1" "calls s = []" "wal_log s = log_text (log_lines txns)"
    "\<forall>t \<in> set txns. txn_ok t"
  shows "\<exists>s'. wal_recover s = Some s' \<and> wal_log s' = [] \<and> rooms_bin s' = rooms_bin s"
proof (rule wal_recover_first_lines [OF assms(1-3) log_lines_ok [OF assms(4)]])
  show "take 512 (log_lines txns) = log_lines (take 128 txns)"
    using take_log_lines [of txns "[]"] by (cases "128 \<le> length txns") (simp_all add: length_log_lines)
  show "\<forall>t \<in> set (take 128 txns). txn_ok t" using assms(4) by (blast dest: in_set_takeD)
qed

text \<open>
  C40: recovery looks at the first 512 lines of the log only. Behind 128 completed transactions an
  interrupted one is not undone: whatever part of the new record reached the room file stays there,
  and the log that could restore the old record is emptied.
\<close>

theorem wal_recover_ignores_long_log:
  assumes "wal_fd c \<noteq> - 1" "calls c = []" "wal_log c = log_text (log_lines txns @ tail)"
    "\<forall>t \<in> set txns. txn_ok t" "\<forall>l \<in> set tail. line_ok l" "128 \<le> length txns"
  shows "\<exists>s'. wal_recover c = Some s' \<and> wal_log s' = [] \<and> rooms_bin s' = rooms_bin c"
proof (rule wal_recover_first_lines [OF assms(1-3) _ take_log_lines [OF assms(6)]])
  show "\<forall>l \<in> set (log_lines txns @ tail). line_ok l" using log_lines_ok [OF assms(4)] assms(5) by auto
  show "\<forall>t \<in> set (take 128 txns). txn_ok t" using assms(4) by (blast dest: in_set_takeD)
qed

section \<open>Witnesses\<close>

lemma example_lines [simp]: "line_ok (new_line example_record)" "line_ok (old_line (Some example_record))"
  by (simp_all add: line_ok_record example_record_def)

lemma example_restorable: "restorable example_record"
  by (simp add: restorable_def)
    (simp add: example_record_def is_word_def old_line_def record_text_def is_space_def char_code_def
      print_int_def print_nat.simps digit_char_def)

lemma example_txn [simp]: "txn_ok (0, None, example_record)"
  by (simp add: txn_ok_def in_i32_def)

text \<open>The example database after its room was created, and with a write about to be cut short.\<close>

definition example_full :: file_db where
  "example_full = example_db\<lparr>rooms_bin := enc_room example_record,
     wal_log := log_text (log_lines [(0, None, example_record)]),
     wal_pos := length (log_text (log_lines [(0, None, example_record)]))\<rparr>"

lemma example_full_raw: "db_read_room_raw 0 example_full = Some example_record"
  using room_file.read_write_same [OF example_record_ok, of 0 "[]"]
  by (simp add: db_read_room_raw_def example_full_def example_db_def overwrite_Nil)

lemma example_full_facts: "db_ready example_full" "db_read_room_raw 0 example_full = Some example_record"
  "db_read_room 0 example_full = Some example_record"
proof -
  show "db_ready example_full" by (simp add: db_ready_def example_full_def example_db_def)
  show "db_read_room_raw 0 example_full = Some example_record" by (rule example_full_raw)
  then show "db_read_room 0 example_full = Some example_record"
    by (simp add: db_read_room_def db_read_room_raw_def example_record_def split: if_splits)
qed

theorem crash_recovery_atomic_witness:
  "\<exists>s'. wal_recover (db_write_crash 0 (example_record\<lparr>rr_user_count := 1\<rparr>) (In_Record 40) example_full) = Some s' \<and>
    wal_log s' = [] \<and> db_read_room 0 s' = Some example_record"
proof -
  have "\<exists>s'. wal_recover (db_write_crash 0 (example_record\<lparr>rr_user_count := 1\<rparr>) (In_Record 40) example_full) = Some s' \<and>
    wal_log s' = [] \<and> db_read_room 0 s' = (if commit_written 0 (In_Record 40) then
      (if rr_is_active (example_record\<lparr>rr_user_count := 1\<rparr>) = 0 then None else Some (example_record\<lparr>rr_user_count := 1\<rparr>))
      else db_read_room 0 example_full) \<and>
    (\<forall>j. j \<noteq> 0 \<longrightarrow> db_read_room j s' = db_read_room j example_full)"
    by (rule crash_recovery_atomic [where txns = "[(0, None, example_record)]"])
      (simp_all add: example_full_facts example_restorable readable_crash_def in_i32_def,
       simp_all add: example_full_def example_record_def line_ok_record room_record_ok_def in_i32_def fits_def)
  then show ?thesis by (auto simp: commit_written_def example_full_facts)
qed

definition example_failing :: file_db where
  "example_failing = example_full\<lparr>disk := [512, 512, 512, 40]\<rparr>"

lemma example_failing_facts:
  "write_fails 40 example_failing" "db_read_room_raw 0 example_failing = Some example_record"
  "rooms_of example_failing = [example_record]"
proof -
  show "write_fails 40 example_failing"
    by (simp add: write_fails_def example_failing_def example_full_def example_db_def)
  show "db_read_room_raw 0 example_failing = Some example_record"
    using example_full_raw by (simp add: db_read_room_raw_def example_failing_def split: if_splits)
  show "rooms_of example_failing = [example_record]"
    using room_file.records_append [OF example_record_ok, of "[]"]
    by (simp add: example_failing_def example_full_def) (simp add: file_records_def)
qed

theorem failed_write_restores_first_transaction_witness:
  "\<exists>s'. db_write_room 0 (example_record\<lparr>rr_user_count := 1\<rparr>) example_failing = Some (False, s') \<and>
    db_read_room 0 s' =
      (case None of None \<Rightarrow> None | Some r \<Rightarrow> if rr_is_active r = 0 then None else Some r)"
proof (rule failed_write_restores_first_transaction [where txns = "[]" and r = example_record and n = 40])
  show "line_ok (new_line (example_record\<lparr>rr_user_count := 1\<rparr>))"
    by (simp add: line_ok_record example_record_def)
qed (simp_all add: example_failing_facts example_restorable in_i32_def,
     simp_all add: example_failing_def example_full_def example_record_def room_record_ok_def in_i32_def fits_def)


text \<open>The same database with a room without a password.\<close>

definition open_record :: room_record where
  "open_record = example_record\<lparr>rr_password := []\<rparr>"

lemma open_record_facts: "room_record_ok open_record" "is_word (rr_room_name open_record)" "rr_password open_record = []"
  "line_ok (new_line open_record)"
  by (simp_all add: open_record_def example_record_def room_record_ok_def in_i32_def fits_def is_word_def is_space_def char_code_def
      line_ok_record)

definition open_db :: file_db where
  "open_db = example_db\<lparr>rooms_bin := enc_room open_record\<rparr>"

lemma open_db_read: "db_read_room 0 open_db = Some open_record"
  using room_file.read_write_same [OF open_record_facts(1), of 0 "[]"]
  by (simp add: db_read_room_def open_db_def example_db_def overwrite_Nil) (simp add: open_record_def example_record_def)

theorem open_room_not_restored_witness:
  "db_read_room 0 open_db = Some open_record \<and>
    (\<exists>s'. wal_recover (db_write_crash 0 open_record (In_Record 40) open_db) = Some s' \<and>
      db_read_room_raw 0 s' = Some (open_record\<lparr>rr_password := ''1'', rr_is_active := 0, rr_user_count := 0\<rparr>)) \<and>
    (\<exists>s'. wal_recover (db_write_crash 0 open_record (In_Log (old_at 0 + 3)) open_db) = Some s' \<and> db_read_room 0 s' = None)"
proof -
  have "db_ready open_db" "wal_log open_db = log_text (log_lines [])"
    by (simp_all add: open_db_def example_db_def db_ready_def log_lines_def)
  moreover have "print_int 1 = ''1''" by code_simp
  then have "print_int (rr_is_active open_record) = ''1''" "rr_user_count open_record = 0"
    by (simp_all add: open_record_def example_record_def)
  ultimately show ?thesis
    using open_room_not_restored [of open_db "[]" open_record 0 open_record 40] open_db_read open_record_facts
    by (simp add: in_i32_def)
qed

theorem wal_recover_committed_log_witness:
  "\<exists>s'. wal_recover example_full = Some s' \<and> wal_log s' = [] \<and> rooms_bin s' = rooms_bin example_full"
  by (rule wal_recover_committed_log [where txns = "[(0, None, example_record)]"])
    (simp_all add: example_full_def example_db_def)

theorem wal_recover_ignores_long_log_witness:
  "\<exists>s'. wal_recover (example_full\<lparr>wal_log := log_text (log_lines (replicate 128 (0, None, example_record)) @
      [begin_line 0, old_line (Some example_record)])\<rparr>) = Some s' \<and> wal_log s' = [] \<and>
    rooms_bin s' = rooms_bin (example_full\<lparr>wal_log := log_text (log_lines (replicate 128 (0, None, example_record)) @
      [begin_line 0, old_line (Some example_record)])\<rparr>)"
  by (rule wal_recover_ignores_long_log [where txns = "replicate 128 (0, None, example_record)" and
        tail = "[begin_line 0, old_line (Some example_record)]"])
    (simp_all add: example_full_def example_db_def)

end
