(* ===== verification/Auth.thy ===== *)
theory Auth
  imports File_Db
begin

text \<open>
  \<open>src/src/server/auth.c\<close>: the user file, the check of a password, the permission table, adding and
  promoting a user. The correctness lemmas speak about \<open>lookup_user\<close>, the record that a name has
  in the file: registering makes exactly the new name's password valid, promoting changes exactly
  one role, and the names of the active users stay distinct.
\<close>

section \<open>Definitions\<close>

text \<open>The records a scan of the user file sees; a closed descriptor reads nothing.\<close>

definition user_scan :: "file_db \<Rightarrow> user_record list" where
  "user_scan s = (if users_fd s = - 1 then [] else users_of s)"

definition admin_record :: user_record where
  "admin_record = \<lparr>ur_user_id = 0, ur_username = ''admin'', ur_role = ''ADMIN'',
     ur_password_hash = sha256_hash ''admin123'', ur_is_active = 1\<rparr>"

definition put_user :: "nat \<Rightarrow> user_record \<Rightarrow> file_db \<Rightarrow> nat \<times> file_db" where
  "put_user off u s =
     (let (n, s1) = sys_write USER_RECORD_SIZE s
      in (n, s1\<lparr>users_bin := overwrite 0 off (take n (enc_user u)) (users_bin s1)\<rparr>))"

text \<open>\<open>auth_init\<close> with the descriptors its two \<open>open\<close> calls return; \<open>Inl\<close> is the exit code.\<close>

definition auth_init :: "int \<Rightarrow> int \<Rightarrow> file_db \<Rightarrow> int + file_db" where
  "auth_init open_users create_users s =
     (if open_users = - 1 then
        (if create_users = - 1 then Inl 1
         else Inr (snd (put_user 0 admin_record (s\<lparr>users_fd := create_users\<rparr>))))
      else Inr (s\<lparr>users_fd := open_users\<rparr>))"

definition role_number :: "string \<Rightarrow> int" where
  "role_number role =
     (if role = ''ADMIN'' then ROLE_ADMIN
      else if role = ''MODERATOR'' then ROLE_MODERATOR
      else ROLE_USER)"

text \<open>
  \<open>Some (Some role)\<close> for a successful login, \<open>Some None\<close> for a refused one.
\<close>

definition auth_authenticate :: "string \<Rightarrow> string \<Rightarrow> file_db \<Rightarrow> int option option" where
  "auth_authenticate username password s =
     (case find_user username (user_scan s) of
        None \<Rightarrow> Some None
      | Some rec \<Rightarrow>
          (case safe_memcmp (sha256_hash password) (ur_password_hash rec) 64 of
             None \<Rightarrow> None
           | Some d \<Rightarrow> if d \<noteq> 0 then Some None else Some (Some (role_number (ur_role rec)))))"

definition auth_check_permission :: "int \<Rightarrow> int \<Rightarrow> bool" where
  "auth_check_permission role command =
     (if command \<in> {CMD_LOGIN, CMD_LOGOUT, CMD_JOIN, CMD_LEAVE, CMD_LIST, CMD_STATUS} then True
      else if command = CMD_PROMOTE then role = ROLE_ADMIN
      else if command \<in> {CMD_CREATE, CMD_KICK, CMD_MUTE} then role = ROLE_ADMIN \<or> role = ROLE_MODERATOR
      else False)"

text \<open>The scan of \<open>auth_add_user\<close>: the number of active users, or \<open>None\<close> when the name exists.\<close>

fun count_users :: "string \<Rightarrow> int \<Rightarrow> user_record list \<Rightarrow> int option" where
  "count_users username user_count [] = Some user_count"
| "count_users username user_count (rec # recs) =
     (let user_count' = (if ur_is_active rec \<noteq> 0 then user_count + 1 else user_count)
      in if ur_is_active rec \<noteq> 0 \<and> ur_username rec = username then None
         else count_users username user_count' recs)"

text \<open>A name or role that does not fit its array overflows it in \<open>strcpy\<close>: that is \<open>None\<close>.\<close>

definition auth_add_user :: "string \<Rightarrow> string \<Rightarrow> string \<Rightarrow> file_db \<Rightarrow> (bool \<times> file_db) option" where
  "auth_add_user username password role s =
     (case count_users username 0 (user_scan s) of
        None \<Rightarrow> Some (False, s)
      | Some user_count \<Rightarrow>
          if MAX_USERNAME_LEN \<le> length username \<or> MAX_ROLE_LEN \<le> length role then None
          else if users_fd s = - 1 then Some (False, s)
          else let new_user = \<lparr>ur_user_id = user_count, ur_username = username, ur_role = role,
                     ur_password_hash = sha256_hash password, ur_is_active = 1\<rparr>;
                   (n, s1) = put_user (length (users_bin s)) new_user s
               in Some (n = USER_RECORD_SIZE, s1))"

fun find_user_at :: "string \<Rightarrow> nat \<Rightarrow> user_record list \<Rightarrow> (nat \<times> user_record) option" where
  "find_user_at username i [] = None"
| "find_user_at username i (rec # recs) =
     (if ur_is_active rec \<noteq> 0 \<and> ur_username rec = username then Some (i, rec)
      else find_user_at username (Suc i) recs)"

definition auth_promote_user :: "string \<Rightarrow> string \<Rightarrow> file_db \<Rightarrow> bool \<times> file_db" where
  "auth_promote_user username new_role s =
     (case find_user_at username 0 (user_scan s) of
        None \<Rightarrow> (False, s)
      | Some (i, rec) \<Rightarrow>
          let (n, s1) = put_user (i * USER_RECORD_SIZE)
                (rec\<lparr>ur_role := take (MAX_ROLE_LEN - 1) new_role\<rparr>) s
          in (n = USER_RECORD_SIZE, s1))"

section \<open>The user table\<close>

definition lookup_user :: "string \<Rightarrow> file_db \<Rightarrow> user_record option" where
  "lookup_user name s = find_user name (user_scan s)"

text \<open>The user file is open and holds whole, well-formed records, and its writes succeed.\<close>

definition users_ready :: "file_db \<Rightarrow> bool" where
  "users_ready s \<longleftrightarrow> users_fd s \<noteq> - 1 \<and> disk s = [] \<and> USER_RECORD_SIZE dvd length (users_bin s) \<and>
     (\<forall>u \<in> set (users_of s). user_record_ok u)"

definition active_names :: "user_record list \<Rightarrow> string list" where
  "active_names us = map ur_username (filter (\<lambda>u. ur_is_active u \<noteq> 0) us)"

lemma find_user_None: "find_user name us = None \<longleftrightarrow> name \<notin> set (active_names us)"
  by (induction us) (auto simp: active_names_def)

lemma find_user_append:
  "find_user name (us @ vs) =
    (case find_user name us of None \<Rightarrow> find_user name vs | Some u \<Rightarrow> Some u)"
  by (induction us) auto

lemma find_user_Some:
  "find_user name us = Some u \<Longrightarrow> u \<in> set us \<and> ur_is_active u \<noteq> 0 \<and> ur_username u = name"
  by (induction us) (auto split: if_splits)

lemma count_users_None: "count_users name n us = None \<longleftrightarrow> name \<in> set (active_names us)"
  by (induction us arbitrary: n) (auto simp: active_names_def Let_def)

lemma count_users_value:
  "count_users name n us = Some k \<Longrightarrow> k = n + int (length (active_names us))"
proof (induction us arbitrary: n)
  case (Cons u us)
  then show ?case by (fastforce simp: active_names_def Let_def split: if_splits)
qed (simp add: active_names_def)

lemma find_user_at_Some:
  "find_user_at name i us = Some (k, u) \<Longrightarrow>
    i \<le> k \<and> k < i + length us \<and> us ! (k - i) = u \<and> find_user name us = Some u"
proof (induction name i us rule: find_user_at.induct)
  case (2 name i rec recs)
  then show ?case by (fastforce simp: nth_Cons' split: if_splits)
qed simp

lemma find_user_at_None: "find_user_at name i us = None \<longleftrightarrow> find_user name us = None"
  by (induction name i us rule: find_user_at.induct) auto

lemma find_user_update:
  assumes "find_user_at name i us = Some (k, u)" "ur_is_active u' \<noteq> 0" "ur_username u' = name"
  shows "find_user v (us[k - i := u']) = (if v = name then Some u' else find_user v us)"
  using assms(1)
proof (induction us arbitrary: i)
  case (Cons rec recs)
  show ?case
  proof (cases "ur_is_active rec \<noteq> 0 \<and> ur_username rec = name")
    case True
    with Cons assms show ?thesis by auto
  next
    case False
    then have at: "find_user_at name (Suc i) recs = Some (k, u)" using Cons.prems by auto
    then have "k - i = Suc (k - Suc i)" using find_user_at_Some by fastforce
    with Cons.IH [OF at] False show ?thesis by auto
  qed
qed simp

lemma active_names_update:
  "k < length us \<Longrightarrow> ur_username u' = ur_username (us ! k) \<Longrightarrow> ur_is_active u' = ur_is_active (us ! k) \<Longrightarrow>
    active_names (us[k := u']) = active_names us"
  by (induction us arbitrary: k) (auto simp: active_names_def nth_Cons' split: nat.splits)

lemma put_user_full:
  assumes "disk s = []" "user_record_ok u"
  shows "put_user off u s = (USER_RECORD_SIZE, s\<lparr>users_bin := overwrite 0 off (enc_user u) (users_bin s)\<rparr>)"
  using assms user_file.enc_length [OF assms(2)] by (simp add: put_user_def file_simps)

section \<open>Correctness\<close>

lemma user_scan_ready: "users_ready s \<Longrightarrow> user_scan s = users_of s"
  by (simp add: user_scan_def users_ready_def)

lemma lookup_user_ok: "users_ready s \<Longrightarrow> lookup_user name s = Some u \<Longrightarrow> user_record_ok u"
  by (auto simp: lookup_user_def user_scan_ready users_ready_def dest: find_user_Some)

lemma memcmp_hash:
  assumes "length h = 65"
  shows "\<exists>d. safe_memcmp (sha256_hash p) h 64 = Some d \<and> (d = 0 \<longleftrightarrow> take 64 h = take 64 (sha256_hash p))"
  using safe_memcmp_0_iff [of 64 "sha256_hash p" h] assms by (auto simp: safe_memcmp_def)

lemma auth_authenticate_lookup:
  assumes "users_ready s"
  shows "auth_authenticate username password s =
    Some (case lookup_user username s of
            None \<Rightarrow> None
          | Some u \<Rightarrow> if take 64 (ur_password_hash u) = take 64 (sha256_hash password)
                      then Some (role_number (ur_role u)) else None)"
proof (cases "lookup_user username s")
  case None
  then show ?thesis by (simp add: auth_authenticate_def lookup_user_def)
next
  case (Some u)
  then have "length (ur_password_hash u) = 65"
    using lookup_user_ok [OF assms] by (simp add: user_record_ok_def)
  with Some show ?thesis
    using memcmp_hash [of "ur_password_hash u" password] by (auto simp: auth_authenticate_def lookup_user_def)
qed

lemma find_user_first:
  "find_user name us = Some u \<longleftrightarrow> (\<exists>i < length us. us ! i = u \<and> ur_is_active u \<noteq> 0 \<and> ur_username u = name \<and>
    (\<forall>j < i. ur_is_active (us ! j) = 0 \<or> ur_username (us ! j) \<noteq> name))"
proof (induction us)
  case (Cons v us)
  show ?case
  proof (cases "ur_is_active v \<noteq> 0 \<and> ur_username v = name")
    case True
    then show ?thesis by (auto simp: Ex_less_Suc2 All_less_Suc2)
  next
    case False
    then have "find_user name (v # us) = find_user name us" by auto
    with Cons False show ?thesis by (simp add: Ex_less_Suc2 All_less_Suc2) blast
  qed
qed simp

text \<open>
  C32: \<open>auth_authenticate\<close> always answers. It accepts exactly when the user file holds an active record with
  that name, the first such record has the hash of the password in the 64 characters of its hash field,
  and it then returns the number of the role that is written in this record: 1 for \<open>ADMIN\<close>, 2 for
  \<open>MODERATOR\<close> and 3 for anything else.
\<close>

theorem auth_authenticate_correct:
  assumes "users_ready s"
  shows "(\<exists>answer. auth_authenticate username password s = Some answer) \<and>
    (auth_authenticate username password s = Some (Some role) \<longleftrightarrow>
      (\<exists>i < length (users_of s). ur_is_active (users_of s ! i) \<noteq> 0 \<and> ur_username (users_of s ! i) = username \<and>
        (\<forall>j < i. ur_is_active (users_of s ! j) = 0 \<or> ur_username (users_of s ! j) \<noteq> username) \<and>
        take 64 (ur_password_hash (users_of s ! i)) = take 64 (sha256_hash password) \<and>
        role = (if ur_role (users_of s ! i) = ''ADMIN'' then ROLE_ADMIN
                else if ur_role (users_of s ! i) = ''MODERATOR'' then ROLE_MODERATOR else ROLE_USER)))"
proof -
  have "auth_authenticate username password s = Some (Some role) \<longleftrightarrow>
      (\<exists>u. lookup_user username s = Some u \<and> take 64 (ur_password_hash u) = take 64 (sha256_hash password) \<and> role = role_number (ur_role u))"
    using auth_authenticate_lookup [OF assms, of username password] by (auto split: option.splits)
  also have "lookup_user username s = find_user username (users_of s)" by (simp add: lookup_user_def user_scan_ready [OF assms])
  finally show ?thesis
    using auth_authenticate_lookup [OF assms, of username password] unfolding find_user_first role_number_def by blast
qed

lemma take_64_hash: "take 64 (sha256_hash p) = take 64 (sha256_hash q) \<longleftrightarrow> sha256_hash p = sha256_hash q"
  by (simp add: sha256_hash_def)

lemma auth_add_user_new:
  assumes "users_ready s" "fits MAX_USERNAME_LEN username" "fits MAX_ROLE_LEN role"
    "lookup_user username s = None" "length (users_of s) < 2 ^ 31"
  shows "\<exists>s' u. auth_add_user username password role s = Some (True, s') \<and> users_ready s' \<and>
    users_of s' = users_of s @ [u] \<and> ur_username u = username \<and> ur_role u = role \<and>
    ur_password_hash u = sha256_hash password \<and> ur_is_active u = 1"
proof -
  let ?u = "\<lparr>ur_user_id = int (length (active_names (users_of s))), ur_username = username,
    ur_role = role, ur_password_hash = sha256_hash password, ur_is_active = 1\<rparr>"
  let ?s = "s\<lparr>users_bin := users_bin s @ enc_user ?u\<rparr>"
  have fd: "users_fd s \<noteq> - 1" "disk s = []" "USER_RECORD_SIZE dvd length (users_bin s)"
    using assms(1) by (simp_all add: users_ready_def)
  have "length (active_names (users_of s)) \<le> length (users_of s)"
    using length_filter_le [of _ "users_of s"] by (simp add: active_names_def)
  then have u: "user_record_ok ?u" using assms(2,3,5) by (simp add: user_record_ok_def in_i32_def)
  have "count_users username 0 (users_of s) = Some (int (length (active_names (users_of s))))"
    using assms(4) count_users_None [of username 0 "users_of s"] count_users_value [of username 0 "users_of s"]
    by (auto simp: lookup_user_def user_scan_ready [OF assms(1)] find_user_None)
  moreover have "put_user (length (users_bin s)) ?u s = (USER_RECORD_SIZE, ?s)"
    by (simp add: put_user_full [OF fd(2) u] overwrite_end)
  ultimately have "auth_add_user username password role s = Some (True, ?s)"
    using assms(2,3) fd(1) by (simp add: auth_add_user_def user_scan_ready [OF assms(1)] fits_def)
  moreover have rs: "users_of ?s = users_of s @ [?u]"
    using user_file.records_append [OF u fd(3)] by simp
  moreover have "users_ready ?s"
    using assms(1) u rs user_file.enc_length [OF u] by (simp add: users_ready_def)
  ultimately show ?thesis by force
qed

text \<open>A text of 33 characters that has the hash of \<open>secret\<close>.\<close>

definition secret_twin :: string where
  "secret_twin = ''aDBSDU'' @ replicate 26 (CHR ''!'') @ [CHR 0xF1]"

lemma secret_twin_hash: "sha256_hash secret_twin = sha256_hash ''secret''" "length secret_twin = 33"
proof -
  have "hash_bytes secret_twin = hash_bytes ''secret''" by code_simp
  then show "sha256_hash secret_twin = sha256_hash ''secret''" by (simp add: sha256_hash_eq_iff)
qed (simp add: secret_twin_def)

text \<open>
  C27: registering a new name succeeds. Afterwards a login with that name succeeds exactly with the
  passwords that have the same hash, and yields the registered role. Among the passwords of at most 31
  characters that is the registered one only; the server takes up to 63, and there longer ones with the
  same hash exist, as the example of the registered password \<open>secret\<close> shows. The records of all other
  names are untouched, and the names of the active users stay distinct.
\<close>

theorem register_then_login:
  assumes "users_ready s" "fits MAX_USERNAME_LEN username" "fits MAX_ROLE_LEN role"
    "lookup_user username s = None" "length (users_of s) < 2 ^ 31" "distinct (active_names (user_scan s))"
  shows "\<exists>s'. auth_add_user username password role s = Some (True, s') \<and> users_ready s' \<and>
    (\<forall>q. auth_authenticate username q s' =
      Some (if sha256_hash q = sha256_hash password then Some (role_number role) else None)) \<and>
    (\<forall>q. fits 32 q \<and> fits 32 password \<longrightarrow> auth_authenticate username q s' =
      Some (if q = password then Some (role_number role) else None)) \<and>
    (password = ''secret'' \<longrightarrow> auth_authenticate username secret_twin s' = Some (Some (role_number role))) \<and>
    (\<forall>v. v \<noteq> username \<longrightarrow> lookup_user v s' = lookup_user v s) \<and>
    distinct (active_names (user_scan s'))"
proof -
  obtain s' u where s': "auth_add_user username password role s = Some (True, s')" "users_ready s'"
    "users_of s' = users_of s @ [u]" "ur_username u = username" "ur_role u = role"
    "ur_password_hash u = sha256_hash password" "ur_is_active u = 1"
    using auth_add_user_new [OF assms(1-5)] by blast
  have look: "lookup_user v s' = (if v = username then Some u else lookup_user v s)" for v
    using assms(4) s'
    by (auto simp: lookup_user_def user_scan_ready [OF assms(1)] user_scan_ready [OF s'(2)]
        find_user_append split: option.splits)
  have login: "auth_authenticate username q s' = Some (if sha256_hash q = sha256_hash password then Some (role_number role) else None)" for q
    using s' look by (auto simp: auth_authenticate_lookup take_64_hash)
  moreover have "sha256_hash q = sha256_hash password \<longleftrightarrow> q = password" if "fits 32 q \<and> fits 32 password" for q
    using that unhash_hash_bytes by (metis fits_def sha256_hash_eq_iff)
  moreover have "distinct (active_names (user_scan s'))"
    using assms(4,6) s'
    by (simp add: user_scan_ready [OF assms(1)] user_scan_ready [OF s'(2)] lookup_user_def find_user_None)
      (simp add: active_names_def)
  ultimately show ?thesis using s' look secret_twin_hash(1) by (intro exI [of _ s']) simp
qed

text \<open>
  Registering a name that an active user has is refused and changes nothing.
\<close>

theorem register_existing_refused:
  assumes "lookup_user username s = Some u"
  shows "auth_add_user username password role s = Some (False, s)"
proof -
  from assms have "username \<in> set (active_names (user_scan s))"
    using find_user_None [of username "user_scan s"] by (auto simp: lookup_user_def)
  then have "count_users username 0 (user_scan s) = None" by (simp add: count_users_None)
  then show ?thesis by (simp add: auth_add_user_def)
qed

text \<open>
  C33: promoting an existing user stores the new role in that user's record and nothing else: the
  password stays valid and gives the new role, and every other name keeps its record.
\<close>

theorem promote_changes_one_role:
  assumes "users_ready s" "lookup_user username s = Some u" "fits MAX_ROLE_LEN role"
  shows "\<exists>s'. auth_promote_user username role s = (True, s') \<and> users_ready s' \<and>
    lookup_user username s' = Some (u\<lparr>ur_role := role\<rparr>) \<and>
    (\<forall>v. v \<noteq> username \<longrightarrow> lookup_user v s' = lookup_user v s) \<and>
    active_names (user_scan s') = active_names (user_scan s)"
proof -
  let ?u = "u\<lparr>ur_role := role\<rparr>"
  have u: "user_record_ok ?u" "ur_is_active ?u \<noteq> 0" "ur_username ?u = username"
    using lookup_user_ok [OF assms(1,2)] assms(2,3)
    by (auto simp: user_record_ok_def lookup_user_def dest: find_user_Some)
  obtain k where at: "find_user_at username 0 (users_of s) = Some (k, u)"
    using assms(2) find_user_at_None [of username 0 "users_of s"] find_user_at_Some [of username 0 "users_of s"]
    by (fastforce simp: lookup_user_def user_scan_ready [OF assms(1)])
  then have k: "k < length (users_of s)" "users_of s ! k = u" using find_user_at_Some by fastforce+
  let ?s = "s\<lparr>users_bin := overwrite 0 (k * USER_RECORD_SIZE) (enc_user ?u) (users_bin s)\<rparr>"
  have rs: "users_of ?s = (users_of s)[k := ?u]"
    using user_file.records_write [OF u(1), of k "users_bin s"] k(1) by simp
  have "auth_promote_user username role s = (True, ?s)"
    using assms(1,3) at put_user_full [of s ?u] u(1)
    by (simp add: auth_promote_user_def user_scan_ready [OF assms(1)] users_ready_def fits_def)
  moreover have ready: "users_ready ?s"
    using assms(1) u(1) rs user_file.dvd_write [OF u(1)] k(1)
    by (auto simp: users_ready_def dest: set_update_subset_insert [THEN subsetD])
  moreover have "lookup_user v ?s = (if v = username then Some ?u else lookup_user v s)" for v
    using find_user_update [OF at u(2,3)] rs
    by (simp add: lookup_user_def user_scan_ready [OF ready] user_scan_ready [OF assms(1)])
  moreover have "active_names (user_scan ?s) = active_names (user_scan s)"
    using active_names_update [OF k(1), of ?u] k(2) rs
    by (simp add: user_scan_ready [OF ready] user_scan_ready [OF assms(1)])
  ultimately show ?thesis by auto
qed

text \<open>
  On a first start, when there is no user file, \<open>auth_init\<close> creates one in which the default
  administrator, and nobody else, can log in.
\<close>

theorem auth_init_creates_admin:
  assumes "disk s = []" "users_bin s = []" "fd \<noteq> - 1"
  shows "\<exists>s'. auth_init (- 1) fd s = Inr s' \<and> users_ready s' \<and>
    auth_authenticate ''admin'' ''admin123'' s' = Some (Some ROLE_ADMIN) \<and>
    (\<forall>v. v \<noteq> ''admin'' \<longrightarrow> lookup_user v s' = None)"
proof -
  let ?s = "s\<lparr>users_fd := fd, users_bin := enc_user admin_record\<rparr>"
  have ok: "user_record_ok admin_record"
    by (simp add: user_record_ok_def admin_record_def in_i32_def fits_def)
  have rs: "users_of ?s = [admin_record]"
    using user_file.records_append [OF ok, of "[]"] by (simp add: file_records_def)
  then have ready: "users_ready ?s"
    using assms ok user_file.enc_length [OF ok] by (simp add: users_ready_def)
  have look: "lookup_user v ?s = (if v = ''admin'' then Some admin_record else None)" for v
    using rs assms(3) by (simp add: lookup_user_def user_scan_def admin_record_def)
  have "auth_init (- 1) fd s = Inr ?s"
    using assms put_user_full [of "s\<lparr>users_fd := fd\<rparr>" admin_record 0] ok
    by (simp add: auth_init_def overwrite_Nil)
  moreover have "auth_authenticate ''admin'' ''admin123'' ?s = Some (Some ROLE_ADMIN)"
    by (simp add: auth_authenticate_lookup [OF ready] look)
      (simp add: admin_record_def role_number_def)
  ultimately show ?thesis using ready look by auto
qed

text \<open>
  The permission table: everybody may log in and out, join, leave, list and ask for the status;
  creating, kicking and muting need an administrator or a moderator, promoting an administrator,
  and no other command number is allowed to anybody.
\<close>

theorem auth_check_permission_table:
  "auth_check_permission role command \<longleftrightarrow>
    command \<in> {CMD_LOGIN, CMD_LOGOUT, CMD_JOIN, CMD_LEAVE, CMD_LIST, CMD_STATUS} \<or>
    command = CMD_PROMOTE \<and> role = ROLE_ADMIN \<or>
    command \<in> {CMD_CREATE, CMD_KICK, CMD_MUTE} \<and> role \<in> {ROLE_ADMIN, ROLE_MODERATOR}"
  by (auto simp: auth_check_permission_def)

section \<open>Witnesses\<close>

definition example_users :: file_db where
  "example_users = example_db\<lparr>users_bin := enc_user admin_record\<rparr>"

lemma example_users_facts:
  "users_of example_users = [admin_record]" "users_ready example_users"
  "lookup_user v example_users = (if v = ''admin'' then Some admin_record else None)"
proof -
  have ok: "user_record_ok admin_record"
    by (simp add: user_record_ok_def admin_record_def in_i32_def fits_def)
  show rs: "users_of example_users = [admin_record]"
    using user_file.records_append [OF ok, of "[]"] by (simp add: file_records_def example_users_def)
  then show "users_ready example_users"
    using ok user_file.enc_length [OF ok] by (simp add: users_ready_def example_users_def example_db_def)
  show "lookup_user v example_users = (if v = ''admin'' then Some admin_record else None)"
    using rs by (simp add: lookup_user_def user_scan_def admin_record_def)
      (simp add: example_users_def example_db_def)
qed

theorem auth_authenticate_correct_witness:
  "auth_authenticate ''admin'' ''admin123'' example_users = Some (Some ROLE_ADMIN) \<and>
    auth_authenticate ''admin'' ''admin124'' example_users \<noteq> Some (Some ROLE_ADMIN)"
proof -
  have "take 64 (sha256_hash ''admin123'') \<noteq> take 64 (sha256_hash ''admin124'')"
    using sha256_hash_inj_short [of "''admin123''" "''admin124''"] by (simp add: take_64_hash)
  then show ?thesis
    unfolding auth_authenticate_correct [OF example_users_facts(2), THEN conjunct2] example_users_facts(1)
    by (simp add: admin_record_def)
qed

theorem register_then_login_witness:
  "\<exists>s'. auth_add_user ''user1'' ''secret'' ''USER'' example_users = Some (True, s') \<and>
    auth_authenticate ''user1'' ''secret'' s' = Some (Some ROLE_USER) \<and>
    auth_authenticate ''user1'' ''secrex'' s' = Some None \<and>
    auth_authenticate ''user1'' secret_twin s' = Some (Some ROLE_USER)"
proof -
  have "length (users_of example_users) < 2 ^ 31" unfolding example_users_facts(1) by simp
  moreover have "distinct (active_names (user_scan example_users))"
    unfolding user_scan_ready [OF example_users_facts(2)] example_users_facts(1) by (simp add: active_names_def)
  ultimately obtain s' where "auth_add_user ''user1'' ''secret'' ''USER'' example_users = Some (True, s')"
    "\<forall>q. fits 32 q \<and> fits 32 ''secret'' \<longrightarrow> auth_authenticate ''user1'' q s' =
      Some (if q = ''secret'' then Some (role_number ''USER'') else None)"
    "auth_authenticate ''user1'' secret_twin s' = Some (Some (role_number ''USER''))"
    using register_then_login [OF example_users_facts(2), of "''user1''" "''USER''" "''secret''"] example_users_facts(3)
    by (auto simp: fits_def)
  then show ?thesis by (intro exI [of _ s']) (simp add: fits_def role_number_def)
qed

theorem register_existing_refused_witness:
  "auth_add_user ''admin'' ''x'' ''USER'' example_users = Some (False, example_users)"
  by (rule register_existing_refused [where u = admin_record]) (simp add: example_users_facts(3))

theorem promote_changes_one_role_witness:
  "\<exists>s'. auth_promote_user ''admin'' ''USER'' example_users = (True, s') \<and> users_ready s' \<and>
    lookup_user ''admin'' s' = Some (admin_record\<lparr>ur_role := ''USER''\<rparr>) \<and>
    (\<forall>v. v \<noteq> ''admin'' \<longrightarrow> lookup_user v s' = lookup_user v example_users) \<and>
    active_names (user_scan s') = active_names (user_scan example_users)"
  by (rule promote_changes_one_role [OF example_users_facts(2)])
    (simp_all add: example_users_facts(3) fits_def)

theorem auth_init_creates_admin_witness:
  "\<exists>s'. auth_init (- 1) 5 example_db = Inr s' \<and> users_ready s' \<and>
    auth_authenticate ''admin'' ''admin123'' s' = Some (Some ROLE_ADMIN) \<and>
    (\<forall>v. v \<noteq> ''admin'' \<longrightarrow> lookup_user v s' = None)"
  by (rule auth_init_creates_admin) (simp_all add: example_db_def)

end
