(* ===== verification/Bounded_Fifo.thy ===== *)
theory Bounded_Fifo
  imports Vox_Prelude
begin

text \<open>
  Two interfaces that several components share. The locale \<open>bounded_fifo\<close> is the contract of a
  bounded queue that refuses an element when it is full; the audio ring of \<open>ipc_manager.c\<close> and the
  task queue of \<open>client_handler.c\<close> are interpreted as such queues. The locale
  \<open>invariant_system\<close> is the rule for invariants of a step relation. In between stand the facts on
  circular arrays that both queues use.
\<close>

section \<open>Circular arrays\<close>

definition ring_items :: "nat \<Rightarrow> 'a list \<Rightarrow> nat \<Rightarrow> nat \<Rightarrow> 'a list" where
  "ring_items cap arr head n = map (\<lambda>k. arr ! ((head + k) mod cap)) [0..<n]"

lemma length_ring_items [simp]: "length (ring_items cap arr head n) = n"
  by (simp add: ring_items_def)

lemma ring_items_0 [simp]: "ring_items cap arr head 0 = []"
  by (simp add: ring_items_def)

lemma mod_cancel_le:
  fixes a :: nat
  assumes "(h + a) mod c = (h + b) mod c" "b \<le> a" "a < c"
  shows "a = b"
proof -
  obtain q where q: "h + a = h + b + c * q"
    using mod_eq_nat1E [OF assms(1)] assms(2) by auto
  with assms(3) have "q = 0" by (cases q) auto
  with q show ?thesis by simp
qed

lemma mod_cancel_less:
  fixes a :: nat
  assumes "(h + a) mod c = (h + b) mod c" "a < c" "b < c"
  shows "a = b"
  using mod_cancel_le [OF assms(1)] mod_cancel_le [OF assms(1) [symmetric]] assms(2,3)
  by (cases "b \<le> a") auto

lemma ring_items_push:
  assumes "length arr = cap" "n < cap"
  shows "ring_items cap (arr[(head + n) mod cap := x]) head (Suc n) = ring_items cap arr head n @ [x]"
proof -
  have "arr[(head + n) mod cap := x] ! ((head + k) mod cap) = arr ! ((head + k) mod cap)"
    if "k < n" for k
  proof -
    have "(head + n) mod cap \<noteq> (head + k) mod cap"
      using that assms(2) mod_cancel_less [of head n cap k] by auto
    then show ?thesis by simp
  qed
  moreover have "(head + n) mod cap < length arr" using assms by simp
  ultimately show ?thesis by (simp add: ring_items_def)
qed

lemma ring_items_pop:
  assumes "0 < n" "head < cap"
  shows "ring_items cap arr head n = arr ! head # ring_items cap arr ((head + 1) mod cap) (n - 1)"
proof (rule nth_equalityI)
  fix k assume "k < length (ring_items cap arr head n)"
  then have k: "k < n" by simp
  show "ring_items cap arr head n ! k =
      (arr ! head # ring_items cap arr ((head + 1) mod cap) (n - 1)) ! k"
  proof (cases k)
    case 0
    with assms show ?thesis by (simp add: ring_items_def)
  next
    case (Suc j)
    with k have "[0..<n - 1] ! j = j" by simp
    with Suc k show ?thesis by (simp add: ring_items_def mod_simps)
  qed
qed (use assms in simp)

section \<open>Bounded queues\<close>

datatype 'a fifo_op = Push 'a | Pop

text \<open>
  A run of pushes and pops: the elements that were accepted and those that came out, in order, and
  the queue at the end. \<open>None\<close> when an operation is undefined.
\<close>

fun fifo_run :: "('a \<Rightarrow> 'q \<Rightarrow> (bool \<times> 'q) option) \<Rightarrow> ('q \<Rightarrow> ('a option \<times> 'q) option) \<Rightarrow>
    'a fifo_op list \<Rightarrow> 'q \<Rightarrow> ('a list \<times> 'a list \<times> 'q) option" where
  "fifo_run push pop [] q = Some ([], [], q)"
| "fifo_run push pop (Push x # ops) q =
     (case push x q of
        None \<Rightarrow> None
      | Some (ok, q1) \<Rightarrow>
          (case fifo_run push pop ops q1 of
             None \<Rightarrow> None
           | Some (ins, outs, q2) \<Rightarrow> Some (if ok then x # ins else ins, outs, q2)))"
| "fifo_run push pop (Pop # ops) q =
     (case pop q of
        None \<Rightarrow> None
      | Some (r, q1) \<Rightarrow>
          (case fifo_run push pop ops q1 of
             None \<Rightarrow> None
           | Some (ins, outs, q2) \<Rightarrow>
               Some (ins, (case r of None \<Rightarrow> outs | Some x \<Rightarrow> x # outs), q2)))"

text \<open>
  The specification: the same run on a list. A push is accepted exactly when there are fewer than
  \<open>cap\<close> elements and then goes to the end, a pop takes the first element.
\<close>

fun fifo_spec :: "nat \<Rightarrow> 'a fifo_op list \<Rightarrow> 'a list \<Rightarrow> 'a list \<times> 'a list \<times> 'a list" where
  "fifo_spec cap [] xs = ([], [], xs)"
| "fifo_spec cap (Push x # ops) xs =
     (if length xs < cap then (let (ins, outs, ys) = fifo_spec cap ops (xs @ [x]) in (x # ins, outs, ys))
      else fifo_spec cap ops xs)"
| "fifo_spec cap (Pop # ops) xs =
     (case xs of [] \<Rightarrow> fifo_spec cap ops []
      | x # xs' \<Rightarrow> (let (ins, outs, ys) = fifo_spec cap ops xs' in (ins, x # outs, ys)))"

text \<open>
  Nothing is lost, duplicated or reordered: what was in the list followed by what was accepted is
  what came out followed by what is left.
\<close>

lemma fifo_spec_order: "fifo_spec cap ops xs = (ins, outs, ys) \<Longrightarrow> xs @ ins = outs @ ys"
proof (induction cap ops xs arbitrary: ins outs ys rule: fifo_spec.induct)
  case (2 cap x ops xs)
  then show ?case by (fastforce split: if_splits prod.splits)
qed (auto split: list.splits prod.splits)

locale bounded_fifo =
  fixes cap :: nat
    and items :: "'q \<Rightarrow> 'a list"
    and invar :: "'q \<Rightarrow> bool"
    and push :: "'a \<Rightarrow> 'q \<Rightarrow> (bool \<times> 'q) option"
    and pop :: "'q \<Rightarrow> ('a option \<times> 'q) option"
  assumes within_cap: "invar q \<Longrightarrow> length (items q) \<le> cap"
    and push_full: "invar q \<Longrightarrow> length (items q) = cap \<Longrightarrow> push x q = Some (False, q)"
    and push_space: "invar q \<Longrightarrow> length (items q) < cap \<Longrightarrow>
      \<exists>q'. push x q = Some (True, q') \<and> invar q' \<and> items q' = items q @ [x]"
    and pop_empty: "invar q \<Longrightarrow> items q = [] \<Longrightarrow> pop q = Some (None, q)"
    and pop_first: "invar q \<Longrightarrow> items q = x # xs \<Longrightarrow>
      \<exists>q'. pop q = Some (Some x, q') \<and> invar q' \<and> items q' = xs"
begin

lemma push_cases:
  assumes "invar q"
  obtains "length (items q) = cap" "push x q = Some (False, q)"
  | q' where "length (items q) < cap" "push x q = Some (True, q')" "invar q'" "items q' = items q @ [x]"
  using within_cap [OF assms] push_full [OF assms] push_space [OF assms] by (metis le_less)

lemma pop_cases:
  assumes "invar q"
  obtains "items q = []" "pop q = Some (None, q)"
  | x xs q' where "items q = x # xs" "pop q = Some (Some x, q')" "invar q'" "items q' = xs"
  using pop_empty [OF assms] pop_first [OF assms] by (metis neq_Nil_conv)

text \<open>Every run is defined and does what the list does.\<close>

lemma run_refines:
  assumes "invar q" "fifo_spec cap ops (items q) = (ins, outs, xs)"
  shows "\<exists>q'. fifo_run push pop ops q = Some (ins, outs, q') \<and> invar q' \<and> items q' = xs"
  using assms
proof (induction ops arbitrary: q ins outs)
  case Nil
  then show ?case by simp
next
  case (Cons op ops)
  show ?case
  proof (cases op)
    case (Push x)
    from Cons.prems(1) show ?thesis
    proof (cases rule: push_cases [where x = x])
      case 1
      with Cons Push show ?thesis by fastforce
    next
      case (2 q1)
      with Cons.IH [of q1] Cons.prems(2) Push show ?thesis by (fastforce split: prod.splits)
    qed
  next
    case Pop
    from Cons.prems(1) show ?thesis
    proof (cases rule: pop_cases)
      case 1
      with Cons Pop show ?thesis by fastforce
    next
      case (2 x ys q1)
      with Cons.IH [of q1] Cons.prems(2) Pop show ?thesis by (fastforce split: prod.splits)
    qed
  qed
qed

lemma run_fifo:
  assumes "invar q"
  shows "\<exists>ins outs q'. fifo_run push pop ops q = Some (ins, outs, q') \<and> invar q' \<and>
    items q @ ins = outs @ items q'"
proof -
  obtain ins outs xs where "fifo_spec cap ops (items q) = (ins, outs, xs)" by (metis prod.exhaust)
  with run_refines [OF assms this] fifo_spec_order [OF this] show ?thesis by blast
qed

end

section \<open>Invariants of step relations\<close>

inductive reachable :: "('s \<Rightarrow> bool) \<Rightarrow> ('s \<Rightarrow> 's \<Rightarrow> bool) \<Rightarrow> 's \<Rightarrow> bool" for init step where
  reach_init: "init s \<Longrightarrow> reachable init step s"
| reach_step: "reachable init step s \<Longrightarrow> step s t \<Longrightarrow> reachable init step t"

locale invariant_system =
  fixes init :: "'s \<Rightarrow> bool"
    and step :: "'s \<Rightarrow> 's \<Rightarrow> bool"
    and inv :: "'s \<Rightarrow> bool"
  assumes inv_init: "init s \<Longrightarrow> inv s"
    and inv_step: "inv s \<Longrightarrow> step s t \<Longrightarrow> inv t"
begin

lemma reachable_inv: "reachable init step s \<Longrightarrow> inv s"
  by (induction rule: reachable.induct) (blast intro: inv_init inv_step)+

end

end
