(* ===== verification/Ipc_Manager.thy ===== *)
theory Ipc_Manager
  imports Protocol Bounded_Fifo
begin

text \<open>
  \<open>src/src/server/ipc_manager.c\<close>: the ring of audio packets with its two counting semaphores, and the
  emergency FIFO. Run one call after the other, the ring is interpreted as a bounded queue. Its two
  users are different threads (the network thread pushes, the mixer pops), so the calls are modelled
  a second time as steps of two threads that interleave at every semaphore and mutex operation.
\<close>

section \<open>Definitions\<close>

record ipc =
  shm_ring :: ring_buffer
  ring_empty :: nat \<comment> \<open>the value of the semaphore\<close>
  ring_full :: nat

definition zero_packet :: audio_packet where
  "zero_packet = \<lparr>ap_room_id = 0, ap_sender_id = 0, ap_seq_num = 0, ap_timestamp = 0,
     ap_payload_size = 0, ap_payload = replicate AUDIO_PAYLOAD_SIZE 0\<rparr>"

definition ring_zero :: ipc where
  "ring_zero = \<lparr>shm_ring = \<lparr>rb_packets = replicate RING_BUFFER_CAPACITY zero_packet,
     rb_head = 0, rb_tail = 0, rb_count = 0\<rparr>,
     ring_empty = RING_BUFFER_CAPACITY, ring_full = 0\<rparr>"

text \<open>
  \<open>ipc_manager_init\<close> with the outcomes of \<open>shm_open\<close>, \<open>ftruncate\<close>, \<open>mmap\<close>, \<open>mkfifo\<close> and the \<open>open\<close> of
  the FIFO: the exit code, or the ring and whether the FIFO thread was started.
\<close>

definition ipc_manager_init :: "bool \<Rightarrow> bool \<Rightarrow> bool \<Rightarrow> bool \<Rightarrow> bool \<Rightarrow> int + ipc \<times> bool" where
  "ipc_manager_init shm_open_ok ftruncate_ok mmap_ok mkfifo_ok open_ok =
     (if \<not> shm_open_ok then Inl 1
      else if \<not> ftruncate_ok then Inl 1
      else if \<not> mmap_ok then Inl 1
      else Inr (ring_zero, mkfifo_ok \<and> open_ok))"

text \<open>The part of a push and of a pop that runs under \<open>ring_mutex\<close>.\<close>

definition ring_put :: "audio_packet \<Rightarrow> ring_buffer \<Rightarrow> ring_buffer option" where
  "ring_put pkt r =
     do { packets \<leftarrow> arr_set (rb_packets r) (unat (rb_tail r)) pkt;
          Some (r\<lparr>rb_packets := packets,
                  rb_tail := (rb_tail r + 1) mod of_nat RING_BUFFER_CAPACITY,
                  rb_count := rb_count r + 1\<rparr>) }"

definition ring_take :: "ring_buffer \<Rightarrow> (audio_packet \<times> ring_buffer) option" where
  "ring_take r =
     do { pkt \<leftarrow> arr_get (rb_packets r) (unat (rb_head r));
          Some (pkt, r\<lparr>rb_head := (rb_head r + 1) mod of_nat RING_BUFFER_CAPACITY,
                       rb_count := rb_count r - 1\<rparr>) }"

definition ring_buffer_push :: "audio_packet \<Rightarrow> ipc \<Rightarrow> (bool \<times> ipc) option" where
  "ring_buffer_push pkt s =
     (if ring_empty s = 0 then Some (False, s)
      else do { r \<leftarrow> ring_put pkt (shm_ring s);
                Some (True, s\<lparr>shm_ring := r, ring_empty := ring_empty s - 1,
                             ring_full := ring_full s + 1\<rparr>) })"

definition ring_buffer_pop :: "ipc \<Rightarrow> (audio_packet option \<times> ipc) option" where
  "ring_buffer_pop s =
     (if ring_full s = 0 then Some (None, s)
      else do { (pkt, r) \<leftarrow> ring_take (shm_ring s);
                Some (Some pkt, s\<lparr>shm_ring := r, ring_full := ring_full s - 1,
                                 ring_empty := ring_empty s + 1\<rparr>) })"

text \<open>
  The emergency FIFO: the bytes of one \<open>read\<close>, cut behind the last character that is no newline,
  carriage return or blank, and compared with the command. \<open>Some []\<close> is the end of the file,
  \<open>None\<close> a failed read.
\<close>

definition is_trailing :: "char \<Rightarrow> bool" where
  "is_trailing c \<longleftrightarrow> c = newline \<or> c = CHR 0x0D \<or> c = CHR '' ''"

definition strip_end :: "string \<Rightarrow> string" where
  "strip_end buf = rev (dropWhile is_trailing (rev buf))"

definition fifo_step :: "string option \<Rightarrow> bool \<Rightarrow> bool" where
  "fifo_step r server_on =
     (case r of
        Some (c # cs) \<Rightarrow> if c_string (strip_end (c # cs)) = ''SHUTDOWN'' then False else server_on
      | _ \<Rightarrow> server_on)"

text \<open>
  What the process gives back at its end, in order. \<open>ipc_manager_cleanup\<close> unmaps the ring when it is
  mapped and closes the FIFO when it is open; the semaphores and the name of the FIFO always go.
\<close>

datatype resource = Fd int | Shm string | Sem string | Mutex string | Path string

definition ipc_manager_cleanup :: "bool \<Rightarrow> int \<Rightarrow> resource list" where
  "ipc_manager_cleanup ring_mapped fifo_fd =
     (if ring_mapped then [Shm ''/echolink_ring''] else []) @ [Sem ''ring_empty'', Sem ''ring_full''] @
     (if fifo_fd \<noteq> - 1 then [Fd fifo_fd] else []) @ [Path ''/tmp/echolink_emergency'']"

section \<open>The ring as a bounded queue\<close>

definition ring_contents :: "ring_buffer \<Rightarrow> audio_packet list" where
  "ring_contents r =
     ring_items RING_BUFFER_CAPACITY (rb_packets r) (unat (rb_head r)) (unat (rb_count r))"

definition ring_ok :: "ring_buffer \<Rightarrow> bool" where
  "ring_ok r \<longleftrightarrow> length (rb_packets r) = RING_BUFFER_CAPACITY \<and>
     unat (rb_head r) < RING_BUFFER_CAPACITY \<and> unat (rb_count r) \<le> RING_BUFFER_CAPACITY \<and>
     unat (rb_tail r) = (unat (rb_head r) + unat (rb_count r)) mod RING_BUFFER_CAPACITY"

definition ipc_inv :: "ipc \<Rightarrow> bool" where
  "ipc_inv s \<longleftrightarrow> ring_ok (shm_ring s) \<and> ring_full s = unat (rb_count (shm_ring s)) \<and>
     ring_empty s + unat (rb_count (shm_ring s)) = RING_BUFFER_CAPACITY"

lemma unat_small:
  fixes w :: u32
  assumes "unat w \<le> 128"
  shows "unat (w + 1) = unat w + 1"
    and "unat ((w + 1) mod 128) = (unat w + 1) mod 128"
    and "0 < unat w \<Longrightarrow> unat (w - 1) = unat w - 1"
proof -
  show s: "unat (w + 1) = unat w + 1" using assms by (subst unat_add_lem [THEN iffD1]) simp_all
  then show "unat ((w + 1) mod 128) = (unat w + 1) mod 128" by (simp add: unat_mod)
  show "unat (w - 1) = unat w - 1" if "0 < unat w"
    using that by (metis One_nat_def unat_gt_0 unat_minus_one)
qed

lemma ring_put_ok:
  assumes "ring_ok r" "unat (rb_count r) < RING_BUFFER_CAPACITY"
  shows "\<exists>r'. ring_put pkt r = Some r' \<and> ring_ok r' \<and> ring_contents r' = ring_contents r @ [pkt] \<and>
    unat (rb_count r') = Suc (unat (rb_count r))"
proof -
  have t: "unat (rb_tail r) < 128" using assms by (simp add: ring_ok_def)
  have c: "unat (rb_count r + 1) = Suc (unat (rb_count r))"
    "unat ((rb_tail r + 1) mod 128) = (unat (rb_tail r) + 1) mod 128"
    using assms(2) t by (simp_all add: unat_small)
  show ?thesis
    using assms t c ring_items_push [of "rb_packets r" 128 "unat (rb_count r)" "unat (rb_head r)" pkt]
    by (simp add: ring_put_def ring_ok_def ring_contents_def mem_simps mod_simps)
qed

lemma ring_take_ok:
  assumes "ring_ok r" "0 < unat (rb_count r)"
  shows "\<exists>pkt r'. ring_take r = Some (pkt, r') \<and> ring_ok r' \<and> ring_contents r = pkt # ring_contents r' \<and>
    unat (rb_count r) = Suc (unat (rb_count r'))"
proof -
  have h: "unat (rb_head r) < 128" using assms(1) by (simp add: ring_ok_def)
  have c: "unat (rb_count r - 1) = unat (rb_count r) - 1"
    "unat ((rb_head r + 1) mod 128) = (unat (rb_head r) + 1) mod 128"
    using assms h by (simp_all add: unat_small ring_ok_def)
  have "((unat (rb_head r) + 1) mod 128 + (unat (rb_count r) - 1)) mod 128 =
      (unat (rb_head r) + 1 + (unat (rb_count r) - 1)) mod 128" by (rule mod_add_left_eq)
  also have "unat (rb_head r) + 1 + (unat (rb_count r) - 1) = unat (rb_head r) + unat (rb_count r)"
    using assms(2) by simp
  finally have "((unat (rb_head r) + 1) mod 128 + (unat (rb_count r) - 1)) mod 128 =
      (unat (rb_head r) + unat (rb_count r)) mod 128" .
  moreover have "unat (rb_count r) - Suc 0 \<le> 128" using assms(1) unfolding ring_ok_def by linarith
  ultimately show ?thesis
    using assms h c ring_items_pop [of "unat (rb_count r)" "unat (rb_head r)" 128 "rb_packets r"]
    by (simp add: ring_take_def ring_ok_def ring_contents_def mem_simps)
qed

interpretation audio_ring: bounded_fifo RING_BUFFER_CAPACITY "\<lambda>s. ring_contents (shm_ring s)" ipc_inv
  ring_buffer_push ring_buffer_pop
proof
  fix q :: ipc assume q: "ipc_inv q"
  have len: "length (ring_contents (shm_ring q)) = unat (rb_count (shm_ring q))"
    by (simp add: ring_contents_def)
  show "length (ring_contents (shm_ring q)) \<le> RING_BUFFER_CAPACITY"
    using q len by (simp add: ipc_inv_def)
  show "ring_buffer_push x q = Some (False, q)"
    if "length (ring_contents (shm_ring q)) = RING_BUFFER_CAPACITY" for x
    using q len that by (simp add: ipc_inv_def ring_buffer_push_def)
  show "\<exists>q'. ring_buffer_push x q = Some (True, q') \<and> ipc_inv q' \<and>
      ring_contents (shm_ring q') = ring_contents (shm_ring q) @ [x]"
    if "length (ring_contents (shm_ring q)) < RING_BUFFER_CAPACITY" for x
    using q len that ring_put_ok [of "shm_ring q" x] by (auto simp: ipc_inv_def ring_buffer_push_def)
  show "ring_buffer_pop q = Some (None, q)" if "ring_contents (shm_ring q) = []"
    using q len that by (simp add: ipc_inv_def ring_buffer_pop_def)
  show "\<exists>q'. ring_buffer_pop q = Some (Some x, q') \<and> ipc_inv q' \<and> ring_contents (shm_ring q') = xs"
    if "ring_contents (shm_ring q) = x # xs" for x xs
    using q len that ring_take_ok [of "shm_ring q"] by (auto simp: ipc_inv_def ring_buffer_pop_def)
qed

lemma ring_zero_inv: "ipc_inv ring_zero" "ring_contents (shm_ring ring_zero) = []"
  by (simp_all add: ipc_inv_def ring_ok_def ring_zero_def ring_contents_def)

text \<open>
  The audio ring is a bounded first-in first-out queue. From any consistent state, every
  sequence of pushes and pops stays inside the arrays, and the packets that were in the ring
  followed by the accepted ones are the popped ones followed by those still in the ring: no packet
  is lost, duplicated or reordered, and a push is refused only when 128 packets are waiting.
\<close>

theorem ring_buffer_fifo:
  assumes "ipc_inv s"
  shows "\<exists>ins outs s'. fifo_run ring_buffer_push ring_buffer_pop ops s = Some (ins, outs, s') \<and>
    ipc_inv s' \<and> ring_contents (shm_ring s) @ ins = outs @ ring_contents (shm_ring s') \<and>
    (\<forall>pkt. (\<exists>t. ring_buffer_push pkt s' = Some (False, t)) \<longleftrightarrow>
      length (ring_contents (shm_ring s')) = RING_BUFFER_CAPACITY)"
proof -
  obtain ins outs s' where s': "fifo_run ring_buffer_push ring_buffer_pop ops s = Some (ins, outs, s')"
    "ipc_inv s'" "ring_contents (shm_ring s) @ ins = outs @ ring_contents (shm_ring s')"
    using audio_ring.run_fifo [OF assms] by blast
  moreover have "(\<exists>t. ring_buffer_push pkt s' = Some (False, t)) \<longleftrightarrow>
      length (ring_contents (shm_ring s')) = RING_BUFFER_CAPACITY" for pkt
    using s'(2) by (cases rule: audio_ring.push_cases [where x = pkt]) auto
  ultimately show ?thesis by blast
qed

theorem ring_buffer_fifo_witness:
  "\<exists>ins outs s'. fifo_run ring_buffer_push ring_buffer_pop [Push zero_packet, Pop, Pop] ring_zero =
      Some (ins, outs, s') \<and>
    ipc_inv s' \<and> ring_contents (shm_ring ring_zero) @ ins = outs @ ring_contents (shm_ring s') \<and>
    (\<forall>pkt. (\<exists>t. ring_buffer_push pkt s' = Some (False, t)) \<longleftrightarrow>
      length (ring_contents (shm_ring s')) = RING_BUFFER_CAPACITY)"
  by (rule ring_buffer_fifo [OF ring_zero_inv(1)])

section \<open>The ring under interleaving\<close>

text \<open>
  The producer is idle, has passed \<open>sem_trywait(&ring_empty)\<close> with a packet, or has left the mutex
  and not yet posted \<open>ring_full\<close>; the consumer likewise. What runs under \<open>ring_mutex\<close> is one step.
  \<open>sent\<close> and \<open>received\<close> record the packets that passed the mutex on either side.
\<close>

datatype producer = P_idle | P_waited audio_packet | P_stored
datatype consumer = C_idle | C_waited | C_fetched

record ring_sys =
  sys_ipc :: ipc
  prod :: producer
  cons :: consumer
  sent :: "audio_packet list"
  received :: "audio_packet list"

definition ring_sys_init :: "ring_sys \<Rightarrow> bool" where
  "ring_sys_init s \<longleftrightarrow> s = \<lparr>sys_ipc = ring_zero, prod = P_idle, cons = C_idle, sent = [], received = []\<rparr>"

inductive ring_step :: "ring_sys \<Rightarrow> ring_sys \<Rightarrow> bool" where
  push_wait: "prod s = P_idle \<Longrightarrow> 0 < ring_empty (sys_ipc s) \<Longrightarrow>
    ring_step s (s\<lparr>prod := P_waited pkt,
      sys_ipc := (sys_ipc s)\<lparr>ring_empty := ring_empty (sys_ipc s) - 1\<rparr>\<rparr>)"
| push_store: "prod s = P_waited pkt \<Longrightarrow> ring_put pkt (shm_ring (sys_ipc s)) = Some r \<Longrightarrow>
    ring_step s (s\<lparr>prod := P_stored, sys_ipc := (sys_ipc s)\<lparr>shm_ring := r\<rparr>, sent := sent s @ [pkt]\<rparr>)"
| push_post: "prod s = P_stored \<Longrightarrow>
    ring_step s (s\<lparr>prod := P_idle,
      sys_ipc := (sys_ipc s)\<lparr>ring_full := ring_full (sys_ipc s) + 1\<rparr>\<rparr>)"
| pop_wait: "cons s = C_idle \<Longrightarrow> 0 < ring_full (sys_ipc s) \<Longrightarrow>
    ring_step s (s\<lparr>cons := C_waited,
      sys_ipc := (sys_ipc s)\<lparr>ring_full := ring_full (sys_ipc s) - 1\<rparr>\<rparr>)"
| pop_fetch: "cons s = C_waited \<Longrightarrow> ring_take (shm_ring (sys_ipc s)) = Some (pkt, r) \<Longrightarrow>
    ring_step s (s\<lparr>cons := C_fetched, sys_ipc := (sys_ipc s)\<lparr>shm_ring := r\<rparr>,
      received := received s @ [pkt]\<rparr>)"
| pop_post: "cons s = C_fetched \<Longrightarrow>
    ring_step s (s\<lparr>cons := C_idle,
      sys_ipc := (sys_ipc s)\<lparr>ring_empty := ring_empty (sys_ipc s) + 1\<rparr>\<rparr>)"

inductive_cases ring_step_elim: "ring_step s t"

definition waited :: "producer \<Rightarrow> nat" where
  "waited p = (case p of P_waited _ \<Rightarrow> 1 | _ \<Rightarrow> 0)"

text \<open>
  The semaphores count the free and the filled places, except for those that a thread has claimed
  and not yet used, or used and not yet posted.
\<close>

definition ring_sys_inv :: "ring_sys \<Rightarrow> bool" where
  "ring_sys_inv s \<longleftrightarrow>
     (let ring = shm_ring (sys_ipc s); n = unat (rb_count ring)
      in ring_ok ring \<and>
         ring_empty (sys_ipc s) + waited (prod s) + of_bool (cons s = C_fetched) + n = RING_BUFFER_CAPACITY \<and>
         ring_full (sys_ipc s) + of_bool (prod s = P_stored) + of_bool (cons s = C_waited) = n \<and>
         sent s = received s @ ring_contents ring)"

lemma ring_step_inv:
  assumes "ring_step s t" "ring_sys_inv s"
  shows "ring_sys_inv t"
  using assms
proof (induction rule: ring_step.induct)
  case (push_store s pkt r)
  then have "unat (rb_count (shm_ring (sys_ipc s))) < 128" "ring_ok (shm_ring (sys_ipc s))"
    by (auto simp: ring_sys_inv_def waited_def Let_def)
  with push_store ring_put_ok [of "shm_ring (sys_ipc s)" pkt] show ?case
    by (auto simp: ring_sys_inv_def waited_def Let_def)
next
  case (pop_fetch s pkt r)
  then have "0 < unat (rb_count (shm_ring (sys_ipc s)))" "ring_ok (shm_ring (sys_ipc s))"
    by (auto simp: ring_sys_inv_def Let_def)
  with pop_fetch ring_take_ok [of "shm_ring (sys_ipc s)"] show ?case
    by (auto simp: ring_sys_inv_def Let_def)
qed (auto simp: ring_sys_inv_def waited_def Let_def)

interpretation ring_threads: invariant_system ring_sys_init ring_step ring_sys_inv
proof
  show "ring_sys_inv s" if "ring_sys_init s" for s
    using that ring_zero_inv by (auto simp: ring_sys_init_def ring_sys_inv_def waited_def Let_def ipc_inv_def)
  show "ring_sys_inv t" if "ring_sys_inv s" "ring_step s t" for s t
    using that ring_step_inv by blast
qed

text \<open>
  C9: however the pushing and the popping thread interleave, a thread that has passed its semaphore
  is never stuck on a full or empty ring and never leaves the array, the ring never holds more than
  128 packets, and the packets received are a prefix of the packets sent, in order.
\<close>

theorem ring_interleaving_safe:
  assumes "reachable ring_sys_init ring_step s"
  shows "(\<forall>pkt. prod s = P_waited pkt \<longrightarrow> (\<exists>r. ring_put pkt (shm_ring (sys_ipc s)) = Some r)) \<and>
    (cons s = C_waited \<longrightarrow> (\<exists>pkt r. ring_take (shm_ring (sys_ipc s)) = Some (pkt, r) \<and>
       sent s ! length (received s) = pkt)) \<and>
    length (ring_contents (shm_ring (sys_ipc s))) \<le> RING_BUFFER_CAPACITY \<and>
    sent s = received s @ ring_contents (shm_ring (sys_ipc s))"
proof -
  let ?r = "shm_ring (sys_ipc s)"
  have inv: "ring_sys_inv s" by (rule ring_threads.reachable_inv [OF assms])
  then have ok: "ring_ok ?r" "sent s = received s @ ring_contents ?r"
    by (simp_all add: ring_sys_inv_def Let_def)
  have "\<exists>r. ring_put pkt ?r = Some r" if "prod s = P_waited pkt" for pkt
    using that inv ring_put_ok [OF ok(1), of pkt] by (auto simp: ring_sys_inv_def waited_def Let_def)
  moreover have "\<exists>pkt r. ring_take ?r = Some (pkt, r) \<and> sent s ! length (received s) = pkt"
    if "cons s = C_waited"
  proof -
    from that inv have "0 < unat (rb_count ?r)" by (simp add: ring_sys_inv_def Let_def)
    with ring_take_ok [OF ok(1)] ok(2) show ?thesis by fastforce
  qed
  moreover have "length (ring_contents ?r) \<le> RING_BUFFER_CAPACITY"
    using ok(1) by (simp add: ring_contents_def ring_ok_def)
  ultimately show ?thesis using ok(2) by blast
qed

lemma reachable_first_push:
  "reachable ring_sys_init ring_step \<lparr>sys_ipc = ring_zero\<lparr>ring_empty := 127\<rparr>,
     prod = P_waited zero_packet, cons = C_idle, sent = [], received = []\<rparr>"
proof -
  let ?s = "\<lparr>sys_ipc = ring_zero, prod = P_idle, cons = C_idle, sent = [], received = []\<rparr>"
  have "reachable ring_sys_init ring_step ?s" by (rule reach_init) (simp add: ring_sys_init_def)
  moreover have "ring_step ?s \<lparr>sys_ipc = ring_zero\<lparr>ring_empty := 127\<rparr>,
      prod = P_waited zero_packet, cons = C_idle, sent = [], received = []\<rparr>"
    using push_wait [of ?s zero_packet] by (simp add: ring_zero_def)
  ultimately show ?thesis by (rule reach_step)
qed

theorem ring_interleaving_safe_witness:
  "(\<exists>r. ring_put zero_packet (shm_ring ring_zero) = Some r) \<and>
    length (ring_contents (shm_ring ring_zero)) \<le> RING_BUFFER_CAPACITY \<and>
    [] = [] @ ring_contents (shm_ring ring_zero)"
  using ring_interleaving_safe [OF reachable_first_push] by simp

section \<open>The emergency FIFO\<close>

text \<open>
  A message on the emergency FIFO stops the server exactly when it is the word SHUTDOWN followed
  only by newlines, carriage returns and blanks; an empty or failed read never stops it.
\<close>

theorem fifo_step_shutdown:
  assumes "nul \<notin> set buf"
  shows "fifo_step (Some buf) True = False \<longleftrightarrow>
    (\<exists>w. buf = ''SHUTDOWN'' @ w \<and> (\<forall>c \<in> set w. is_trailing c))"
proof -
  have "c_string (strip_end buf) = strip_end buf"
    using assms set_dropWhileD [of _ is_trailing "rev buf"]
    by (auto simp: c_string_def strip_end_def takeWhile_eq_all_conv)
  then have stop: "fifo_step (Some buf) True = False \<longleftrightarrow> strip_end buf = ''SHUTDOWN''"
    by (cases buf) (auto simp: fifo_step_def, simp add: strip_end_def)
  have split: "buf = strip_end buf @ rev (takeWhile is_trailing (rev buf))"
    unfolding strip_end_def by (metis rev_append rev_rev_ident takeWhile_dropWhile_id)
  show ?thesis
  proof
    assume "fifo_step (Some buf) True = False"
    then have "buf = ''SHUTDOWN'' @ rev (takeWhile is_trailing (rev buf))" using split stop by simp
    then show "\<exists>w. buf = ''SHUTDOWN'' @ w \<and> (\<forall>c \<in> set w. is_trailing c)"
      by (metis set_rev set_takeWhileD)
  next
    assume "\<exists>w. buf = ''SHUTDOWN'' @ w \<and> (\<forall>c \<in> set w. is_trailing c)"
    then obtain w where w: "buf = ''SHUTDOWN'' @ w" "\<forall>c \<in> set w. is_trailing c" by blast
    then have "dropWhile is_trailing (rev buf) = dropWhile is_trailing (rev ''SHUTDOWN'')"
      using dropWhile_append2 [of "rev w" is_trailing] by (simp only: rev_append set_rev)
    then have "strip_end buf = ''SHUTDOWN''" by (simp add: strip_end_def is_trailing_def)
    with stop show "fifo_step (Some buf) True = False" by blast
  qed
qed

theorem fifo_step_shutdown_witness:
  "fifo_step (Some (''SHUTDOWN'' @ [newline])) True = False \<longleftrightarrow>
    (\<exists>w. ''SHUTDOWN'' @ [newline] = ''SHUTDOWN'' @ w \<and> (\<forall>c \<in> set w. is_trailing c))"
  by (rule fifo_step_shutdown) simp

end
