(* ===== verification/Reorder_Buffer.thy ===== *)
theory Reorder_Buffer
  imports Vox_Prelude "HOL-Library.Multiset"
begin

text \<open>
  The interface between a buffer that puts packets in order and the code that fills and drains it:
  a multiset of bounded size, of which a push into a full buffer gives up a least element and a pop
  takes a least element, once enough has been gathered. The order is meaningful for the elements of
  a window only. The jitter buffers of the audio mixer provide it.
\<close>

section \<open>Sequences of operations\<close>

fun push_list :: "('p \<Rightarrow> 'b \<Rightarrow> 'b option) \<Rightarrow> 'p list \<Rightarrow> 'b \<Rightarrow> 'b option" where
  "push_list push [] b = Some b"
| "push_list push (p # ps) b = Option.bind (push p b) (push_list push ps)"

fun pop_list :: "('b \<Rightarrow> 'e option \<times> 'b) \<Rightarrow> nat \<Rightarrow> 'b \<Rightarrow> 'e option list \<times> 'b" where
  "pop_list pop 0 b = ([], b)"
| "pop_list pop (Suc n) b = (let (e, b1) = pop b; (es, b2) = pop_list pop n b1 in (e # es, b2))"

text \<open>
  Arrivals and requests to play in any order: what was played, and the buffer at the end. \<open>in_time\<close> says
  that whenever something arrives fewer than \<open>cap\<close> are waiting and nothing later has been played yet;
  \<open>m\<close> is the key of what was played last.
\<close>

datatype 'p buffer_op = Arrive 'p | Play

fun arrivals :: "'p buffer_op list \<Rightarrow> 'p list" where
  "arrivals [] = []"
| "arrivals (Arrive p # ops) = p # arrivals ops"
| "arrivals (Play # ops) = arrivals ops"

fun buffer_run :: "('p \<Rightarrow> 'b \<Rightarrow> 'b option) \<Rightarrow> ('b \<Rightarrow> 'e option \<times> 'b) \<Rightarrow> 'p buffer_op list \<Rightarrow> 'b \<Rightarrow>
    ('e list \<times> 'b) option" where
  "buffer_run push pop [] b = Some ([], b)"
| "buffer_run push pop (Arrive p # ops) b = Option.bind (push p b) (buffer_run push pop ops)"
| "buffer_run push pop (Play # ops) b =
     (let (r, b1) = pop b
      in map_option (\<lambda>(es, b2). ((case r of None \<Rightarrow> es | Some e \<Rightarrow> e # es), b2)) (buffer_run push pop ops b1))"

fun in_time :: "nat \<Rightarrow> ('b \<Rightarrow> nat) \<Rightarrow> ('p \<Rightarrow> nat) \<Rightarrow> ('e \<Rightarrow> nat) \<Rightarrow> ('p \<Rightarrow> 'b \<Rightarrow> 'b option) \<Rightarrow> ('b \<Rightarrow> 'e option \<times> 'b) \<Rightarrow>
    nat \<Rightarrow> 'p buffer_op list \<Rightarrow> 'b \<Rightarrow> bool" where
  "in_time cap load pkey ekey push pop m [] b \<longleftrightarrow> True"
| "in_time cap load pkey ekey push pop m (Arrive p # ops) b \<longleftrightarrow> load b < cap \<and> m \<le> pkey p \<and>
     (case push p b of None \<Rightarrow> True | Some b1 \<Rightarrow> in_time cap load pkey ekey push pop m ops b1)"
| "in_time cap load pkey ekey push pop m (Play # ops) b \<longleftrightarrow>
     (case pop b of (None, b1) \<Rightarrow> in_time cap load pkey ekey push pop m ops b1
      | (Some e, b1) \<Rightarrow> in_time cap load pkey ekey push pop (ekey e) ops b1)"

lemma arrivals_append [simp]: "arrivals (ops @ ops') = arrivals ops @ arrivals ops'"
  by (induction ops rule: arrivals.induct) simp_all

lemma arrivals_batch [simp]: "arrivals (map Arrive ps) = ps" "arrivals (replicate n Play) = []"
  by (induction ps, simp_all) (induction n, simp_all)

lemma in_time_plays [simp]: "in_time cap load pkey ekey push pop m (replicate n Play) b"
  by (induction n arbitrary: m b) (auto split: prod.split option.split)

text \<open>First everything arrives, then everything is played.\<close>

lemma buffer_run_batch:
  assumes "push_list push ps b = Some b1" "pop_list pop n b1 = (map Some es, b2)"
  shows "buffer_run push pop (map Arrive ps @ replicate n Play) b = Some (es, b2)"
  using assms(1)
proof (induction ps arbitrary: b)
  case Nil
  have "buffer_run push pop (replicate n Play) b1 = Some (es, b2)"
    using assms(2)
  proof (induction n arbitrary: b1 es)
    case (Suc n)
    then obtain e es' where "es = e # es'" by (cases es) (auto split: prod.splits)
    with Suc show ?case by (auto split: prod.splits)
  qed simp
  with Nil show ?case by simp
next
  case (Cons p ps)
  then show ?case by (cases "push p b") auto
qed

definition least_by :: "('x \<Rightarrow> nat) \<Rightarrow> 'x \<Rightarrow> 'x multiset \<Rightarrow> bool" where
  "least_by key x xs \<longleftrightarrow> x \<in># xs \<and> (\<forall>y \<in># xs. key x \<le> key y)"

lemma least_byD: "least_by key x xs \<Longrightarrow> x \<in># xs" "least_by key x xs \<Longrightarrow> y \<in># xs \<Longrightarrow> key x \<le> key y"
  by (simp_all add: least_by_def)

section \<open>The interface\<close>

locale reorder_buffer =
  fixes cap :: nat
    and prime :: nat
    and invar :: "'b \<Rightarrow> bool"
    and gathering :: "'b \<Rightarrow> bool"
    and contents :: "'b \<Rightarrow> 'x multiset"
    and accepts :: "'p \<Rightarrow> bool"
    and pview :: "'p \<Rightarrow> 'x"
    and eview :: "'e \<Rightarrow> 'x"
    and window :: "'x \<Rightarrow> bool"
    and key :: "'x \<Rightarrow> nat"
    and push :: "'p \<Rightarrow> 'b \<Rightarrow> 'b option"
    and pop :: "'b \<Rightarrow> 'e option \<times> 'b"
  assumes within_cap: "invar b \<Longrightarrow> size (contents b) \<le> cap"
    and cap_pos: "0 < cap"
    and push_space: "invar b \<Longrightarrow> accepts p \<Longrightarrow> size (contents b) < cap \<Longrightarrow>
      \<exists>b'. push p b = Some b' \<and> invar b' \<and> gathering b' = gathering b \<and> contents b' = add_mset (pview p) (contents b)"
    and push_full: "invar b \<Longrightarrow> accepts p \<Longrightarrow> size (contents b) = cap \<Longrightarrow> Multiset.Ball (contents b) window \<Longrightarrow>
      \<exists>b' x. push p b = Some b' \<and> invar b' \<and> gathering b' = gathering b \<and> least_by key x (contents b) \<and>
        contents b' = add_mset (pview p) (contents b - {#x#})"
    and pop_empty: "invar b \<Longrightarrow> contents b = {#} \<Longrightarrow>
      \<exists>b'. pop b = (None, b') \<and> invar b' \<and> gathering b' \<and> contents b' = {#}"
    and pop_gathering: "invar b \<Longrightarrow> contents b \<noteq> {#} \<Longrightarrow> gathering b \<Longrightarrow> size (contents b) < prime \<Longrightarrow> pop b = (None, b)"
    and pop_least: "invar b \<Longrightarrow> Multiset.Ball (contents b) window \<Longrightarrow> contents b \<noteq> {#} \<Longrightarrow>
      (gathering b \<Longrightarrow> prime \<le> size (contents b)) \<Longrightarrow>
      \<exists>e b'. pop b = (Some e, b') \<and> invar b' \<and> \<not> gathering b' \<and> least_by key (eview e) (contents b) \<and>
        contents b' = contents b - {#eview e#}"
begin

text \<open>As long as there is space, everything that is pushed is kept.\<close>

lemma push_list_space:
  assumes "invar b" "\<forall>p \<in> set ps. accepts p" "size (contents b) + length ps \<le> cap"
  shows "\<exists>b'. push_list push ps b = Some b' \<and> invar b' \<and> gathering b' = gathering b \<and>
    contents b' = contents b + mset (map pview ps)"
  using assms
proof (induction ps arbitrary: b)
  case (Cons p ps)
  obtain b1 where b1: "push p b = Some b1" "invar b1" "gathering b1 = gathering b"
      "contents b1 = add_mset (pview p) (contents b)"
    using push_space [OF Cons.prems(1), of p] Cons.prems by auto
  with Cons.IH [OF b1(2)] Cons.prems show ?case by simp
qed simp

text \<open>
  However many elements of the window are pushed, no push fails, nothing appears that was neither
  there nor pushed, and the buffer fills up to its size and gives up only what does not fit.
\<close>

lemma push_list_any:
  assumes "invar b" "\<forall>p \<in> set ps. accepts p \<and> window (pview p)" "Multiset.Ball (contents b) window"
  shows "\<exists>b'. push_list push ps b = Some b' \<and> invar b' \<and> gathering b' = gathering b \<and>
    contents b' \<subseteq># contents b + mset (map pview ps) \<and> size (contents b') = min cap (size (contents b) + length ps)"
  using assms
proof (induction ps arbitrary: b)
  case Nil
  then show ?case using within_cap by simp
next
  case (Cons p ps)
  have step: "\<exists>b1. push p b = Some b1 \<and> invar b1 \<and> gathering b1 = gathering b \<and>
      contents b1 \<subseteq># add_mset (pview p) (contents b) \<and> size (contents b1) = min cap (Suc (size (contents b)))"
  proof (cases "size (contents b) < cap")
    case True
    with push_space [OF Cons.prems(1), of p] Cons.prems(2) show ?thesis by fastforce
  next
    case False
    with within_cap [OF Cons.prems(1)] have full: "size (contents b) = cap" by simp
    with push_full [OF Cons.prems(1) _ _ Cons.prems(3), of p] Cons.prems(2) obtain b1 x
      where b1: "push p b = Some b1" "invar b1" "gathering b1 = gathering b" "least_by key x (contents b)"
        "contents b1 = add_mset (pview p) (contents b - {#x#})" by auto
    then have "x \<in># contents b" by (simp add: least_by_def)
    with b1(5) full cap_pos have "size (contents b1) = min cap (Suc (size (contents b)))"
      by (simp add: size_Diff_singleton)
    with b1 show ?thesis by (intro exI [of _ b1]) simp
  qed
  then obtain b1 where b1: "push p b = Some b1" "invar b1" "gathering b1 = gathering b"
    "contents b1 \<subseteq># add_mset (pview p) (contents b)" "size (contents b1) = min cap (Suc (size (contents b)))" by blast
  have "set_mset (contents b1) \<subseteq> insert (pview p) (set_mset (contents b))" using set_mset_mono [OF b1(4)] by simp
  then have "Multiset.Ball (contents b1) window" using Cons.prems(2,3) by auto
  with Cons.IH [OF b1(2)] Cons.prems(2) obtain b2 where b2: "push_list push ps b1 = Some b2" "invar b2"
    "gathering b2 = gathering b1" "contents b2 \<subseteq># contents b1 + mset (map pview ps)"
    "size (contents b2) = min cap (size (contents b1) + length ps)" by auto
  from b1(4) have "contents b1 + mset (map pview ps) \<subseteq># contents b + mset (map pview (p # ps))"
    using subset_mset.add_right_mono [of "contents b1"] by fastforce
  with b2(4) have "contents b2 \<subseteq># contents b + mset (map pview (p # ps))" by (rule subset_mset.order_trans)
  with b1 b2 show ?case by auto
qed

text \<open>Draining the buffer yields its contents, each once and in ascending order.\<close>

lemma pop_list_sorted:
  assumes "invar b" "Multiset.Ball (contents b) window" "size (contents b) = n" "gathering b \<Longrightarrow> prime \<le> n"
  shows "\<exists>es b'. pop_list pop n b = (map Some es, b') \<and> invar b' \<and> contents b' = {#} \<and>
    sorted (map (\<lambda>e. key (eview e)) es) \<and> mset (map eview es) = contents b"
  using assms
proof (induction n arbitrary: b)
  case (Suc n)
  then have "contents b \<noteq> {#}" by auto
  with Suc.prems pop_least [of b] obtain e b1
    where e: "pop b = (Some e, b1)" "invar b1" "\<not> gathering b1" "least_by key (eview e) (contents b)"
      "contents b1 = contents b - {#eview e#}" by auto
  note mem = least_byD(1) [OF e(4)]
  have "Multiset.Ball (contents b1) window" using Suc.prems(2) e(5) by (auto dest: in_diffD)
  with Suc.IH [of b1] e Suc.prems(3) mem obtain es b2
    where es: "pop_list pop n b1 = (map Some es, b2)" "invar b2" "contents b2 = {#}"
      "sorted (map (\<lambda>e. key (eview e)) es)" "mset (map eview es) = contents b1"
    by (auto simp: size_Diff_singleton)
  have "key (eview e) \<le> key (eview x)" if "x \<in> set es" for x
  proof -
    have "eview x \<in># contents b1" using that es(5) by (metis image_eqI in_multiset_in_set list.set_map)
    then have "eview x \<in># contents b" using e(5) by (metis in_diffD)
    then show ?thesis by (rule least_byD(2) [OF e(4)])
  qed
  moreover have "mset (map eview (e # es)) = contents b" using es(5) e(5) mem by simp
  ultimately show ?case using e(1) es by (intro exI [of _ "e # es"] exI [of _ b2]) simp
qed simp

lemma reorders:
  assumes "invar b" "contents b = {#}" "\<forall>p \<in> set ps. accepts p \<and> window (pview p)" "length ps \<le> cap"
    "gathering b \<Longrightarrow> prime \<le> length ps"
  shows "\<exists>b1 es b2. push_list push ps b = Some b1 \<and> pop_list pop (length ps) b1 = (map Some es, b2) \<and>
    invar b2 \<and> contents b2 = {#} \<and> sorted (map (\<lambda>e. key (eview e)) es) \<and> mset (map eview es) = mset (map pview ps)"
proof -
  obtain b1 where b1: "push_list push ps b = Some b1" "invar b1" "gathering b1 = gathering b"
      "contents b1 = mset (map pview ps)"
    using push_list_space [of b ps] assms by auto
  with assms(3) have "Multiset.Ball (contents b1) window" by auto
  with pop_list_sorted [OF b1(2)] b1 assms(5) show ?thesis by auto
qed

text \<open>
  Arrivals and plays in any order, each arrival in time: what is played is in order, and it is, with
  what is left, exactly what was there and what arrived.
\<close>

abbreviation timely :: "nat \<Rightarrow> 'p buffer_op list \<Rightarrow> 'b \<Rightarrow> bool" where
  "timely \<equiv> in_time cap (\<lambda>b. size (contents b)) (\<lambda>p. key (pview p)) (\<lambda>e. key (eview e)) push pop"

lemma run_in_time:
  assumes "invar b" "\<forall>x \<in># contents b. window x \<and> m \<le> key x" "\<forall>p \<in> set (arrivals ops). accepts p \<and> window (pview p)"
    "timely m ops b"
  shows "\<exists>es b'. buffer_run push pop ops b = Some (es, b') \<and> invar b' \<and> sorted (map (\<lambda>e. key (eview e)) es) \<and>
    (\<forall>e \<in> set es. m \<le> key (eview e)) \<and> mset (map eview es) + contents b' = contents b + mset (map pview (arrivals ops))"
  using assms
proof (induction ops arbitrary: b m)
  case Nil
  then show ?case by simp
next
  case (Cons op ops)
  show ?case
  proof (cases op)
    case (Arrive p)
    with Cons.prems push_space [OF Cons.prems(1), of p] obtain b1
      where b1: "push p b = Some b1" "invar b1" "contents b1 = add_mset (pview p) (contents b)" by auto
    with Cons.prems Arrive have "\<forall>x \<in># contents b1. window x \<and> m \<le> key x" "timely m ops b1" by auto
    from Cons.IH [OF b1(2) this(1) _ this(2)] Cons.prems(3) b1 Arrive show ?thesis by fastforce
  next
    case Play
    have keep: ?thesis if "pop b = (None, b1)" "invar b1" "contents b1 = contents b" for b1
      using Cons.IH [of b1 m] Cons.prems that Play by fastforce
    consider "contents b = {#}" | "contents b \<noteq> {#}" "gathering b" "size (contents b) < prime"
      | "contents b \<noteq> {#}" "gathering b \<Longrightarrow> prime \<le> size (contents b)" by fastforce
    then show ?thesis
    proof cases
      case 1
      with pop_empty [OF Cons.prems(1)] keep show ?thesis by auto
    next
      case 2
      with pop_gathering [OF Cons.prems(1)] keep Cons.prems(1) show ?thesis by auto
    next
      case 3
      obtain e b1 where e: "pop b = (Some e, b1)" "invar b1" "least_by key (eview e) (contents b)"
          "contents b1 = contents b - {#eview e#}"
        using pop_least [OF Cons.prems(1) _ 3] Cons.prems(2) by auto
      note mem = least_byD(1) [OF e(3)]
      have "\<forall>x \<in># contents b1. window x \<and> key (eview e) \<le> key x"
        using Cons.prems(2) e(4) least_byD(2) [OF e(3)] by (auto dest: in_diffD)
      moreover have "timely (key (eview e)) ops b1" using Cons.prems(4) Play e(1) by simp
      moreover have "\<forall>p \<in> set (arrivals ops). accepts p \<and> window (pview p)" using Cons.prems(3) Play by simp
      ultimately obtain es b2 where es: "buffer_run push pop ops b1 = Some (es, b2)" "invar b2" "sorted (map (\<lambda>e. key (eview e)) es)"
          "\<forall>x \<in> set es. key (eview e) \<le> key (eview x)"
          "mset (map eview es) + contents b2 = contents b1 + mset (map pview (arrivals ops))"
        using Cons.IH [OF e(2), of "key (eview e)"] by auto
      have "m \<le> key (eview e)" using Cons.prems(2) mem by auto
      moreover have "mset (map eview (e # es)) + contents b2 = contents b + mset (map pview (arrivals ops))"
        using es(5) e(4) mem by simp
      ultimately show ?thesis using e(1) es Play by (intro exI [of _ "e # es"] exI [of _ b2]) fastforce
    qed
  qed
qed

lemma batch_in_time:
  assumes "invar b" "\<forall>p \<in> set ps. accepts p" "size (contents b) + length ps \<le> cap"
  shows "timely 0 (map Arrive ps @ replicate n Play) b"
  using assms
proof (induction ps arbitrary: b)
  case (Cons p ps)
  then show ?case using push_space [OF Cons.prems(1), of p] by auto
qed simp

text \<open>A buffer that ran empty gives nothing until enough has been pushed again.\<close>

lemma gathers_again:
  assumes "invar b" "contents b = {#}" "\<forall>p \<in> set ps. accepts p" "length ps < prime" "length ps \<le> cap"
  shows "\<exists>b1 b2. pop b = (None, b1) \<and> push_list push ps b1 = Some b2 \<and> fst (pop b2) = None"
proof -
  obtain b1 where b1: "pop b = (None, b1)" "invar b1" "gathering b1" "contents b1 = {#}"
    using pop_empty [OF assms(1,2)] by blast
  with push_list_space [of b1 ps] assms obtain b2
    where b2: "push_list push ps b1 = Some b2" "invar b2" "gathering b2" "contents b2 = mset (map pview ps)" by auto
  then have "fst (pop b2) = None"
    using pop_empty [OF b2(2)] pop_gathering [OF b2(2)] assms(4) by (cases "ps = []") auto
  with b1(1) b2(1) show ?thesis by blast
qed

end

end
