(* ===== verification/Jitter_Buffer.thy ===== *)
theory Jitter_Buffer
  imports Protocol Reorder_Buffer
begin

text \<open>
  The jitter buffers of \<open>src/src/server/audio_mixer.c\<close>: twenty places per client slot that reorder
  the packets of one speaker by sequence number. Sequence numbers are 32-bit words that wrap around
  and are compared by the sign of their difference, so the order is meaningful for packets within
  half of the number range: those lie in a window that starts at some \<open>base\<close>, and \<open>seq_offset base\<close> is
  their position in it. The contents are a multiset of packets, of which a pop takes the earliest.
\<close>

section \<open>Definitions\<close>

definition jitter_zero :: jitter_buffer where
  "jitter_zero = \<lparr>jb_buffer = replicate JITTER_BUFFER_SIZE
     \<lparr>je_seq_num = 0, je_timestamp = 0, je_payload_size = 0,
      je_payload = replicate AUDIO_PAYLOAD_SIZE 0, je_valid = False\<rparr>,
     jb_head = 0, jb_tail = 0, jb_count = 0, jb_buffering = False, jb_next_expected_seq = 0\<rparr>"

definition seq_before :: "u32 \<Rightarrow> u32 \<Rightarrow> bool" where
  "seq_before a b \<longleftrightarrow> sint (a - b) < 0"

fun first_invalid :: "nat \<Rightarrow> jitter_entry list \<Rightarrow> nat option" where
  "first_invalid i [] = None"
| "first_invalid i (e # es) = (if \<not> je_valid e then Some i else first_invalid (Suc i) es)"

fun oldest_scan :: "nat \<Rightarrow> nat \<Rightarrow> u32 \<Rightarrow> jitter_entry list \<Rightarrow> nat" where
  "oldest_scan i oldest_idx oldest_seq [] = oldest_idx"
| "oldest_scan i oldest_idx oldest_seq (e # es) =
     (if seq_before (je_seq_num e) oldest_seq then oldest_scan (Suc i) i (je_seq_num e) es
      else oldest_scan (Suc i) oldest_idx oldest_seq es)"

text \<open>\<open>None\<close>: \<open>payload_size\<close> exceeds the payload array and the \<open>memcpy\<close> runs out of its bounds.\<close>

definition jitter_buffer_push :: "audio_packet \<Rightarrow> jitter_buffer \<Rightarrow> jitter_buffer option" where
  "jitter_buffer_push pkt jb =
     (let (idx, count) =
            (case first_invalid 0 (jb_buffer jb) of
               None \<Rightarrow> (oldest_scan 1 0 (je_seq_num (jb_buffer jb ! 0)) (drop 1 (jb_buffer jb)), jb_count jb)
             | Some i \<Rightarrow> (i, jb_count jb + 1));
          n = unat (ap_payload_size pkt)
      in if AUDIO_PAYLOAD_SIZE < n then None
         else do { e \<leftarrow> arr_get (jb_buffer jb) idx;
                   buffer \<leftarrow> arr_set (jb_buffer jb) idx
                     \<lparr>je_seq_num = ap_seq_num pkt, je_timestamp = ap_timestamp pkt,
                      je_payload_size = ap_payload_size pkt,
                      je_payload = overwrite 0 0 (take n (ap_payload pkt)) (je_payload e),
                      je_valid = True\<rparr>;
                   Some (jb\<lparr>jb_buffer := buffer, jb_count := count\<rparr>) })"

text \<open>The scan of a pop; the accumulator holds \<open>best_idx\<close> and \<open>min_seq\<close> once \<open>found\<close> is set.\<close>

fun best_scan :: "nat \<Rightarrow> (nat \<times> u32) option \<Rightarrow> jitter_entry list \<Rightarrow> nat option" where
  "best_scan i acc [] = map_option fst acc"
| "best_scan i acc (e # es) =
     (if \<not> je_valid e then best_scan (Suc i) acc es
      else case acc of
             None \<Rightarrow> best_scan (Suc i) (Some (i, je_seq_num e)) es
           | Some (best_idx, min_seq) \<Rightarrow>
               if seq_before (je_seq_num e) min_seq
               then best_scan (Suc i) (Some (i, je_seq_num e)) es
               else best_scan (Suc i) acc es)"

definition jitter_buffer_pop :: "jitter_buffer \<Rightarrow> jitter_entry option \<times> jitter_buffer" where
  "jitter_buffer_pop jb =
     (if jb_count jb = 0 then (None, jb\<lparr>jb_buffering := True\<rparr>)
      else if jb_buffering jb \<and> jb_count jb < 5 then (None, jb)
      else let jb1 = jb\<lparr>jb_buffering := False\<rparr>
           in case best_scan 0 None (jb_buffer jb) of
                None \<Rightarrow> (None, jb1)
              | Some i \<Rightarrow>
                  (Some (jb_buffer jb ! i),
                   jb1\<lparr>jb_buffer := (jb_buffer jb)[i := (jb_buffer jb ! i)\<lparr>je_valid := False\<rparr>],
                       jb_count := jb_count jb - 1\<rparr>))"

section \<open>Sequence numbers\<close>

definition seq_offset :: "u32 \<Rightarrow> u32 \<Rightarrow> nat" where
  "seq_offset base a = unat (a - base)"

definition in_window :: "u32 \<Rightarrow> u32 \<Rightarrow> bool" where
  "in_window base a \<longleftrightarrow> seq_offset base a < 2147483648"

lemma shift_mod:
  "0 \<le> u \<Longrightarrow> u < 4294967296 \<Longrightarrow>
    (u + 2147483648) mod 4294967296 - 2147483648 = (if u < 2147483648 then u else u - 4294967296)" for u :: int
  using minus_mod_self2 [of "u + 2147483648" 4294967296]
    mod_pos_pos_trivial [of "u - 2147483648" 4294967296]
    mod_pos_pos_trivial [of "u + 2147483648" 4294967296]
  by auto

lemma sint_u32: "sint w = (if uint w < 2147483648 then uint w else uint w - 4294967296)" for w :: u32
proof -
  have "0 \<le> uint w" "uint w < 4294967296" using uint_bounded [of w] by simp_all
  moreover have "sint w = (uint w + 2147483648) mod 4294967296 - 2147483648"
    by (simp add: sint_uint signed_take_bit_eq_take_bit_shift take_bit_eq_mod)
  ultimately show ?thesis using shift_mod by presburger
qed

lemma diff_mod:
  "- 2147483648 < d \<Longrightarrow> d < 2147483648 \<Longrightarrow> (2147483648 \<le> d mod 4294967296) \<longleftrightarrow> d < 0" for d :: int
  using mod_add_self2 [of d 4294967296] mod_pos_pos_trivial [of "d + 4294967296" 4294967296]
    mod_pos_pos_trivial [of d 4294967296]
  by (cases "d < 0") auto

lemma sint_diff_neg:
  fixes x y :: u32
  assumes "unat x < 2147483648" "unat y < 2147483648"
  shows "sint (x - y) < 0 \<longleftrightarrow> unat x < unat y"
proof -
  have "uint (x - y) = (int (unat x) - int (unat y)) mod 4294967296"
    using uint_word_ariths(2) [of x y] by simp
  moreover have "sint (x - y) < 0 \<longleftrightarrow> 2147483648 \<le> uint (x - y)"
    using uint_bounded [of "x - y"] sint_u32 [of "x - y"] by (auto simp del: uint_nat)
  ultimately show ?thesis using diff_mod [of "int (unat x) - int (unat y)"] assms by linarith
qed

lemma seq_before_offset:
  assumes "in_window base a" "in_window base b"
  shows "seq_before a b \<longleftrightarrow> seq_offset base a < seq_offset base b"
  using sint_diff_neg [of "a - base" "b - base"] assms
  by (simp add: seq_before_def seq_offset_def in_window_def)

section \<open>The scans\<close>

lemma first_invalid_None: "first_invalid i es = None \<longleftrightarrow> (\<forall>e \<in> set es. je_valid e)"
  by (induction es arbitrary: i) auto

lemma first_invalid_Some:
  "first_invalid i es = Some k \<Longrightarrow> i \<le> k \<and> k < i + length es \<and> \<not> je_valid (es ! (k - i))"
proof (induction es arbitrary: i)
  case (Cons e es)
  then show ?case by (cases "je_valid e") (fastforce simp: nth_Cons')+
qed simp

abbreviation window_ok :: "u32 \<Rightarrow> jitter_entry list \<Rightarrow> bool" where
  "window_ok base es \<equiv> \<forall>e \<in> set es. je_valid e \<longrightarrow> in_window base (je_seq_num e)"

abbreviation entry_offset :: "u32 \<Rightarrow> jitter_entry \<Rightarrow> nat" where
  "entry_offset base e \<equiv> seq_offset base (je_seq_num e)"

lemma best_scan_from:
  assumes "window_ok base es" "in_window base q"
  shows "\<exists>k q'. best_scan i (Some (b, q)) es = Some k \<and>
    (k = b \<and> q' = q \<or>
     i \<le> k \<and> k < i + length es \<and> je_valid (es ! (k - i)) \<and> q' = je_seq_num (es ! (k - i))) \<and>
    seq_offset base q' \<le> seq_offset base q \<and>
    (\<forall>e \<in> set es. je_valid e \<longrightarrow> seq_offset base q' \<le> entry_offset base e)"
  using assms
proof (induction es arbitrary: i b q)
  case (Cons e es)
  have shift: "i \<le> k \<and> k < i + length (e # es) \<and> (e # es) ! (k - i) = es ! (k - Suc i)"
    if "Suc i \<le> k" "k < Suc i + length es" for k
    using that by (simp add: nth_Cons')
  show ?case
  proof (cases "je_valid e \<and> seq_before (je_seq_num e) q")
    case True
    with Cons.prems have less: "entry_offset base e < seq_offset base q" "in_window base (je_seq_num e)"
      using seq_before_offset by auto
    with Cons.prems(1) Cons.IH [of "je_seq_num e" "Suc i" i] obtain k q'
      where "best_scan (Suc i) (Some (i, je_seq_num e)) es = Some k"
        and "k = i \<and> q' = je_seq_num e \<or> Suc i \<le> k \<and> k < Suc i + length es \<and>
          je_valid (es ! (k - Suc i)) \<and> q' = je_seq_num (es ! (k - Suc i))"
        and "seq_offset base q' \<le> entry_offset base e"
        and "\<forall>e \<in> set es. je_valid e \<longrightarrow> seq_offset base q' \<le> entry_offset base e"
      by auto
    with True less shift [of k] show ?thesis by (intro exI [of _ k] exI [of _ q']) auto
  next
    case False
    with Cons.prems have le: "je_valid e \<Longrightarrow> seq_offset base q \<le> entry_offset base e"
      using seq_before_offset by auto
    from Cons.prems Cons.IH [of q "Suc i" b] obtain k q'
      where "best_scan (Suc i) (Some (b, q)) es = Some k"
        and "k = b \<and> q' = q \<or> Suc i \<le> k \<and> k < Suc i + length es \<and>
          je_valid (es ! (k - Suc i)) \<and> q' = je_seq_num (es ! (k - Suc i))"
        and "seq_offset base q' \<le> seq_offset base q"
        and "\<forall>e \<in> set es. je_valid e \<longrightarrow> seq_offset base q' \<le> entry_offset base e"
      by auto
    with False le shift [of k] show ?thesis by (intro exI [of _ k] exI [of _ q']) auto
  qed
qed auto

lemma best_scan_None: "\<forall>e \<in> set es. \<not> je_valid e \<Longrightarrow> best_scan i None es = None"
  by (induction es arbitrary: i) auto

lemma best_scan_least:
  assumes "window_ok base es" "\<exists>e \<in> set es. je_valid e"
  shows "\<exists>k. best_scan i None es = Some k \<and> i \<le> k \<and> k < i + length es \<and> je_valid (es ! (k - i)) \<and>
    (\<forall>e \<in> set es. je_valid e \<longrightarrow> entry_offset base (es ! (k - i)) \<le> entry_offset base e)"
  using assms
proof (induction es arbitrary: i)
  case (Cons e es)
  have shift: "i \<le> k \<and> k < i + length (e # es) \<and> (e # es) ! (k - i) = es ! (k - Suc i)"
    if "Suc i \<le> k" "k < Suc i + length es" for k
    using that by (simp add: nth_Cons')
  show ?case
  proof (cases "je_valid e")
    case True
    with Cons.prems(1) best_scan_from [of es base "je_seq_num e" "Suc i" i] obtain k q'
      where "best_scan (Suc i) (Some (i, je_seq_num e)) es = Some k"
        and "k = i \<and> q' = je_seq_num e \<or> Suc i \<le> k \<and> k < Suc i + length es \<and>
          je_valid (es ! (k - Suc i)) \<and> q' = je_seq_num (es ! (k - Suc i))"
        and "seq_offset base q' \<le> entry_offset base e"
        and "\<forall>e \<in> set es. je_valid e \<longrightarrow> seq_offset base q' \<le> entry_offset base e"
      by auto
    with True shift [of k] show ?thesis by (intro exI [of _ k]) auto
  next
    case False
    with Cons.prems Cons.IH [of "Suc i"] obtain k where "best_scan (Suc i) None es = Some k"
      "Suc i \<le> k" "k < Suc i + length es" "je_valid (es ! (k - Suc i))"
      "\<forall>e \<in> set es. je_valid e \<longrightarrow> entry_offset base (es ! (k - Suc i)) \<le> entry_offset base e"
      by auto
    with False shift [of k] show ?thesis by (intro exI [of _ k]) auto
  qed
qed simp

lemma oldest_scan_best:
  "\<forall>e \<in> set es. je_valid e \<Longrightarrow> best_scan i (Some (b, q)) es = Some (oldest_scan i b q es)"
  by (induction es arbitrary: i b q) auto

lemma oldest_scan_bound: "b < n \<Longrightarrow> i + length es \<le> n \<Longrightarrow> oldest_scan i b q es < n"
  by (induction es arbitrary: i b q) auto

section \<open>The contents\<close>

definition jpacket :: "jitter_entry \<Rightarrow> u32 \<times> u32 \<times> byte list" where
  "jpacket e = (je_seq_num e, je_timestamp e, take (unat (je_payload_size e)) (je_payload e))"

definition packet_view :: "audio_packet \<Rightarrow> u32 \<times> u32 \<times> byte list" where
  "packet_view pkt = (ap_seq_num pkt, ap_timestamp pkt, take (unat (ap_payload_size pkt)) (ap_payload pkt))"

definition jb_packets :: "jitter_buffer \<Rightarrow> (u32 \<times> u32 \<times> byte list) multiset" where
  "jb_packets jb = image_mset jpacket (mset (filter je_valid (jb_buffer jb)))"

text \<open>A packet as a sender that follows the protocol makes it, and a consistent buffer.\<close>

definition packet_ok :: "audio_packet \<Rightarrow> bool" where
  "packet_ok pkt \<longleftrightarrow> length (ap_payload pkt) = AUDIO_PAYLOAD_SIZE \<and>
     unat (ap_payload_size pkt) \<le> AUDIO_PAYLOAD_SIZE"

definition jb_ok :: "jitter_buffer \<Rightarrow> bool" where
  "jb_ok jb \<longleftrightarrow> length (jb_buffer jb) = JITTER_BUFFER_SIZE \<and>
     (\<forall>e \<in> set (jb_buffer jb). length (je_payload e) = AUDIO_PAYLOAD_SIZE \<and>
        unat (je_payload_size e) \<le> AUDIO_PAYLOAD_SIZE) \<and>
     jb_count jb = int (length (filter je_valid (jb_buffer jb)))"

lemma size_jb_packets: "jb_ok jb \<Longrightarrow> jb_count jb = int (size (jb_packets jb))"
  by (simp add: jb_ok_def jb_packets_def del: mset_filter)

lemma jb_packets_le: "jb_ok jb \<Longrightarrow> size (jb_packets jb) \<le> JITTER_BUFFER_SIZE"
  using length_filter_le [of je_valid "jb_buffer jb"] by (simp add: jb_ok_def jb_packets_def del: mset_filter)

lemma jitter_zero_ok [simp]:
  "jb_ok jitter_zero" "jb_packets jitter_zero = {#}" "\<not> jb_buffering jitter_zero"
  by (simp_all add: jb_ok_def jitter_zero_def jb_packets_def)

lemma packets_update:
  assumes "i < length es"
  shows "image_mset jpacket (mset (filter je_valid (es[i := e]))) =
    image_mset jpacket (mset (filter je_valid es)) -
      (if je_valid (es ! i) then {#jpacket (es ! i)#} else {#}) +
      (if je_valid e then {#jpacket e#} else {#})"
proof -
  have "es ! i \<in># mset es" using assms by simp
  then show ?thesis
    using assms by (auto simp: mset_update image_mset_Diff)
qed

lemma count_filter_update:
  assumes "i < length es"
  shows "int (length (filter P (es[i := e]))) =
    int (length (filter P es)) - of_bool (P (es ! i)) + of_bool (P e)"
  using assms
proof (induction es arbitrary: i)
  case (Cons x xs)
  then show ?case by (cases i) auto
qed simp

lemma set_update_ball: "\<forall>x \<in> set xs. P x \<Longrightarrow> P y \<Longrightarrow> \<forall>x \<in> set (xs[i := y]). P x"
  using set_update_subset_insert [of xs i y] by blast

lemma jb_ok_update:
  assumes "jb_ok jb" "i < length (jb_buffer jb)"
    "length (je_payload e) = AUDIO_PAYLOAD_SIZE \<and> unat (je_payload_size e) \<le> AUDIO_PAYLOAD_SIZE"
    "jb_buffer jb' = (jb_buffer jb)[i := e]"
    "jb_count jb' = jb_count jb - of_bool (je_valid (jb_buffer jb ! i)) + of_bool (je_valid e)"
  shows "jb_ok jb'"
proof -
  have "\<forall>x \<in> set ((jb_buffer jb)[i := e]).
      length (je_payload x) = AUDIO_PAYLOAD_SIZE \<and> unat (je_payload_size x) \<le> AUDIO_PAYLOAD_SIZE"
    by (rule set_update_ball) (use assms(1,3) in \<open>simp_all add: jb_ok_def\<close>)
  with assms show ?thesis by (simp add: jb_ok_def count_filter_update)
qed

text \<open>The place a push writes to: the first free one, or that of an earliest packet.\<close>

lemma push_place:
  assumes "jb_ok jb" "packet_ok pkt"
  obtains i where "i < JITTER_BUFFER_SIZE" "i < length (jb_buffer jb)"
    "jitter_buffer_push pkt jb = Some (jb\<lparr>jb_buffer := (jb_buffer jb)[i :=
        \<lparr>je_seq_num = ap_seq_num pkt, je_timestamp = ap_timestamp pkt,
         je_payload_size = ap_payload_size pkt,
         je_payload = overwrite 0 0 (take (unat (ap_payload_size pkt)) (ap_payload pkt))
           (je_payload (jb_buffer jb ! i)), je_valid = True\<rparr>],
      jb_count := jb_count jb + of_bool (\<not> je_valid (jb_buffer jb ! i))\<rparr>)"
    "je_valid (jb_buffer jb ! i) \<Longrightarrow> \<forall>e \<in> set (jb_buffer jb). je_valid e"
    "je_valid (jb_buffer jb ! i) \<Longrightarrow>
      i = oldest_scan 1 0 (je_seq_num (jb_buffer jb ! 0)) (drop 1 (jb_buffer jb))"
proof -
  let ?es = "jb_buffer jb"
  have len: "length ?es = 20" using assms(1) by (simp add: jb_ok_def)
  have n: "\<not> 2048 < unat (ap_payload_size pkt)" using assms(2) by (simp add: packet_ok_def)
  show ?thesis
  proof (cases "first_invalid 0 ?es")
    case None
    let ?i = "oldest_scan 1 0 (je_seq_num (?es ! 0)) (drop 1 ?es)"
    have i: "?i < 20" by (rule oldest_scan_bound) (simp_all add: len)
    moreover have all: "\<forall>e \<in> set ?es. je_valid e" using None first_invalid_None by blast
    moreover have "je_valid (?es ! ?i)" using all i len by simp
    ultimately show ?thesis using that [of ?i] None n len by (simp add: jitter_buffer_push_def mem_simps)
  next
    case (Some k)
    then have "k < 20" "\<not> je_valid (?es ! k)" using first_invalid_Some [OF Some] len by simp_all
    with Some n len that [of k] show ?thesis by (simp add: jitter_buffer_push_def mem_simps)
  qed
qed

section \<open>Pushing and popping\<close>

definition jb_window :: "u32 \<Rightarrow> jitter_buffer \<Rightarrow> bool" where
  "jb_window base jb \<longleftrightarrow> (\<forall>x \<in># jb_packets jb. in_window base (fst x))"

lemma jb_window_entries: "jb_window base jb \<longleftrightarrow> window_ok base (jb_buffer jb)"
  by (auto simp: jb_window_def jb_packets_def jpacket_def)

definition earliest :: "u32 \<Rightarrow> u32 \<times> u32 \<times> byte list \<Rightarrow> (u32 \<times> u32 \<times> byte list) multiset \<Rightarrow> bool" where
  "earliest base = least_by (\<lambda>x. seq_offset base (fst x))"

lemma earliest_entry:
  assumes "i < length (jb_buffer jb)" "je_valid (jb_buffer jb ! i)"
    "\<forall>e \<in> set (jb_buffer jb). je_valid e \<longrightarrow> entry_offset base (jb_buffer jb ! i) \<le> entry_offset base e"
  shows "earliest base (jpacket (jb_buffer jb ! i)) (jb_packets jb)"
  using assms by (auto simp: earliest_def least_by_def jb_packets_def jpacket_def)

lemma oldest_scan_least:
  assumes "es \<noteq> []" "\<forall>e \<in> set es. je_valid e" "window_ok base es"
  defines "k \<equiv> oldest_scan 1 0 (je_seq_num (es ! 0)) (drop 1 es)"
  shows "\<forall>e \<in> set es. entry_offset base (es ! k) \<le> entry_offset base e"
proof -
  obtain e es' where es: "es = e # es'" using assms(1) by (cases es) auto
  with assms(2) have "best_scan 0 None es = Some k" by (simp add: oldest_scan_best k_def)
  with best_scan_least [OF assms(3), of 0] assms(1,2) show ?thesis by fastforce
qed

lemma jitter_push_ok:
  assumes "jb_ok jb" "packet_ok pkt"
  shows "\<exists>jb'. jitter_buffer_push pkt jb = Some jb' \<and> jb_ok jb' \<and> jb_buffering jb' = jb_buffering jb \<and>
    (size (jb_packets jb) < JITTER_BUFFER_SIZE \<longrightarrow>
       jb_packets jb' = add_mset (packet_view pkt) (jb_packets jb)) \<and>
    (size (jb_packets jb) = JITTER_BUFFER_SIZE \<longrightarrow> jb_window base jb \<longrightarrow>
       (\<exists>x. earliest base x (jb_packets jb) \<and>
          jb_packets jb' = add_mset (packet_view pkt) (jb_packets jb - {#x#})))"
proof -
  let ?es = "jb_buffer jb"
  obtain i where i: "i < 20" "i < length ?es"
    and push: "jitter_buffer_push pkt jb = Some (jb\<lparr>jb_buffer := ?es[i :=
        \<lparr>je_seq_num = ap_seq_num pkt, je_timestamp = ap_timestamp pkt,
         je_payload_size = ap_payload_size pkt,
         je_payload = overwrite 0 0 (take (unat (ap_payload_size pkt)) (ap_payload pkt))
           (je_payload (?es ! i)), je_valid = True\<rparr>],
      jb_count := jb_count jb + of_bool (\<not> je_valid (?es ! i))\<rparr>)" (is "_ = Some (jb\<lparr>jb_buffer := ?es[i := ?e], jb_count := _\<rparr>)")
    and full: "je_valid (?es ! i) \<Longrightarrow> \<forall>e \<in> set ?es. je_valid e"
      "je_valid (?es ! i) \<Longrightarrow> i = oldest_scan 1 0 (je_seq_num (?es ! 0)) (drop 1 ?es)"
    by (rule push_place [OF assms]) blast
  have ne: "?es \<noteq> []" using i by auto
  let ?jb = "jb\<lparr>jb_buffer := ?es[i := ?e], jb_count := jb_count jb + of_bool (\<not> je_valid (?es ! i))\<rparr>"
  have pay: "length (je_payload (?es ! i)) = 2048" using assms(1) i by (simp add: jb_ok_def)
  have view: "jpacket ?e = packet_view pkt"
    using assms(2) by (auto simp: jpacket_def packet_view_def packet_ok_def overwrite_def)
  have ok: "jb_ok ?jb"
    by (rule jb_ok_update [OF assms(1) i(2), of ?e]) (use assms(2) pay in \<open>auto simp: packet_ok_def\<close>)
  have ps: "jb_packets ?jb = jb_packets jb - (if je_valid (?es ! i) then {#jpacket (?es ! i)#} else {#}) +
      {#packet_view pkt#}"
    using packets_update [OF i(2), of ?e] view by (simp add: jb_packets_def)
  have valid: "je_valid (?es ! i) \<longleftrightarrow> size (jb_packets jb) = 20"
  proof
    assume "je_valid (?es ! i)"
    then have "filter je_valid ?es = ?es" using full by simp
    then show "size (jb_packets jb) = 20" using assms(1) by (simp add: jb_packets_def jb_ok_def del: mset_filter)
  next
    assume "size (jb_packets jb) = 20"
    then have "length (filter je_valid ?es) = length ?es"
      using assms(1) by (simp add: jb_packets_def jb_ok_def del: mset_filter)
    then show "je_valid (?es ! i)" using i by (metis filter_id_conv length_filter_less nat_less_le nth_mem)
  qed
  have "earliest base (jpacket (?es ! i)) (jb_packets jb)" if "je_valid (?es ! i)" "jb_window base jb"
    using oldest_scan_least [OF ne] full that i by (auto intro!: earliest_entry simp: jb_window_entries)
  then have evict: "size (jb_packets jb) = 20 \<longrightarrow> jb_window base jb \<longrightarrow> (\<exists>x. earliest base x (jb_packets jb) \<and>
      jb_packets ?jb = add_mset (packet_view pkt) (jb_packets jb - {#x#}))"
    using valid ps by (intro impI exI [of _ "jpacket (?es ! i)"]) simp
  have room: "size (jb_packets jb) < 20 \<longrightarrow> jb_packets ?jb = add_mset (packet_view pkt) (jb_packets jb)"
    using valid ps by (intro impI) simp
  show ?thesis by (intro exI [of _ ?jb] conjI) (fact push, fact ok, simp, fact room, fact evict)
qed

lemma jitter_pop_empty:
  "jb_ok jb \<Longrightarrow> jb_packets jb = {#} \<Longrightarrow> jitter_buffer_pop jb = (None, jb\<lparr>jb_buffering := True\<rparr>)"
  using size_jb_packets [of jb] by (simp add: jitter_buffer_pop_def)

lemma pop_at:
  assumes "jb_ok jb" "i < length (jb_buffer jb)" "je_valid (jb_buffer jb ! i)"
  defines "jb' \<equiv> jb\<lparr>jb_buffering := False, jb_count := jb_count jb - 1,
    jb_buffer := (jb_buffer jb)[i := (jb_buffer jb ! i)\<lparr>je_valid := False\<rparr>]\<rparr>"
  shows "jb_ok jb'" "jb_packets jb' = jb_packets jb - {#jpacket (jb_buffer jb ! i)#}"
proof -
  have "length (je_payload (jb_buffer jb ! i)) = 2048" "unat (je_payload_size (jb_buffer jb ! i)) \<le> 2048"
    using assms(1,2) by (simp_all add: jb_ok_def)
  with assms(3) show "jb_ok jb'"
    by (intro jb_ok_update [OF assms(1,2), of "(jb_buffer jb ! i)\<lparr>je_valid := False\<rparr>"]) (simp_all add: jb'_def)
  show "jb_packets jb' = jb_packets jb - {#jpacket (jb_buffer jb ! i)#}"
    using packets_update [OF assms(2), of "(jb_buffer jb ! i)\<lparr>je_valid := False\<rparr>"] assms(3)
    by (simp add: jb_packets_def jb'_def)
qed

lemma jitter_pop_earliest:
  assumes "jb_ok jb" "jb_window base jb" "jb_packets jb \<noteq> {#}"
    "jb_buffering jb \<Longrightarrow> 5 \<le> size (jb_packets jb)"
  shows "\<exists>e jb'. jitter_buffer_pop jb = (Some e, jb') \<and> earliest base (jpacket e) (jb_packets jb) \<and>
    jb_packets jb' = jb_packets jb - {#jpacket e#} \<and> jb_ok jb' \<and> \<not> jb_buffering jb'"
proof -
  let ?es = "jb_buffer jb"
  have count: "jb_count jb = int (size (jb_packets jb))" by (rule size_jb_packets [OF assms(1)])
  have "\<exists>e \<in> set ?es. je_valid e" using assms(3) by (auto simp: jb_packets_def filter_empty_conv)
  with assms(2) best_scan_least [of ?es base 0] obtain k
    where k: "best_scan 0 None ?es = Some k" "k < length ?es" "je_valid (?es ! k)"
      "\<forall>e \<in> set ?es. je_valid e \<longrightarrow> entry_offset base (?es ! k) \<le> entry_offset base e"
    by (auto simp: jb_window_entries)
  let ?jb = "jb\<lparr>jb_buffering := False, jb_count := jb_count jb - 1, jb_buffer := ?es[k := (?es ! k)\<lparr>je_valid := False\<rparr>]\<rparr>"
  have "jitter_buffer_pop jb = (Some (?es ! k), ?jb)"
    using assms(3,4) count k(1) by (auto simp: jitter_buffer_pop_def)
  with pop_at [OF assms(1) k(2,3)] earliest_entry [OF k(2,3,4)] show ?thesis by auto
qed

text \<open>Whatever the sequence numbers, a pop keeps the buffer consistent and yields one of its entries.\<close>

lemma best_scan_valid:
  "best_scan i acc es = Some k \<Longrightarrow> (\<exists>q. acc = Some (k, q)) \<or> i \<le> k \<and> k < i + length es \<and> je_valid (es ! (k - i))"
proof (induction es arbitrary: i acc)
  case (Cons e es)
  have "(\<exists>q. acc' = Some (k, q)) \<or> i \<le> k \<and> k < i + length (e # es) \<and> je_valid ((e # es) ! (k - i))"
    if "best_scan (Suc i) acc' es = Some k" for acc'
    using Cons.IH [OF that] by (auto simp: nth_Cons')
  with Cons.prems show ?case by (fastforce split: if_splits option.splits prod.splits)
qed auto

lemma jitter_pop_keeps:
  assumes "jb_ok jb" "jitter_buffer_pop jb = (e, jb')"
  shows "jb_ok jb'" "e = Some x \<Longrightarrow> x \<in> set (jb_buffer jb) \<and> je_valid x"
proof -
  have "jb_ok jb' \<and> (\<forall>x. e = Some x \<longrightarrow> x \<in> set (jb_buffer jb) \<and> je_valid x)"
  proof (cases "jb_count jb = 0 \<or> jb_buffering jb \<and> jb_count jb < 5 \<or> best_scan 0 None (jb_buffer jb) = None")
    case True
    with assms show ?thesis by (auto simp: jitter_buffer_pop_def jb_ok_def Let_def split: if_splits)
  next
    case False
    then obtain k where k: "best_scan 0 None (jb_buffer jb) = Some k" by auto
    then have "k < length (jb_buffer jb)" "je_valid (jb_buffer jb ! k)" using best_scan_valid [OF k] by simp_all
    with False k assms pop_at(1) [OF assms(1), of k] show ?thesis by (auto simp: jitter_buffer_pop_def jb_ok_def)
  qed
  then show "jb_ok jb'" "e = Some x \<Longrightarrow> x \<in> set (jb_buffer jb) \<and> je_valid x" by simp_all
qed

section \<open>Reordering\<close>

abbreviation push_all :: "audio_packet list \<Rightarrow> jitter_buffer \<Rightarrow> jitter_buffer option" where
  "push_all \<equiv> push_list jitter_buffer_push"

abbreviation pop_many :: "nat \<Rightarrow> jitter_buffer \<Rightarrow> jitter_entry option list \<times> jitter_buffer" where
  "pop_many \<equiv> pop_list jitter_buffer_pop"

text \<open>No arrival is late: fewer than twenty packets wait, and none that was played is later in the window.\<close>

abbreviation jitter_in_time :: "u32 \<Rightarrow> audio_packet buffer_op list \<Rightarrow> jitter_buffer \<Rightarrow> bool" where
  "jitter_in_time base \<equiv> in_time JITTER_BUFFER_SIZE (\<lambda>jb. size (jb_packets jb)) (\<lambda>p. seq_offset base (ap_seq_num p))
     (\<lambda>e. seq_offset base (je_seq_num e)) jitter_buffer_push jitter_buffer_pop 0"

lemma jitter_pop_gathering:
  assumes "jb_ok jb" "jb_packets jb \<noteq> {#}" "jb_buffering jb" "size (jb_packets jb) < 5"
  shows "jitter_buffer_pop jb = (None, jb)"
  using assms size_jb_packets [OF assms(1)] by (simp add: jitter_buffer_pop_def)

interpretation jitter: reorder_buffer JITTER_BUFFER_SIZE 5 jb_ok jb_buffering jb_packets packet_ok packet_view jpacket
  "\<lambda>x. in_window base (fst x)" "\<lambda>x. seq_offset base (fst x)" jitter_buffer_push jitter_buffer_pop for base
proof unfold_locales
  fix jb pkt
  assume jb: "jb_ok jb"
  show "size (jb_packets jb) \<le> JITTER_BUFFER_SIZE" by (rule jb_packets_le [OF jb])
  show "\<exists>jb'. jitter_buffer_push pkt jb = Some jb' \<and> jb_ok jb' \<and> jb_buffering jb' = jb_buffering jb \<and>
      jb_packets jb' = add_mset (packet_view pkt) (jb_packets jb)"
    if "packet_ok pkt" "size (jb_packets jb) < JITTER_BUFFER_SIZE"
    using jitter_push_ok [OF jb that(1)] that(2) by blast
  show "\<exists>jb' x. jitter_buffer_push pkt jb = Some jb' \<and> jb_ok jb' \<and> jb_buffering jb' = jb_buffering jb \<and>
      least_by (\<lambda>x. seq_offset base (fst x)) x (jb_packets jb) \<and>
      jb_packets jb' = add_mset (packet_view pkt) (jb_packets jb - {#x#})"
    if "packet_ok pkt" "size (jb_packets jb) = JITTER_BUFFER_SIZE" "\<forall>x \<in># jb_packets jb. in_window base (fst x)"
    using jitter_push_ok [OF jb that(1), of base] that(2,3) unfolding jb_window_def earliest_def by blast
  show "\<exists>jb'. jitter_buffer_pop jb = (None, jb') \<and> jb_ok jb' \<and> jb_buffering jb' \<and> jb_packets jb' = {#}"
    if "jb_packets jb = {#}"
    using jitter_pop_empty [OF jb that] jitter_pop_keeps(1) [OF jb] that by (auto simp: jb_packets_def)
  show "jitter_buffer_pop jb = (None, jb)"
    if "jb_packets jb \<noteq> {#}" "jb_buffering jb" "size (jb_packets jb) < 5"
    by (rule jitter_pop_gathering [OF jb that])
  show "\<exists>e jb'. jitter_buffer_pop jb = (Some e, jb') \<and> jb_ok jb' \<and> \<not> jb_buffering jb' \<and>
      least_by (\<lambda>x. seq_offset base (fst x)) (jpacket e) (jb_packets jb) \<and>
      jb_packets jb' = jb_packets jb - {#jpacket e#}"
    if "\<forall>x \<in># jb_packets jb. in_window base (fst x)" "jb_packets jb \<noteq> {#}" "jb_buffering jb \<Longrightarrow> 5 \<le> size (jb_packets jb)"
    using jitter_pop_earliest [OF jb _ that(2,3), of base] that(1) unfolding jb_window_def earliest_def by blast
qed simp

text \<open>
  C19: the jitter buffer puts packets in order. Up to twenty packets that arrive in any order, with
  sequence numbers in a window of half the 32-bit range (which may wrap around), come out by
  ascending position in the window, each exactly once, with timestamp and payload unchanged.
\<close>

theorem jitter_buffer_reorders:
  assumes "\<forall>pkt \<in> set pkts. packet_ok pkt \<and> in_window base (ap_seq_num pkt)"
    "length pkts \<le> JITTER_BUFFER_SIZE"
  shows "\<exists>jb es jb'. push_all pkts jitter_zero = Some jb \<and>
    pop_many (length pkts) jb = (map Some es, jb') \<and>
    sorted (map (\<lambda>e. seq_offset base (je_seq_num e)) es) \<and>
    mset (map jpacket es) = mset (map packet_view pkts)"
  using jitter.reorders [of jitter_zero pkts base] assms by (auto simp: packet_view_def jpacket_def)

text \<open>
  C20: pushing a packet never fails on a consistent buffer, keeps it consistent, and adds the packet;
  when all twenty places are taken it replaces an earliest packet and no other.
\<close>

theorem jitter_buffer_push_contract:
  assumes "jb_ok jb" "packet_ok pkt" "jb_window base jb"
  shows "\<exists>jb'. jitter_buffer_push pkt jb = Some jb' \<and> jb_ok jb' \<and>
    (if size (jb_packets jb) < JITTER_BUFFER_SIZE
     then jb_packets jb' = add_mset (packet_view pkt) (jb_packets jb)
     else \<exists>x. earliest base x (jb_packets jb) \<and>
       jb_packets jb' = add_mset (packet_view pkt) (jb_packets jb - {#x#}))"
  using jitter_push_ok [OF assms(1,2), of base] assms(3) jb_packets_le [OF assms(1)] by fastforce

text \<open>
  C21: popping from a consistent buffer. An empty buffer yields nothing and starts buffering; while
  buffering, nothing is played before five packets have arrived; otherwise an earliest packet comes
  out, the rest stays, and buffering ends.
\<close>

theorem jitter_buffer_pop_contract:
  assumes "jb_ok jb" "jb_window base jb"
  shows "if jb_packets jb = {#} then jitter_buffer_pop jb = (None, jb\<lparr>jb_buffering := True\<rparr>)
    else if jb_buffering jb \<and> size (jb_packets jb) < 5 then jitter_buffer_pop jb = (None, jb)
    else \<exists>e jb'. jitter_buffer_pop jb = (Some e, jb') \<and> earliest base (jpacket e) (jb_packets jb) \<and>
      jb_packets jb' = jb_packets jb - {#jpacket e#} \<and> jb_ok jb' \<and> \<not> jb_buffering jb'"
  using jitter_pop_empty [OF assms(1)] jitter_pop_gathering [OF assms(1)] jitter_pop_earliest [OF assms]
  by (simp add: not_less)

text \<open>
  A packet that arrives late, after a later one was played, is played behind it: whatever the two
  numbers are, the order of arrival decides.
\<close>

theorem late_packet_played_behind:
  assumes "packet_ok p" "packet_ok q" "in_window base (ap_seq_num p)" "in_window base (ap_seq_num q)"
  shows "\<exists>e f jb. buffer_run jitter_buffer_push jitter_buffer_pop [Arrive q, Play, Arrive p, Play] jitter_zero = Some ([e, f], jb) \<and>
    jpacket e = packet_view q \<and> jpacket f = packet_view p"
proof -
  have step: "\<exists>jb1 e jb2. jitter_buffer_push r jb = Some jb1 \<and> jitter_buffer_pop jb1 = (Some e, jb2) \<and> jpacket e = packet_view r \<and>
      jb_ok jb2 \<and> jb_packets jb2 = {#} \<and> \<not> jb_buffering jb2"
    if r: "packet_ok r" "in_window base (ap_seq_num r)" "jb_ok jb" "jb_packets jb = {#}" "\<not> jb_buffering jb" for r jb
  proof -
    obtain jb1 where jb1: "jitter_buffer_push r jb = Some jb1" "jb_ok jb1" "\<not> jb_buffering jb1" "jb_packets jb1 = {#packet_view r#}"
      using jitter.push_space [OF r(3,1)] r(4,5) by auto
    moreover have "jb_window base jb1" using jb1(4) r(2) by (simp add: jb_window_def packet_view_def)
    ultimately show ?thesis using jitter_pop_earliest [of jb1 base] by (auto simp: earliest_def least_by_def)
  qed
  from step [OF assms(2,4), of jitter_zero] obtain jb1 e jb2 where
    "jitter_buffer_push q jitter_zero = Some jb1" "jitter_buffer_pop jb1 = (Some e, jb2)" "jpacket e = packet_view q"
    "jb_ok jb2" "jb_packets jb2 = {#}" "\<not> jb_buffering jb2" by auto
  with step [OF assms(1,3), of jb2] show ?thesis by auto
qed

section \<open>Witnesses\<close>

definition numbered_packet :: "u32 \<Rightarrow> audio_packet" where
  "numbered_packet n = \<lparr>ap_room_id = 0, ap_sender_id = 0, ap_seq_num = n, ap_timestamp = n,
     ap_payload_size = 2, ap_payload = replicate AUDIO_PAYLOAD_SIZE 0\<rparr>"

lemma numbered_packet_ok [simp]: "packet_ok (numbered_packet n)" "ap_seq_num (numbered_packet n) = n"
  by (simp_all add: packet_ok_def numbered_packet_def)

theorem jitter_buffer_reorders_witness:
  "\<exists>jb es jb'. push_all [numbered_packet 0, numbered_packet (- 1)] jitter_zero = Some jb \<and>
    pop_many (length [numbered_packet 0, numbered_packet (- 1)]) jb = (map Some es, jb') \<and>
    sorted (map (\<lambda>e. seq_offset (- 1) (je_seq_num e)) es) \<and>
    mset (map jpacket es) = mset (map packet_view [numbered_packet 0, numbered_packet (- 1)])"
  by (rule jitter_buffer_reorders) (simp_all add: in_window_def seq_offset_def)

theorem jitter_buffer_push_contract_witness:
  "\<exists>jb'. jitter_buffer_push (numbered_packet 7) jitter_zero = Some jb' \<and> jb_ok jb' \<and>
    (if size (jb_packets jitter_zero) < JITTER_BUFFER_SIZE
     then jb_packets jb' = add_mset (packet_view (numbered_packet 7)) (jb_packets jitter_zero)
     else \<exists>x. earliest 0 x (jb_packets jitter_zero) \<and>
       jb_packets jb' = add_mset (packet_view (numbered_packet 7)) (jb_packets jitter_zero - {#x#}))"
  by (rule jitter_buffer_push_contract) (simp_all add: jb_window_def)

theorem late_packet_played_behind_witness:
  "\<exists>e f jb. buffer_run jitter_buffer_push jitter_buffer_pop
      [Arrive (numbered_packet 1), Play, Arrive (numbered_packet 0), Play] jitter_zero = Some ([e, f], jb) \<and>
    jpacket e = packet_view (numbered_packet 1) \<and> jpacket f = packet_view (numbered_packet 0)"
  by (rule late_packet_played_behind [where base = 0]) (simp_all add: in_window_def seq_offset_def)

theorem jitter_buffer_pop_contract_witness:
  "jitter_buffer_pop jitter_zero = (None, jitter_zero\<lparr>jb_buffering := True\<rparr>) \<and>
    (\<exists>jb e jb'. jitter_buffer_push (numbered_packet 7) jitter_zero = Some jb \<and> jitter_buffer_pop jb = (Some e, jb') \<and>
      jpacket e = packet_view (numbered_packet 7) \<and> jb_packets jb' = {#})"
proof
  show "jitter_buffer_pop jitter_zero = (None, jitter_zero\<lparr>jb_buffering := True\<rparr>)"
    using jitter_buffer_pop_contract [of jitter_zero 0] by (simp add: jb_window_def)
  obtain jb where jb: "jitter_buffer_push (numbered_packet 7) jitter_zero = Some jb" "jb_ok jb" "\<not> jb_buffering jb"
      "jb_packets jb = {#packet_view (numbered_packet 7)#}"
    using jitter.push_space [of jitter_zero "numbered_packet 7"] by auto
  moreover have "jb_window 7 jb" using jb(4) by (simp add: jb_window_def packet_view_def in_window_def seq_offset_def)
  ultimately show "\<exists>jb e jb'. jitter_buffer_push (numbered_packet 7) jitter_zero = Some jb \<and> jitter_buffer_pop jb = (Some e, jb') \<and>
      jpacket e = packet_view (numbered_packet 7) \<and> jb_packets jb' = {#}"
    using jitter_buffer_pop_contract [of jb 7] by (auto simp: earliest_def least_by_def)
qed

end
