(* ===== verification/Task_Queue.thy ===== *)
theory Task_Queue
  imports Protocol Bounded_Fifo
begin

text \<open>
  The queue between the network thread and the worker threads of \<open>src/src/server/client_handler.c\<close>:
  256 places, each with the client a command came from and its text. The part of
  \<open>process_client_command\<close> and of \<open>worker_thread_main\<close> that runs under \<open>task_mutex\<close> is an
  interpretation of \<open>bounded_fifo\<close>.
\<close>

section \<open>Definitions\<close>

abbreviation (input) MAX_QUEUED_TASKS :: nat where "MAX_QUEUED_TASKS \<equiv> 256"

record worker_task =
  task_c :: "addr option"
  task_command :: string

record task_queue =
  tq_tasks :: "worker_task list"
  tq_count :: nat
  tq_head :: nat
  tq_tail :: nat

definition task_queue_init :: task_queue where
  "task_queue_init = \<lparr>tq_tasks = replicate MAX_QUEUED_TASKS \<lparr>task_c = None, task_command = []\<rparr>,
     tq_count = 0, tq_head = 0, tq_tail = 0\<rparr>"

text \<open>\<open>(False, q)\<close> when the queue is full.\<close>

definition task_put :: "worker_task \<Rightarrow> task_queue \<Rightarrow> (bool \<times> task_queue) option" where
  "task_put t q =
     (if tq_count q = MAX_QUEUED_TASKS then Some (False, q)
      else do { ts \<leftarrow> arr_set (tq_tasks q) (tq_tail q) t;
                Some (True, q\<lparr>tq_tasks := ts, tq_tail := (tq_tail q + 1) mod MAX_QUEUED_TASKS,
                             tq_count := tq_count q + 1\<rparr>) })"

text \<open>\<open>(None, q)\<close> when the queue is empty: the worker waits on the condition variable.\<close>

definition task_take :: "task_queue \<Rightarrow> (worker_task option \<times> task_queue) option" where
  "task_take q =
     (if tq_count q = 0 then Some (None, q)
      else do { t \<leftarrow> arr_get (tq_tasks q) (tq_head q);
                Some (Some t, q\<lparr>tq_head := (tq_head q + 1) mod MAX_QUEUED_TASKS,
                               tq_count := tq_count q - 1\<rparr>) })"

section \<open>The queue as a list\<close>

definition task_list :: "task_queue \<Rightarrow> worker_task list" where
  "task_list q = ring_items MAX_QUEUED_TASKS (tq_tasks q) (tq_head q) (tq_count q)"

definition task_ok :: "task_queue \<Rightarrow> bool" where
  "task_ok q \<longleftrightarrow> length (tq_tasks q) = MAX_QUEUED_TASKS \<and> tq_head q < MAX_QUEUED_TASKS \<and>
     tq_count q \<le> MAX_QUEUED_TASKS \<and> tq_tail q = (tq_head q + tq_count q) mod MAX_QUEUED_TASKS"

lemma length_task_list [simp]: "length (task_list q) = tq_count q"
  by (simp add: task_list_def)

lemma task_queue_init_ok [simp]: "task_ok task_queue_init" "task_list task_queue_init = []"
  by (simp_all add: task_ok_def task_queue_init_def task_list_def)

lemma task_put_space:
  assumes "task_ok q" "tq_count q < MAX_QUEUED_TASKS"
  shows "\<exists>q'. task_put t q = Some (True, q') \<and> task_ok q' \<and> task_list q' = task_list q @ [t]"
proof -
  have "tq_tail q < 256" using assms by (simp add: task_ok_def)
  then show ?thesis
    using assms ring_items_push [of "tq_tasks q" 256 "tq_count q" "tq_head q" t]
    by (simp add: task_put_def task_ok_def task_list_def mem_simps mod_simps)
qed

lemma task_take_first:
  assumes "task_ok q" "task_list q = t # ts"
  shows "\<exists>q'. task_take q = Some (Some t, q') \<and> task_ok q' \<and> task_list q' = ts"
proof -
  have n: "0 < tq_count q" using assms(2) length_task_list [of q] by simp
  have h: "tq_head q < 256" using assms(1) by (simp add: task_ok_def)
  have "((tq_head q + 1) mod 256 + (tq_count q - 1)) mod 256 = (tq_head q + 1 + (tq_count q - 1)) mod 256"
    by (rule mod_add_left_eq)
  also have "tq_head q + 1 + (tq_count q - 1) = tq_head q + tq_count q" using n by simp
  finally have "tq_tail q = ((tq_head q + 1) mod 256 + (tq_count q - 1)) mod 256"
    using assms(1) by (simp add: task_ok_def)
  then show ?thesis
    using assms n h ring_items_pop [OF n h, of "tq_tasks q"]
    by (auto simp: task_take_def task_ok_def task_list_def mem_simps)
qed

interpretation task_fifo: bounded_fifo MAX_QUEUED_TASKS task_list task_ok task_put task_take
proof
  fix q assume q: "task_ok q"
  show "length (task_list q) \<le> MAX_QUEUED_TASKS" using q by (simp add: task_ok_def)
  show "task_put x q = Some (False, q)" if "length (task_list q) = MAX_QUEUED_TASKS" for x
    using that by (simp add: task_put_def)
  show "\<exists>q'. task_put x q = Some (True, q') \<and> task_ok q' \<and> task_list q' = task_list q @ [x]"
    if "length (task_list q) < MAX_QUEUED_TASKS" for x
    using that task_put_space [OF q] by simp
  show "task_take q = Some (None, q)" if "task_list q = []"
    using that length_task_list [of q] by (simp add: task_take_def)
  show "\<exists>q'. task_take q = Some (Some x, q') \<and> task_ok q' \<and> task_list q' = xs"
    if "task_list q = x # xs" for x xs
    using that task_take_first [OF q] by simp
qed

text \<open>
  C26: the task queue refines a bounded first-in first-out queue. Every sequence of submitted and fetched
  commands does what it does on a list: a command is accepted exactly when fewer than 256 are waiting,
  the accepted commands come out in the order of their arrival, none lost and none twice, a fetch from
  the empty queue gives nothing, and the array is never left.
\<close>

theorem task_queue_fifo:
  assumes "task_ok q" "fifo_spec MAX_QUEUED_TASKS ops (task_list q) = (ins, outs, ts)"
  shows "\<exists>q'. fifo_run task_put task_take ops q = Some (ins, outs, q') \<and> task_ok q' \<and> task_list q' = ts \<and>
    task_list q @ ins = outs @ ts"
  using task_fifo.run_refines [OF assms] fifo_spec_order [OF assms(2)] by blast

theorem task_queue_fifo_witness:
  "\<exists>q'. fifo_run task_put task_take
      [Push \<lparr>task_c = Some 1, task_command = ''LIST''\<rparr>, Pop, Pop, Push \<lparr>task_c = Some 2, task_command = ''LEAVE''\<rparr>]
      task_queue_init =
      Some ([\<lparr>task_c = Some 1, task_command = ''LIST''\<rparr>, \<lparr>task_c = Some 2, task_command = ''LEAVE''\<rparr>],
        [\<lparr>task_c = Some 1, task_command = ''LIST''\<rparr>], q') \<and>
    task_list q' = [\<lparr>task_c = Some 2, task_command = ''LEAVE''\<rparr>]"
  using task_queue_fifo [of task_queue_init "[Push \<lparr>task_c = Some 1, task_command = ''LIST''\<rparr>, Pop, Pop,
    Push \<lparr>task_c = Some 2, task_command = ''LEAVE''\<rparr>]"] by (auto simp del: fifo_run.simps)

end
