(* ===== verification/Server_State.thy ===== *)
theory Server_State
  imports Auth Ipc_Manager Jitter_Buffer Task_Queue
begin

text \<open>
  The global state of the server process: the variables that \<open>src/src/server/server.h\<close> declares and
  \<open>main.c\<close> defines, the static variables of the components, the heap of \<open>client\<close> and \<open>room\<close> objects,
  and what the process has sent. Reading or writing an object that is not in the heap (freed or
  never allocated) is undefined: \<open>None\<close>.
\<close>

section \<open>State\<close>

abbreviation (input) FD_MAP_SIZE :: nat where "FD_MAP_SIZE \<equiv> 4096"

record server =
  server_on :: bool
  server_port :: int
  tcp_listen_fd :: int
  udp_fd :: int
  epoll_fd :: int
  db :: file_db
  room_heap :: "addr \<rightharpoonup> room"
  room_head :: "addr option"
  room_count :: int
  client_heap :: "addr \<rightharpoonup> client"
  clients :: "addr option list"
  client_count :: int
  fd_to_slot :: "int list"
  open_fds :: "int list" \<comment> \<open>the client sockets that are open and registered with epoll\<close>
  tasks :: task_queue
  ring :: ipc
  jitter_buffers :: "jitter_buffer list"
  room_speaker_sem :: "nat list"
  tcp_out :: "(int \<times> response_packet) list" \<comment> \<open>the responses sent, with their socket\<close>
  udp_out :: "(sockaddr_in \<times> nat \<times> audio_packet) list" \<comment> \<open>the datagrams sent, with address and length\<close>

section \<open>Objects in the heap\<close>

definition upd_room :: "addr \<Rightarrow> (room \<Rightarrow> room) \<Rightarrow> server \<Rightarrow> server option" where
  "upd_room a f s =
     (case room_heap s a of None \<Rightarrow> None | Some r \<Rightarrow> Some (s\<lparr>room_heap := (room_heap s)(a \<mapsto> f r)\<rparr>))"

definition free_room :: "addr \<Rightarrow> server \<Rightarrow> server option" where
  "free_room a s =
     (if room_heap s a = None then None else Some (s\<lparr>room_heap := (room_heap s)(a := None)\<rparr>))"

definition upd_client :: "addr \<Rightarrow> (client \<Rightarrow> client) \<Rightarrow> server \<Rightarrow> server option" where
  "upd_client a f s =
     (case client_heap s a of None \<Rightarrow> None
      | Some c \<Rightarrow> Some (s\<lparr>client_heap := (client_heap s)(a \<mapsto> f c)\<rparr>))"

definition free_client :: "addr \<Rightarrow> server \<Rightarrow> server option" where
  "free_client a s =
     (if client_heap s a = None then None else Some (s\<lparr>client_heap := (client_heap s)(a := None)\<rparr>))"

text \<open>
  \<open>c->ref_count--; if (c->ref_count == 0) free(c);\<close>, which occurs three times in the sources. The counter
  is an unbounded integer here: only some two thousand million commands of blanks from one client, each
  of which leaves a reference behind, could make the C \<open>int\<close> overflow.
\<close>

definition drop_ref :: "addr \<Rightarrow> server \<Rightarrow> server option" where
  "drop_ref a s =
     do { c \<leftarrow> client_heap s a;
          s1 \<leftarrow> upd_client a (\<lambda>c. c\<lparr>c_ref_count := c_ref_count c - 1\<rparr>) s;
          if c_ref_count c - 1 = 0 then free_client a s1 else Some s1 }"

lemma upd_room_Some [mem_simps]:
  "room_heap s a = Some r \<Longrightarrow> upd_room a f s = Some (s\<lparr>room_heap := (room_heap s)(a \<mapsto> f r)\<rparr>)"
  by (simp add: upd_room_def)

lemma upd_client_Some [mem_simps]:
  "client_heap s a = Some c \<Longrightarrow> upd_client a f s = Some (s\<lparr>client_heap := (client_heap s)(a \<mapsto> f c)\<rparr>)"
  by (simp add: upd_client_def)

lemma free_room_Some [mem_simps]:
  "room_heap s a = Some r \<Longrightarrow> free_room a s = Some (s\<lparr>room_heap := (room_heap s)(a := None)\<rparr>)"
  by (simp add: free_room_def)

lemma free_client_Some [mem_simps]:
  "client_heap s a = Some c \<Longrightarrow> free_client a s = Some (s\<lparr>client_heap := (client_heap s)(a := None)\<rparr>)"
  by (simp add: free_client_def)

section \<open>Sending a response\<close>

text \<open>\<open>send\<close> on a closed or broken socket only logs an error; here the attempt is recorded.\<close>

definition send_response :: "int \<Rightarrow> response_packet \<Rightarrow> server \<Rightarrow> server" where
  "send_response client_fd resp s = s\<lparr>tcp_out := tcp_out s @ [(client_fd, resp)]\<rparr>"

section \<open>Signals\<close>

abbreviation (input) SIGINT :: int where "SIGINT \<equiv> 2"
abbreviation (input) SIGPIPE :: int where "SIGPIPE \<equiv> 13"
abbreviation (input) SIGTERM :: int where "SIGTERM \<equiv> 15"

definition handle_signal :: "int \<Rightarrow> server \<Rightarrow> server" where
  "handle_signal sig s = (if sig = SIGINT \<or> sig = SIGTERM then s\<lparr>server_on := False\<rparr> else s)"

text \<open>
  The dispositions that \<open>main\<close> installs: its handler for SIGINT only, and SIGPIPE ignored. The other
  signals considered are those whose default action ends the process at once, SIGTERM among them:
  \<open>Inl\<close>.
\<close>

definition deliver_signal :: "int \<Rightarrow> server \<Rightarrow> int + server" where
  "deliver_signal sig s =
     (if sig = SIGINT then Inr (handle_signal sig s) else if sig = SIGPIPE then Inr s else Inl sig)"

section \<open>The state before initialisation\<close>

definition server_zero :: "file_db \<Rightarrow> server" where
  "server_zero files =
     \<lparr>server_on = True, server_port = DEFAULT_PORT, tcp_listen_fd = - 1, udp_fd = - 1, epoll_fd = - 1,
      db = files\<lparr>rooms_fd := - 1, wal_fd := - 1, users_fd := - 1\<rparr>,
      room_heap = Map.empty, room_head = None, room_count = 0,
      client_heap = Map.empty, clients = replicate MAX_CLIENTS None, client_count = 0,
      fd_to_slot = replicate FD_MAP_SIZE 0, open_fds = [],
      tasks = task_queue_init, ring = ring_zero,
      jitter_buffers = replicate MAX_CLIENTS jitter_zero,
      room_speaker_sem = replicate MAX_ROOMS 0, tcp_out = [], udp_out = []\<rparr>"

end
