(* ===== verification/Room_Manager.thy ===== *)
theory Room_Manager
  imports Server_State
begin

text \<open>
  \<open>src/src/server/room_manager.c\<close>: the rooms as a doubly linked list in the heap. The traversals are
  partial functions on the pointers as they stand (\<open>None\<close> for a dangling pointer or a list that does
  not end); that they return is a consequence of the list invariant in \<open>Room_List\<close>. The result of
  \<open>malloc\<close> is an argument of \<open>room_create\<close>. A function runs to its end before another thread gets
  hold of the rooms.
\<close>

section \<open>Traversals\<close>

partial_function (option) find_room ::
    "(room \<Rightarrow> bool) \<Rightarrow> (addr \<rightharpoonup> room) \<Rightarrow> addr option \<Rightarrow> addr option option" where
  [code]: "find_room P h p =
     (case p of
        None \<Rightarrow> Some None
      | Some a \<Rightarrow>
          (case h a of
             None \<Rightarrow> None
           | Some r \<Rightarrow> if P r then Some (Some a) else find_room P h (r_next r)))"

partial_function (option) last_room :: "(addr \<rightharpoonup> room) \<Rightarrow> addr \<Rightarrow> addr option" where
  [code]: "last_room h a =
     (case h a of
        None \<Rightarrow> None
      | Some r \<Rightarrow> (case r_next r of None \<Rightarrow> Some a | Some b \<Rightarrow> last_room h b))"

definition room_find_by_name :: "string \<Rightarrow> server \<Rightarrow> addr option option" where
  "room_find_by_name name s = find_room (\<lambda>r. r_room_name r = name) (room_heap s) (room_head s)"

definition room_find_by_id :: "nat \<Rightarrow> server \<Rightarrow> addr option option" where
  "room_find_by_id room_id s = find_room (\<lambda>r. r_room_id r = room_id) (room_heap s) (room_head s)"

section \<open>The listing\<close>

definition list_header :: string where
  "list_header = left_justify 5 ''ID'' @ '' '' @ left_justify 20 ''Name'' @ '' '' @
     left_justify 10 ''Users'' @ '' '' @ ''Protected'' @ [newline]"

definition list_line :: "room \<Rightarrow> string" where
  "list_line r = left_justify 5 (print_nat (r_room_id r)) @ '' '' @ left_justify 20 (r_room_name r) @ '' '' @
     left_justify 10 (print_nat (r_participant_count r)) @ '' '' @
     (if r_password r \<noteq> [] then ''Yes'' else ''No'') @ [newline]"

text \<open>
  The loop with the text written so far and \<open>pos\<close>, to which \<open>snprintf\<close> adds the length of the whole
  line even when it was cut off.
\<close>

partial_function (option) list_rooms ::
    "(addr \<rightharpoonup> room) \<Rightarrow> nat \<Rightarrow> addr option \<Rightarrow> nat \<Rightarrow> string \<Rightarrow> string option" where
  [code]: "list_rooms h buffer_size p pos out =
     (case p of
        None \<Rightarrow> Some out
      | Some a \<Rightarrow>
          if pos < buffer_size - 1 then
            (case h a of
               None \<Rightarrow> None
             | Some r \<Rightarrow>
                 list_rooms h buffer_size (r_next r) (pos + length (list_line r))
                   (out @ snprintf (buffer_size - pos) (list_line r)))
          else Some out)"

definition room_list_formatted :: "nat \<Rightarrow> server \<Rightarrow> string option" where
  "room_list_formatted buffer_size s =
     (case room_head s of
        None \<Rightarrow> Some (snprintf buffer_size ''No active rooms'')
      | Some a \<Rightarrow> list_rooms (room_heap s) buffer_size (Some a) (length list_header)
                   (snprintf buffer_size list_header))"

section \<open>Creating and deleting\<close>

definition room_manager_init :: "server \<Rightarrow> server" where
  "room_manager_init s = s\<lparr>room_head := None, room_count := 0\<rparr>"

definition new_room :: "nat \<Rightarrow> string \<Rightarrow> string \<Rightarrow> room" where
  "new_room room_id name password =
     \<lparr>r_room_id = room_id, r_room_name = name, r_password = password,
      r_participants = replicate MAX_CLIENTS None, r_participant_count = 0, r_active_speakers = 0,
      r_prev = None, r_next = None\<rparr>"

definition new_room_record :: "nat \<Rightarrow> string \<Rightarrow> string \<Rightarrow> room_record" where
  "new_room_record room_id name password =
     \<lparr>rr_room_id = int room_id, rr_room_name = name, rr_password = password, rr_is_active = 1,
      rr_user_count = 0\<rparr>"

text \<open>Linking the new room behind the last one.\<close>

definition link_room :: "addr \<Rightarrow> room \<Rightarrow> server \<Rightarrow> server option" where
  "link_room n r s =
     (case room_head s of
        None \<Rightarrow> Some (s\<lparr>room_head := Some n, room_heap := (room_heap s)(n \<mapsto> r)\<rparr>)
      | Some first \<Rightarrow>
          do { current \<leftarrow> last_room (room_heap s) first;
               s1 \<leftarrow> upd_room current (\<lambda>q. q\<lparr>r_next := Some n\<rparr>) s;
               Some (s1\<lparr>room_heap := (room_heap s1)(n \<mapsto> r\<lparr>r_prev := Some current\<rparr>)\<rparr>) })"

definition room_create :: "addr option \<Rightarrow> string \<Rightarrow> string \<Rightarrow> addr \<Rightarrow> server \<Rightarrow> (int \<times> server) option" where
  "room_create malloc_result name password creator s =
     do { found \<leftarrow> room_find_by_name name s;
          if found \<noteq> None then Some (- 1, s)
          else if int MAX_ROOMS \<le> room_count s then Some (- 2, s)
          else
            let room_id = db_next_free_room_id (db s)
            in case malloc_result of
                 None \<Rightarrow> Some (- 3, s)
               | Some n \<Rightarrow>
                   if MAX_ROOM_NAME_LEN \<le> length name \<or> MAX_PASSWORD_LEN \<le> length password then None
                   else do {
                     (ok, d) \<leftarrow> db_write_room room_id (new_room_record room_id name password) (db s);
                     if \<not> ok then Some (- 4, s\<lparr>db := d\<rparr>)
                     else do { s1 \<leftarrow> link_room n (new_room room_id name password) (s\<lparr>db := d\<rparr>);
                               _ \<leftarrow> client_heap s1 creator;
                               Some (int room_id, s1\<lparr>room_count := room_count s1 + 1\<rparr>) } } }"

text \<open>Unlinking: the room's neighbours and the head.\<close>

definition unlink_room :: "room \<Rightarrow> server \<Rightarrow> server option" where
  "unlink_room r s =
     do { s1 \<leftarrow> (case r_prev r of
                  Some p \<Rightarrow> upd_room p (\<lambda>q. q\<lparr>r_next := r_next r\<rparr>) s
                | None \<Rightarrow> Some (s\<lparr>room_head := r_next r\<rparr>));
          s2 \<leftarrow> (case r_next r of
                  Some n \<Rightarrow> upd_room n (\<lambda>q. q\<lparr>r_prev := r_prev r\<rparr>) s1
                | None \<Rightarrow> Some s1);
          Some (s2\<lparr>room_count := room_count s2 - 1\<rparr>) }"

definition room_delete :: "nat \<Rightarrow> server \<Rightarrow> (bool \<times> server) option" where
  "room_delete room_id s =
     do { found \<leftarrow> find_room (\<lambda>r. r_room_id r = room_id) (room_heap s) (room_head s);
          (case found of
             None \<Rightarrow> Some (False, s)
           | Some a \<Rightarrow>
               do { r \<leftarrow> room_heap s a;
                    s1 \<leftarrow> unlink_room r s;
                    d \<leftarrow> (case db_read_room room_id (db s1) of
                           None \<Rightarrow> Some (db s1)
                         | Some rec \<Rightarrow>
                             map_option snd (db_write_room room_id (rec\<lparr>rr_is_active := 0\<rparr>) (db s1)));
                    s2 \<leftarrow> free_room a (s1\<lparr>db := d\<rparr>);
                    Some (True, s2) }) }"

section \<open>Joining and leaving\<close>

text \<open>\<open>rec.user_count = r->participant_count\<close> in the room's record, when it has one.\<close>

definition write_user_count :: "nat \<Rightarrow> nat \<Rightarrow> server \<Rightarrow> server option" where
  "write_user_count room_id participant_count s =
     (case db_read_room_raw room_id (db s) of
        None \<Rightarrow> Some s
      | Some rec \<Rightarrow>
          do { (_, d) \<leftarrow> db_write_room room_id (rec\<lparr>rr_user_count := int participant_count\<rparr>) (db s);
               Some (s\<lparr>db := d\<rparr>) })"

text \<open>The loops over the participants array: the index of a client, and closing the gap.\<close>

function find_participant :: "nat \<Rightarrow> nat \<Rightarrow> addr \<Rightarrow> addr option list \<Rightarrow> nat option option" where
  "find_participant i participant_count c ps =
     (if i < participant_count then
        (case arr_get ps i of
           None \<Rightarrow> None
         | Some p \<Rightarrow> if p = Some c then Some (Some i) else find_participant (Suc i) participant_count c ps)
      else Some None)"
  by pat_completeness auto
termination by (relation "measure (\<lambda>(i, n, c, ps). n - i)") auto

function shift_down :: "nat \<Rightarrow> nat \<Rightarrow> addr option list \<Rightarrow> addr option list option" where
  "shift_down j n ps =
     (if j < n then
        (case arr_get ps (j + 1) of
           None \<Rightarrow> None
         | Some p \<Rightarrow>
             (case arr_set ps j p of None \<Rightarrow> None | Some ps' \<Rightarrow> shift_down (j + 1) n ps'))
      else Some ps)"
  by pat_completeness auto
termination by (relation "measure (\<lambda>(j, n, ps). n - j)") auto

declare find_participant.simps [simp del] shift_down.simps [simp del]

definition close_gap :: "nat \<Rightarrow> nat \<Rightarrow> addr option list \<Rightarrow> addr option list option" where
  "close_gap i participant_count ps =
     do { ps1 \<leftarrow> shift_down i (participant_count - 1) ps;
          arr_set ps1 (participant_count - 1) None }"

text \<open>Removing a client from a room's array: whether it was there, and the room afterwards.\<close>

definition drop_participant :: "addr \<Rightarrow> bool \<Rightarrow> room \<Rightarrow> (bool \<times> room) option" where
  "drop_participant c is_mute r =
     do { found \<leftarrow> find_participant 0 (r_participant_count r) c (r_participants r);
          (case found of
             None \<Rightarrow> Some (False, r)
           | Some i \<Rightarrow>
               do { ps \<leftarrow> close_gap i (r_participant_count r) (r_participants r);
                    Some (True, r\<lparr>r_participants := ps, r_participant_count := r_participant_count r - 1,
                      r_active_speakers := (if is_mute then r_active_speakers r else r_active_speakers r - 1)\<rparr>) }) }"

text \<open>
  What \<open>room_leave\<close> and \<open>remove_client_from_room\<close> both do in the end: the record on disk gets the new
  number of users, and a room without participants is deleted.
\<close>

definition settle_room :: "nat \<Rightarrow> nat \<Rightarrow> server \<Rightarrow> server option" where
  "settle_room room_id participant_count s =
     do { s1 \<leftarrow> write_user_count room_id participant_count s;
          if participant_count = 0 then map_option snd (room_delete room_id s1) else Some s1 }"

definition room_leave :: "addr \<Rightarrow> server \<Rightarrow> (int \<times> server) option" where
  "room_leave c s =
     do { cl \<leftarrow> client_heap s c;
          (case c_current_room cl of
             None \<Rightarrow> Some (- 1, s)
           | Some a \<Rightarrow>
               do { r \<leftarrow> room_heap s a;
                    (found, r1) \<leftarrow> drop_participant c (c_is_mute cl) r;
                    s1 \<leftarrow> upd_room a (\<lambda>_. r1) s;
                    s2 \<leftarrow> (if found then upd_client c (\<lambda>cl. cl\<lparr>c_current_room := None\<rparr>) s1 else Some s1);
                    s3 \<leftarrow> settle_room (r_room_id r1) (r_participant_count r1) s2;
                    Some (0, s3) }) }"

definition room_join :: "nat \<Rightarrow> string \<Rightarrow> addr \<Rightarrow> server \<Rightarrow> (int \<times> server) option" where
  "room_join room_id password c s =
     do { cl \<leftarrow> client_heap s c;
          s0 \<leftarrow> (if c_current_room cl \<noteq> None then map_option snd (room_leave c s) else Some s);
          found \<leftarrow> find_room (\<lambda>r. r_room_id r = room_id) (room_heap s0) (room_head s0);
          (case found of
             None \<Rightarrow> Some (- 2, s0)
           | Some a \<Rightarrow>
               do { r \<leftarrow> room_heap s0 a;
                    if r_password r \<noteq> [] \<and> r_password r \<noteq> password then Some (- 3, s0)
                    else if MAX_CLIENTS \<le> r_participant_count r then Some (- 4, s0)
                    else do {
                      ps \<leftarrow> arr_set (r_participants r) (r_participant_count r) (Some c);
                      s1 \<leftarrow> upd_room a (\<lambda>r. r\<lparr>r_participants := ps,
                              r_participant_count := r_participant_count r + 1\<rparr>) s0;
                      s2 \<leftarrow> upd_client c (\<lambda>cl. cl\<lparr>c_current_room := Some a\<rparr>) s1;
                      s3 \<leftarrow> write_user_count room_id (r_participant_count r + 1) s2;
                      Some (0, s3) } }) }"

text \<open>
  Like \<open>room_leave\<close>, but the client keeps its \<open>current_room\<close> pointer: the caller is about to close
  the connection.
\<close>

definition remove_client_from_room :: "addr \<Rightarrow> addr \<Rightarrow> server \<Rightarrow> server option" where
  "remove_client_from_room a c s =
     do { r \<leftarrow> room_heap s a;
          cl \<leftarrow> client_heap s c;
          (_, r1) \<leftarrow> drop_participant c (c_is_mute cl) r;
          s1 \<leftarrow> upd_room a (\<lambda>_. r1) s;
          settle_room (r_room_id r1) (r_participant_count r1) s1 }"

end
