(* ===== verification/Room_List.thy ===== *)
theory Room_List
  imports Room_Manager
begin

text \<open>
  The doubly linked list of rooms. \<open>seg h q p as m e\<close> says that the nodes \<open>as\<close> are linked in both
  directions in the heap \<open>h\<close>, starting at \<open>p\<close> with predecessor \<open>q\<close>, and that after the last node \<open>m\<close>
  the pointer \<open>e\<close> follows. Under it the traversals of \<open>Room_Manager\<close> end and compute the expected
  list functions, and linking and unlinking insert and remove one node. Everything of a room except
  its two links is \<open>room_data\<close>.
\<close>

section \<open>Linked segments\<close>

fun seg :: "(addr \<rightharpoonup> room) \<Rightarrow> addr option \<Rightarrow> addr option \<Rightarrow> addr list \<Rightarrow> addr option \<Rightarrow> addr option \<Rightarrow> bool" where
  "seg h q p [] m e \<longleftrightarrow> p = e \<and> q = m"
| "seg h q p (a # as) m e \<longleftrightarrow>
     p = Some a \<and> (\<exists>r. h a = Some r \<and> r_prev r = q \<and> seg h (Some a) (r_next r) as m e)"

definition room_data :: "room \<Rightarrow> room" where
  "room_data r = r\<lparr>r_prev := None, r_next := None\<rparr>"

lemma room_data_fields [simp]:
  "r_room_id (room_data r) = r_room_id r" "r_room_name (room_data r) = r_room_name r"
  "r_password (room_data r) = r_password r" "r_participants (room_data r) = r_participants r"
  "r_participant_count (room_data r) = r_participant_count r"
  "r_active_speakers (room_data r) = r_active_speakers r"
  by (simp_all add: room_data_def)

lemma room_data_links [simp]:
  "room_data (r\<lparr>r_next := x\<rparr>) = room_data r" "room_data (r\<lparr>r_prev := x\<rparr>) = room_data r"
  by (simp_all add: room_data_def)

lemma seg_append:
  "seg h q p (as @ bs) m e \<longleftrightarrow> (\<exists>m' e'. seg h q p as m' e' \<and> seg h m' e' bs m e)"
  by (induction as arbitrary: q p) auto

lemma seg_frame:
  assumes "\<And>a. a \<in> set as \<Longrightarrow> map_option (\<lambda>r. (r_prev r, r_next r)) (h' a) = map_option (\<lambda>r. (r_prev r, r_next r)) (h a)"
  shows "seg h' q p as m e = seg h q p as m e"
  using assms
proof (induction as arbitrary: q p)
  case (Cons a as)
  have "map_option (\<lambda>r. (r_prev r, r_next r)) (h' a) = map_option (\<lambda>r. (r_prev r, r_next r)) (h a)"
    using Cons.prems by simp
  with Cons show ?case by (cases "h a"; cases "h' a") auto
qed simp

lemma seg_update_other: "a \<notin> set as \<Longrightarrow> seg (h(a := x)) q p as m e = seg h q p as m e"
  by (rule seg_frame) auto

lemma seg_heap: "seg h q p as m e \<Longrightarrow> a \<in> set as \<Longrightarrow> h a \<noteq> None"
  by (induction as arbitrary: q p) auto

lemma seg_last: "seg h q p as m e \<Longrightarrow> as \<noteq> [] \<Longrightarrow> m = Some (last as)"
  by (induction as arbitrary: q p) (auto split: if_splits)

lemma seg_start: "seg h q p as m e \<Longrightarrow> as \<noteq> [] \<Longrightarrow> p = Some (hd as)"
  by (cases as) auto

section \<open>Traversals\<close>

lemma find_room_seg:
  "seg h q p as m None \<Longrightarrow> find_room P h p = Some (find (\<lambda>a. P (the (h a))) as)"
proof (induction as arbitrary: q p)
  case Nil
  then show ?case by (subst find_room.simps) simp
next
  case (Cons a as)
  then show ?case by (subst find_room.simps) auto
qed

lemma last_room_seg:
  assumes "seg h q (Some a) as m None"
  shows "last_room h a = Some (last as)"
  using assms
proof (induction as arbitrary: q a)
  case (Cons b as)
  then obtain r where r: "a = b" "h a = Some r" "seg h (Some a) (r_next r) as m None" by auto
  show ?case
  proof (cases as)
    case Nil
    with r show ?thesis by (subst last_room.simps) simp
  next
    case (Cons c cs)
    with r(3) have "r_next r = Some c" by simp
    with Cons r Cons.IH [of "Some a" c] show ?thesis by (subst last_room.simps) simp
  qed
qed simp

section \<open>Linking\<close>

text \<open>What the list is, what stays of the other rooms, and what else changes.\<close>

definition same_data :: "(addr \<rightharpoonup> room) \<Rightarrow> (addr \<rightharpoonup> room) \<Rightarrow> addr \<Rightarrow> bool" where
  "same_data h h' a \<longleftrightarrow> map_option room_data (h' a) = map_option room_data (h a)"

lemma same_data_refl [simp]: "same_data h h a"
  by (simp add: same_data_def)

lemma link_room_seg:
  assumes "seg (room_heap s) None (room_head s) as m None" "n \<notin> set as" "distinct as"
    "r_prev r = None" "r_next r = None"
  shows "\<exists>h p. link_room n r s = Some (s\<lparr>room_head := p, room_heap := h\<rparr>) \<and>
    seg h None p (as @ [n]) (Some n) None \<and> map_option room_data (h n) = Some (room_data r) \<and>
    (\<forall>a. a \<noteq> n \<longrightarrow> same_data (room_heap s) h a)"
proof (cases as rule: rev_cases)
  case Nil
  with assms show ?thesis
    by (intro exI [of _ "(room_heap s)(n \<mapsto> r)"] exI [of _ "Some n"]) (simp add: link_room_def same_data_def)
next
  case (snoc bs b)
  then obtain first where first: "room_head s = Some first" "seg (room_heap s) None (Some first) as m None"
    using assms(1) seg_start by (metis append_is_Nil_conv list.discI)
  obtain m' e' where bs: "seg (room_heap s) None (room_head s) bs m' e'"
      and b: "seg (room_heap s) m' e' [b] m None"
    using assms(1) snoc by (auto simp: seg_append)
  then obtain r' where r': "room_heap s b = Some r'" "r_prev r' = m'" "r_next r' = None" "e' = Some b" by auto
  have nb: "n \<noteq> b" "b \<notin> set bs" "n \<notin> set bs" using assms(2,3) snoc by auto
  let ?h = "(room_heap s)(b \<mapsto> r'\<lparr>r_next := Some n\<rparr>, n \<mapsto> r\<lparr>r_prev := Some b\<rparr>)"
  have "last_room (room_heap s) first = Some b" using last_room_seg [OF first(2)] snoc by simp
  then have "link_room n r s = Some (s\<lparr>room_head := room_head s, room_heap := ?h\<rparr>)"
    using first(1) r'(1) by (simp add: link_room_def mem_simps)
  moreover have "seg ?h None (room_head s) (as @ [n]) (Some n) None"
    using bs nb r' assms(5) by (simp add: snoc seg_append seg_update_other)
  moreover have "same_data (room_heap s) ?h a" if "a \<noteq> n" for a
    using that r'(1) by (auto simp: same_data_def)
  ultimately show ?thesis by (intro exI [of _ ?h] exI [of _ "room_head s"]) simp
qed

section \<open>Unlinking\<close>

lemma unlink_room_seg:
  assumes "seg (room_heap s) None (room_head s) (as @ a # bs) m None" "distinct (as @ a # bs)"
    "room_heap s a = Some r"
  shows "\<exists>h p m'. unlink_room r s = Some (s\<lparr>room_head := p, room_heap := h, room_count := room_count s - 1\<rparr>) \<and>
    seg h None p (as @ bs) m' None \<and> h a = Some r \<and> (\<forall>b. same_data (room_heap s) h b)"
proof -
  let ?h = "room_heap s"
  have links: "seg ?h None (room_head s) as (r_prev r) (Some a)" "seg ?h (Some a) (r_next r) bs m None"
    using assms(1,3) by (auto simp: seg_append)
  have pre: "\<exists>h p. (case r_prev r of Some p \<Rightarrow> upd_room p (\<lambda>q. q\<lparr>r_next := r_next r\<rparr>) s
        | None \<Rightarrow> Some (s\<lparr>room_head := r_next r\<rparr>)) = Some (s\<lparr>room_head := p, room_heap := h\<rparr>) \<and>
      seg h None p as (r_prev r) (r_next r) \<and> (\<forall>b. b \<notin> set as \<longrightarrow> h b = ?h b) \<and> (\<forall>b. same_data ?h h b)"
  proof (cases as rule: rev_cases)
    case Nil
    with links(1) show ?thesis by (intro exI [of _ ?h] exI [of _ "r_next r"]) simp
  next
    case (snoc cs c)
    with links(1) obtain rc m0 where c: "?h c = Some rc" "r_prev r = Some c" "r_prev rc = m0"
        "seg ?h None (room_head s) cs m0 (Some c)"
      by (auto simp: seg_append)
    let ?h1 = "?h(c \<mapsto> rc\<lparr>r_next := r_next r\<rparr>)"
    have "c \<notin> set cs" using assms(2) snoc by auto
    with c have "seg ?h1 None (room_head s) as (r_prev r) (r_next r)"
      by (simp add: snoc seg_append seg_update_other)
    moreover have "same_data ?h ?h1 b" for b using c(1) by (simp add: same_data_def)
    ultimately show ?thesis
      using c snoc by (intro exI [of _ ?h1] exI [of _ "room_head s"]) (auto simp: mem_simps)
  qed
  then obtain h p where h: "(case r_prev r of Some p \<Rightarrow> upd_room p (\<lambda>q. q\<lparr>r_next := r_next r\<rparr>) s
        | None \<Rightarrow> Some (s\<lparr>room_head := r_next r\<rparr>)) = Some (s\<lparr>room_head := p, room_heap := h\<rparr>)"
      "seg h None p as (r_prev r) (r_next r)" "\<forall>b. b \<notin> set as \<longrightarrow> h b = ?h b" "\<forall>b. same_data ?h h b"
    by blast
  have "h b = ?h b" if "b \<in> set bs" for b using h(3) assms(2) that by auto
  then have bs: "seg h (Some a) (r_next r) bs m None"
    using links(2) seg_frame [of bs h ?h] by simp
  show ?thesis
  proof (cases bs)
    case Nil
    with bs have "r_next r = None" by simp
    with h Nil assms show ?thesis
      by (intro exI [of _ h] exI [of _ p] exI [of _ "r_prev r"]) (simp add: unlink_room_def)
  next
    case (Cons c cs)
    with bs obtain rc where c: "h c = Some rc" "r_next r = Some c" "seg h (Some c) (r_next rc) cs m None"
      by auto
    let ?h2 = "h(c \<mapsto> rc\<lparr>r_prev := r_prev r\<rparr>)"
    have nc: "c \<notin> set as" "c \<notin> set cs" "c \<noteq> a" using assms(2) Cons by auto
    have "seg ?h2 None p (as @ bs) m None"
      using h(2) c nc by (auto simp: Cons seg_append seg_update_other)
    moreover have "same_data ?h ?h2 b" for b using h(4) c(1) unfolding same_data_def by (metis fun_upd_apply option.map(2) room_data_links(2))
    moreover have "?h2 a = Some r" using nc h(3) assms(2,3) by simp
    moreover have "unlink_room r s = Some (s\<lparr>room_head := p, room_heap := ?h2, room_count := room_count s - 1\<rparr>)"
      using h(1) c by (simp add: unlink_room_def mem_simps)
    ultimately show ?thesis by blast
  qed
qed

end
