(* ===== verification/Room_Invariant.thy ===== *)
theory Room_Invariant
  imports Room_List
begin

text \<open>
  The invariant of the room manager and what its operations do under it. \<open>rooms_inv s as\<close> says: the
  rooms are the heap's room objects, linked in the order \<open>as\<close> and counted by \<open>room_count\<close>; each
  participants array holds distinct clients in front and NULL behind; a client is in the array of a
  room exactly when the room is its \<open>current_room\<close> (for clients that are still connected); the room
  ids are distinct and below \<open>MAX_ROOMS\<close>; and the active records of the room file are exactly the
  images of the rooms in memory.
\<close>

section \<open>The participants of a room\<close>

definition members :: "room \<Rightarrow> addr list" where
  "members r = map the (take (r_participant_count r) (r_participants r))"

definition participants_ok :: "room \<Rightarrow> bool" where
  "participants_ok r \<longleftrightarrow> (\<exists>cs. r_participants r = map Some cs @ replicate (MAX_CLIENTS - length cs) None \<and>
     r_participant_count r = length cs \<and> length cs \<le> MAX_CLIENTS \<and> distinct cs)"

lemma members_map: "r_participants r = map Some cs @ rest \<Longrightarrow> r_participant_count r = length cs \<Longrightarrow> members r = cs"
  by (simp add: members_def comp_def)

lemma participants_okD:
  assumes "participants_ok r"
  shows "r_participants r = map Some (members r) @ replicate (MAX_CLIENTS - length (members r)) None"
    "r_participant_count r = length (members r)" "length (members r) \<le> MAX_CLIENTS" "distinct (members r)"
  using assms members_map by (auto simp: participants_ok_def)

lemma participants_okI:
  "r_participants r = map Some cs @ replicate (MAX_CLIENTS - length cs) None \<Longrightarrow>
    r_participant_count r = length cs \<Longrightarrow> length cs \<le> MAX_CLIENTS \<Longrightarrow> distinct cs \<Longrightarrow>
    participants_ok r \<and> members r = cs"
  using members_map by (auto simp: participants_ok_def)

lemma find_participant_found:
  "c \<notin> set xs \<Longrightarrow> i \<le> length xs \<Longrightarrow>
    find_participant i (length (xs @ c # ys)) c (map Some (xs @ c # ys) @ rest) = Some (Some (length xs))"
proof (induction "length xs - i" arbitrary: i)
  case 0
  then show ?case by (subst find_participant.simps) (simp add: arr_get_def nth_append)
next
  case (Suc k)
  then have i: "i < length xs" by simp
  then have "xs ! i \<noteq> c" using Suc.prems(1) by (metis nth_mem)
  with i Suc.hyps(1) [of "Suc i"] Suc.hyps(2) Suc.prems(1) show ?case
    by (subst find_participant.simps) (simp add: arr_get_def nth_append)
qed

lemma find_participant_missing:
  "c \<notin> set cs \<Longrightarrow> find_participant i (length cs) c (map Some cs @ rest) = Some None"
proof (induction "length cs - i" arbitrary: i)
  case 0
  then show ?case by (subst find_participant.simps) simp
next
  case (Suc k)
  then have "cs ! i \<noteq> c" by (metis diff_is_0_eq nat.distinct(1) not_le nth_mem)
  with Suc.hyps(1) [of "Suc i"] Suc.hyps(2) Suc.prems(1) show ?case
    by (subst find_participant.simps) (simp add: arr_get_def nth_append)
qed

lemma shift_down_closes:
  "\<exists>z. shift_down (length xs) (length xs + length ys) (map Some xs @ c # map Some ys @ rest) =
    Some (map Some (xs @ ys) @ z # rest)"
proof (induction ys arbitrary: xs c)
  case Nil
  then show ?case by (subst shift_down.simps) simp
next
  case (Cons y ys)
  have "shift_down (length xs) (length xs + length (y # ys)) (map Some xs @ c # map Some (y # ys) @ rest) =
      shift_down (length (xs @ [y])) (length (xs @ [y]) + length ys)
        (map Some (xs @ [y]) @ Some y # map Some ys @ rest)"
    by (subst shift_down.simps) (simp add: arr_get_def arr_set_def nth_append list_update_append)
  with Cons.IH [of "xs @ [y]" "Some y"] show ?case by simp
qed

lemma drop_participant_member:
  assumes "participants_ok r" "c \<in> set (members r)"
  shows "\<exists>r'. drop_participant c is_mute r = Some (True, r') \<and> participants_ok r' \<and>
    members r' = remove1 c (members r) \<and> r_participant_count r' = r_participant_count r - 1 \<and>
    r_room_id r' = r_room_id r \<and> r_room_name r' = r_room_name r \<and> r_password r' = r_password r \<and>
    r_prev r' = r_prev r \<and> r_next r' = r_next r"
proof -
  note ok = participants_okD [OF assms(1)]
  obtain xs ys where cs: "members r = xs @ c # ys" "c \<notin> set xs" using assms(2) by (metis split_list_first)
  let ?rest = "replicate (MAX_CLIENTS - length (members r)) None :: addr option list"
  have n: "r_participant_count r = length xs + length ys + 1" using ok(2) cs by simp
  have ps: "r_participants r = map Some (xs @ c # ys) @ ?rest" using ok(1) cs by simp
  have find: "find_participant 0 (r_participant_count r) c (r_participants r) = Some (Some (length xs))"
    using find_participant_found [OF cs(2), of 0 ys ?rest] ps n by simp
  obtain z where "shift_down (length xs) (r_participant_count r - 1) (r_participants r) =
      Some (map Some (xs @ ys) @ z # ?rest)"
    using shift_down_closes [of xs ys "Some c" ?rest] ps n by auto
  then have gap: "close_gap (length xs) (r_participant_count r) (r_participants r) =
      Some (map Some (xs @ ys) @ None # ?rest)"
    using n by (simp add: close_gap_def arr_set_def list_update_append)
  have "None # ?rest = replicate (MAX_CLIENTS - length (xs @ ys)) None"
    using ok(3) cs by (simp add: Suc_diff_le flip: replicate_Suc)
  with find gap show ?thesis
    using participants_okI [where cs = "xs @ ys" and r = "r\<lparr>r_participants := map Some (xs @ ys) @ None # ?rest,
        r_participant_count := r_participant_count r - 1,
        r_active_speakers := (if is_mute then r_active_speakers r else r_active_speakers r - 1)\<rparr>"]
      ok(3,4) cs n by (simp add: drop_participant_def remove1_append)
qed

lemma drop_participant_missing:
  assumes "participants_ok r" "c \<notin> set (members r)"
  shows "drop_participant c is_mute r = Some (False, r)"
  using participants_okD [OF assms(1)] find_participant_missing [OF assms(2)]
  by (metis (no_types, lifting) bind.bind_lunit drop_participant_def option.simps(4))

section \<open>The invariant\<close>

definition record_of :: "room \<Rightarrow> room_record" where
  "record_of r = \<lparr>rr_room_id = int (r_room_id r), rr_room_name = r_room_name r, rr_password = r_password r,
     rr_is_active = 1, rr_user_count = int (r_participant_count r)\<rparr>"

definition room_ok :: "room \<Rightarrow> bool" where
  "room_ok r \<longleftrightarrow> participants_ok r \<and> fits MAX_ROOM_NAME_LEN (r_room_name r) \<and>
     fits MAX_PASSWORD_LEN (r_password r) \<and> r_room_id r < MAX_ROOMS"

lemma room_data_ok [simp]:
  "members (room_data r) = members r" "room_ok (room_data r) = room_ok r"
  "record_of (room_data r) = record_of r"
  by (simp_all add: members_def room_ok_def participants_ok_def record_of_def)

text \<open>The rooms without their links, and the parts of the invariant that speak about them.\<close>

definition room_table :: "server \<Rightarrow> addr \<rightharpoonup> room" where
  "room_table s a = map_option room_data (room_heap s a)"

definition list_ok :: "server \<Rightarrow> addr list \<Rightarrow> bool" where
  "list_ok s as \<longleftrightarrow> (\<exists>m. seg (room_heap s) None (room_head s) as m None) \<and> distinct as \<and>
     dom (room_heap s) = set as \<and> room_count s = int (length as)"

definition rooms_ok :: "(addr \<rightharpoonup> room) \<Rightarrow> bool" where
  "rooms_ok H \<longleftrightarrow> (\<forall>a r. H a = Some r \<longrightarrow> room_ok r) \<and>
     (\<forall>a b r r'. H a = Some r \<and> H b = Some r' \<and> r_room_id r = r_room_id r' \<longrightarrow> a = b)"

definition linked :: "(addr \<rightharpoonup> room) \<Rightarrow> (addr \<rightharpoonup> client) \<Rightarrow> bool" where
  "linked H C \<longleftrightarrow>
     (\<forall>a r c. H a = Some r \<and> c \<in> set (members r) \<longrightarrow>
        (\<exists>cl. C c = Some cl \<and> c_is_active cl \<and> c_current_room cl = Some a)) \<and>
     (\<forall>c cl a. C c = Some cl \<and> c_is_active cl \<and> c_current_room cl = Some a \<longrightarrow>
        (\<exists>r. H a = Some r \<and> c \<in> set (members r)))"

definition mirrors :: "(addr \<rightharpoonup> room) \<Rightarrow> room_record list \<Rightarrow> bool" where
  "mirrors H recs \<longleftrightarrow>
     (\<forall>a r. H a = Some r \<longrightarrow> r_room_id r < length recs \<and> recs ! r_room_id r = record_of r) \<and>
     (\<forall>i < length recs. rr_is_active (recs ! i) \<noteq> 0 \<longrightarrow> (\<exists>a r. H a = Some r \<and> r_room_id r = i))"

definition on_disk :: "(addr \<rightharpoonup> room) \<Rightarrow> file_db \<Rightarrow> bool" where
  "on_disk H D \<longleftrightarrow> db_ready D \<and> mirrors H (rooms_of D)"

definition rooms_inv :: "server \<Rightarrow> addr list \<Rightarrow> bool" where
  "rooms_inv s as \<longleftrightarrow> list_ok s as \<and> rooms_ok (room_table s) \<and> linked (room_table s) (client_heap s) \<and>
     on_disk (room_table s) (db s)"

text \<open>The file database keeps the user file.\<close>

definition same_users :: "file_db \<Rightarrow> file_db \<Rightarrow> bool" where
  "same_users d d' \<longleftrightarrow> users_bin d' = users_bin d \<and> users_fd d' = users_fd d"

section \<open>The room file\<close>

lemma record_of_ok: "room_ok r \<Longrightarrow> room_record_ok (record_of r)"
  using participants_okD(2,3) [of r]
  by (simp add: room_ok_def record_of_def room_record_ok_def in_i32_def)

lemma write_record:
  assumes "db_ready D" "room_record_ok rec" "i \<le> length (rooms_of D)"
  shows "\<exists>D'. db_write_room i rec D = Some (True, D') \<and> db_ready D' \<and> same_users D D' \<and>
    rooms_of D' = (if i < length (rooms_of D) then (rooms_of D)[i := rec] else rooms_of D @ [rec])"
proof -
  obtain D' where "db_write_room i rec D = Some (True, D')"
    using db_write_room_ready [OF assms(1,2)] by blast
  with db_write_room_ready_keeps [OF assms(1,2) this] db_write_room_records [OF assms this]
  show ?thesis by (simp add: same_users_def)
qed

lemma on_disk_read:
  assumes "on_disk H D" "H a = Some r"
  shows "db_read_room_raw (r_room_id r) D = Some (record_of r)"
    "db_read_room (r_room_id r) D = Some (record_of r)"
proof -
  have "r_room_id r < length (rooms_of D)" "rooms_of D ! r_room_id r = record_of r" "rooms_fd D \<noteq> - 1"
    using assms by (auto simp: on_disk_def mirrors_def db_ready_def simp del: length_file_records)
  then show "db_read_room_raw (r_room_id r) D = Some (record_of r)"
    "db_read_room (r_room_id r) D = Some (record_of r)"
    by (simp_all add: db_read_room_raw_conv db_read_room_conv record_of_def del: length_file_records)
qed

lemma mirrors_update:
  assumes "mirrors H recs" "rooms_ok H" "H a = Some r" "r_room_id r1 = r_room_id r"
  shows "mirrors (H(a \<mapsto> r1)) (recs[r_room_id r := record_of r1])"
proof -
  let ?i = "r_room_id r"
  have "recs[?i := x] ! r_room_id r' = recs ! r_room_id r'" if "H b = Some r'" "b \<noteq> a" for b r' x
    using assms(2,3) that nth_list_update_neq [of ?i "r_room_id r'"] unfolding rooms_ok_def by metis
  moreover have "\<exists>b r'. (H(a \<mapsto> r1)) b = Some r' \<and> r_room_id r' = j"
    if "j < length recs" "rr_is_active (recs[?i := record_of r1] ! j) \<noteq> 0" for j
  proof (cases "j = ?i")
    case True
    with assms(4) show ?thesis by (intro exI [of _ a] exI [of _ r1]) simp
  next
    case False
    with that assms(1) obtain b r' where "H b = Some r'" "r_room_id r' = j" unfolding mirrors_def by auto
    with False assms(3) show ?thesis by (intro exI [of _ b] exI [of _ r']) auto
  qed
  ultimately show ?thesis using assms by (auto simp: mirrors_def)
qed

lemma mirrors_delete:
  assumes "mirrors H recs" "rooms_ok H" "H a = Some r" "rr_is_active rec = 0"
  shows "mirrors (H(a := None)) (recs[r_room_id r := rec])"
proof -
  let ?i = "r_room_id r"
  have "recs[?i := x] ! r_room_id r' = recs ! r_room_id r'" if "H b = Some r'" "b \<noteq> a" for b r' x
    using assms(2,3) that nth_list_update_neq [of ?i "r_room_id r'"] unfolding rooms_ok_def by metis
  moreover have "\<exists>b r'. (H(a := None)) b = Some r' \<and> r_room_id r' = j"
    if "j < length recs" "rr_is_active (recs[?i := rec] ! j) \<noteq> 0" for j
  proof -
    from that assms(4) have "j \<noteq> ?i" by (metis nth_list_update_eq)
    with that assms(1) obtain b r' where "H b = Some r'" "r_room_id r' = j" unfolding mirrors_def by auto
    with \<open>j \<noteq> ?i\<close> assms(3) show ?thesis by (intro exI [of _ b] exI [of _ r']) auto
  qed
  ultimately show ?thesis using assms by (auto simp: mirrors_def)
qed

lemma mirrors_add:
  assumes "mirrors H recs" "H n = None" "r_room_id r \<le> length recs"
    "r_room_id r < length recs \<Longrightarrow> rr_is_active (recs ! r_room_id r) = 0"
  shows "mirrors (H(n \<mapsto> r)) (if r_room_id r < length recs then recs[r_room_id r := record_of r]
    else recs @ [record_of r])" (is "mirrors _ ?recs")
proof -
  let ?i = "r_room_id r"
  have live: "r_room_id r' \<noteq> ?i" if "H b = Some r'" for b r'
    using that assms(1,4) unfolding mirrors_def record_of_def by force
  have "r_room_id r' < length ?recs \<and> ?recs ! r_room_id r' = record_of r'"
    if "(H(n \<mapsto> r)) b = Some r'" for b r'
    using that assms(1,3) live [of b r'] by (auto simp: mirrors_def nth_append split: if_splits)
  moreover have "\<exists>b r'. (H(n \<mapsto> r)) b = Some r' \<and> r_room_id r' = j"
    if "j < length ?recs" "rr_is_active (?recs ! j) \<noteq> 0" for j
  proof (cases "j = ?i")
    case True
    then show ?thesis by (intro exI [of _ n] exI [of _ r]) simp
  next
    case False
    with that assms(3) have "j < length recs" "rr_is_active (recs ! j) \<noteq> 0"
      by (auto simp: nth_append split: if_splits)
    with assms(1) obtain b r' where "H b = Some r'" "r_room_id r' = j" unfolding mirrors_def by auto
    with assms(2) show ?thesis by (intro exI [of _ b] exI [of _ r']) auto
  qed
  ultimately show ?thesis unfolding mirrors_def by blast
qed

lemma on_disk_update:
  assumes "on_disk H D" "rooms_ok H" "H a = Some r" "r_room_id r1 = r_room_id r" "room_ok r1"
  shows "\<exists>D'. db_write_room (r_room_id r) (record_of r1) D = Some (True, D') \<and> same_users D D' \<and>
    on_disk (H(a \<mapsto> r1)) D'"
proof -
  have i: "r_room_id r < length (rooms_of D)" "db_ready D" "mirrors H (rooms_of D)"
    using assms(1,3) unfolding on_disk_def mirrors_def by blast+
  obtain D' where "db_write_room (r_room_id r) (record_of r1) D = Some (True, D')" "db_ready D'"
      "same_users D D'" "rooms_of D' = (rooms_of D)[r_room_id r := record_of r1]"
    using write_record [OF i(2) record_of_ok [OF assms(5)] less_imp_le [OF i(1)]] i(1) by auto
  with mirrors_update [OF i(3) assms(2-4)] show ?thesis by (auto simp: on_disk_def)
qed

lemma on_disk_delete:
  assumes "on_disk H D" "rooms_ok H" "H a = Some r"
  shows "\<exists>D'. db_write_room (r_room_id r) ((record_of r)\<lparr>rr_is_active := 0\<rparr>) D = Some (True, D') \<and>
    same_users D D' \<and> on_disk (H(a := None)) D'"
proof -
  have i: "r_room_id r < length (rooms_of D)" "db_ready D" "mirrors H (rooms_of D)"
    using assms(1,3) unfolding on_disk_def mirrors_def by blast+
  have "room_ok r" using assms(2,3) by (auto simp: rooms_ok_def)
  then have "room_record_ok ((record_of r)\<lparr>rr_is_active := 0\<rparr>)"
    using record_of_ok [of r] by (simp add: room_record_ok_def in_i32_def)
  from write_record [OF i(2) this less_imp_le [OF i(1)]] i(1) obtain D'
    where "db_write_room (r_room_id r) ((record_of r)\<lparr>rr_is_active := 0\<rparr>) D = Some (True, D')" "db_ready D'"
      "same_users D D'" "rooms_of D' = (rooms_of D)[r_room_id r := (record_of r)\<lparr>rr_is_active := 0\<rparr>]"
    by auto
  with mirrors_delete [OF i(3) assms(2,3)] show ?thesis by (auto simp: on_disk_def)
qed

section \<open>Finding rooms\<close>

lemma list_ok_find:
  "list_ok s as \<Longrightarrow>
    find_room P (room_heap s) (room_head s) = Some (find (\<lambda>a. P (the (room_heap s a))) as)"
  using find_room_seg by (auto simp: list_ok_def)

lemma list_ok_mem: "list_ok s as \<Longrightarrow> a \<in> set as \<longleftrightarrow> (\<exists>r. room_heap s a = Some r)"
  by (auto simp: list_ok_def dom_def)

lemma find_room_cases:
  assumes "list_ok s as"
  obtains "find_room P (room_heap s) (room_head s) = Some None" "\<forall>a r. room_heap s a = Some r \<longrightarrow> \<not> P r"
  | a r where "find_room P (room_heap s) (room_head s) = Some (Some a)" "room_heap s a = Some r" "P r"
proof (cases "find (\<lambda>a. P (the (room_heap s a))) as")
  case None
  then have "\<forall>a r. room_heap s a = Some r \<longrightarrow> \<not> P r"
    using list_ok_mem [OF assms] unfolding find_None_iff by (metis option.sel)
  with None list_ok_find [OF assms] that(1) show ?thesis by simp
next
  case (Some a)
  then have "a \<in> set as" "P (the (room_heap s a))" by (auto simp: find_Some_iff)
  with Some list_ok_find [OF assms] list_ok_mem [OF assms] that(2) show ?thesis by fastforce
qed

lemma room_table_Some: "room_heap s a = Some r \<Longrightarrow> room_table s a = Some (room_data r)"
  by (simp add: room_table_def)

lemma find_room_id:
  assumes "list_ok s as" "rooms_ok (room_table s)" "room_heap s a = Some r"
  shows "find_room (\<lambda>q. r_room_id q = r_room_id r) (room_heap s) (room_head s) = Some (Some a)"
  using assms(1)
proof (cases rule: find_room_cases [where P = "\<lambda>q. r_room_id q = r_room_id r"])
  case (2 b q)
  then have "r_room_id (room_data q) = r_room_id (room_data r)" by simp
  with 2 assms(2) room_table_Some [OF 2(2)] room_table_Some [OF assms(3)] have "b = a"
    unfolding rooms_ok_def by blast
  with 2 show ?thesis by simp
qed (use assms(3) in blast)

section \<open>Deleting a room\<close>

lemma room_table_same:
  "\<forall>b. same_data (room_heap s) h b \<Longrightarrow> (\<lambda>b. map_option room_data (h b)) = room_table s"
  by (auto simp: same_data_def room_table_def)

lemma rooms_ok_delete: "rooms_ok H \<Longrightarrow> rooms_ok (H(a := None))"
  by (auto simp: rooms_ok_def split: if_splits)

lemma room_delete_ok:
  assumes "list_ok s as" "rooms_ok (room_table s)" "on_disk (room_table s) (db s)" "room_heap s a = Some r"
  shows "\<exists>h p d s'. room_delete (r_room_id r) s = Some (True, s') \<and>
    s' = s\<lparr>room_head := p, room_heap := h, room_count := room_count s - 1, db := d\<rparr> \<and>
    list_ok s' (remove1 a as) \<and> room_table s' = (room_table s)(a := None) \<and>
    on_disk (room_table s') d \<and> same_users (db s) d"
proof -
  have a: "a \<in> set as" using list_ok_mem [OF assms(1)] assms(4) by blast
  then obtain xs ys where as: "as = xs @ a # ys" by (metis split_list)
  obtain m where m: "seg (room_heap s) None (room_head s) (xs @ a # ys) m None"
    using assms(1) as by (auto simp: list_ok_def)
  have dist: "distinct (xs @ a # ys)" using assms(1) as by (simp add: list_ok_def)
  obtain h p m' where unlink:
      "unlink_room r s = Some (s\<lparr>room_head := p, room_heap := h, room_count := room_count s - 1\<rparr>)"
      "seg h None p (xs @ ys) m' None" "h a = Some r" "\<forall>b. same_data (room_heap s) h b"
    using unlink_room_seg [OF m dist assms(4)] by blast
  note table = room_table_Some [OF assms(4)]
  obtain d where d: "db_write_room (r_room_id r) ((record_of r)\<lparr>rr_is_active := 0\<rparr>) (db s) = Some (True, d)"
      "same_users (db s) d" "on_disk ((room_table s)(a := None)) d"
    using on_disk_delete [OF assms(3,2) table] by auto
  have "db_read_room (r_room_id r) (db s) = Some (record_of r)"
    using on_disk_read(2) [OF assms(3) table] by simp
  then have eq: "room_delete (r_room_id r) s =
      Some (True, s\<lparr>room_head := p, room_heap := h(a := None), room_count := room_count s - 1, db := d\<rparr>)"
    using find_room_id [OF assms(1,2,4)] assms(4) unlink(1,3) d(1)
    by (simp add: room_delete_def mem_simps)
  let ?s = "s\<lparr>room_head := p, room_heap := h(a := None), room_count := room_count s - 1, db := d\<rparr>"
  have tab: "room_table ?s = (room_table s)(a := None)"
    using room_table_same [OF unlink(4)] by (auto simp: room_table_def fun_eq_iff)
  have "dom h = dom (room_heap s)"
    using unlink(4) by (auto simp: same_data_def dom_def) (metis map_option_eq_Some option.collapse option.discI)+
  then have "dom (h(a := None)) = set (xs @ ys)" using assms(1) as dist by (auto simp: list_ok_def)
  moreover have "seg (h(a := None)) None p (xs @ ys) m' None"
    using unlink(2) dist by (simp add: seg_update_other)
  moreover have "remove1 a as = xs @ ys" using as dist by (simp add: remove1_append)
  ultimately have "list_ok ?s (remove1 a as)"
    using assms(1) as dist by (auto simp: list_ok_def)
  with eq tab d show ?thesis by (intro exI [of _ "h(a := None)"] exI [of _ p] exI [of _ d] exI [of _ ?s]) simp
qed

section \<open>Leaving a room\<close>

lemma rooms_ok_update:
  "rooms_ok H \<Longrightarrow> H a = Some r \<Longrightarrow> room_ok r1 \<Longrightarrow> r_room_id r1 = r_room_id r \<Longrightarrow> rooms_ok (H(a \<mapsto> r1))"
  unfolding rooms_ok_def by (auto split: if_splits)

lemma list_ok_update:
  assumes "list_ok s as" "room_heap s a = Some r" "r_prev r1 = r_prev r" "r_next r1 = r_next r"
    "s' = s\<lparr>room_heap := (room_heap s)(a \<mapsto> r1), client_heap := C, db := d\<rparr>"
  shows "list_ok s' as" "room_table s' = (room_table s)(a \<mapsto> room_data r1)"
proof -
  have "seg ((room_heap s)(a \<mapsto> r1)) q p as m e = seg (room_heap s) q p as m e" for q p m e
    by (rule seg_frame) (use assms in auto)
  moreover have "dom ((room_heap s)(a \<mapsto> r1)) = dom (room_heap s)" using assms(2) by auto
  ultimately show "list_ok s' as" using assms(1,5) by (simp add: list_ok_def)
  show "room_table s' = (room_table s)(a \<mapsto> room_data r1)"
    using assms(5) by (auto simp: room_table_def fun_eq_iff)
qed

lemma write_user_count_ok:
  assumes "on_disk H (db s)" "rooms_ok H" "H a = Some r" "room_ok r1" "r_room_id r1 = r_room_id r"
    "r_room_name r1 = r_room_name r" "r_password r1 = r_password r"
  shows "\<exists>d. write_user_count (r_room_id r1) (r_participant_count r1) s = Some (s\<lparr>db := d\<rparr>) \<and>
    on_disk (H(a \<mapsto> r1)) d \<and> same_users (db s) d"
proof -
  obtain d where d: "db_write_room (r_room_id r) (record_of r1) (db s) = Some (True, d)"
      "same_users (db s) d" "on_disk (H(a \<mapsto> r1)) d"
    using on_disk_update [OF assms(1-3,5,4)] by blast
  have "(record_of r)\<lparr>rr_user_count := int (r_participant_count r1)\<rparr> = record_of r1"
    using assms(5-7) by (simp add: record_of_def)
  with d on_disk_read(1) [OF assms(1,3)] assms(5) show ?thesis by (auto simp: write_user_count_def)
qed

lemma settle_room_ok:
  fixes C :: "addr \<rightharpoonup> client"
  assumes "list_ok s as" "rooms_ok (room_table s)" "on_disk (room_table s) (db s)"
    "room_heap s a = Some r" "room_ok r1" "r_room_id r1 = r_room_id r" "r_room_name r1 = r_room_name r"
    "r_password r1 = r_password r" "r_prev r1 = r_prev r" "r_next r1 = r_next r"
  defines "s1 \<equiv> s\<lparr>room_heap := (room_heap s)(a \<mapsto> r1), client_heap := C\<rparr>"
    and "gone \<equiv> r_participant_count r1 = 0"
  shows "\<exists>h p n d s'. settle_room (r_room_id r1) (r_participant_count r1) s1 = Some s' \<and>
    s' = s\<lparr>room_head := p, room_heap := h, room_count := n, client_heap := C, db := d\<rparr> \<and>
    list_ok s' (if gone then remove1 a as else as) \<and> rooms_ok (room_table s') \<and>
    on_disk (room_table s') d \<and> same_users (db s) d \<and>
    room_table s' = (room_table s)(a := if gone then None else Some (room_data r1))"
proof -
  let ?T = "(room_table s)(a \<mapsto> room_data r1)"
  note tab = room_table_Some [OF assms(4)]
  obtain d where d: "write_user_count (r_room_id r1) (r_participant_count r1) s1 = Some (s1\<lparr>db := d\<rparr>)"
      "on_disk ?T d" "same_users (db s) d"
    using write_user_count_ok [OF _ assms(2) tab, of s1 "room_data r1"] assms(3,5-8) by (auto simp: s1_def)
  have T: "rooms_ok ?T" using rooms_ok_update [OF assms(2) tab] assms(5,6) by simp
  have s1: "list_ok (s1\<lparr>db := d\<rparr>) as" "room_table (s1\<lparr>db := d\<rparr>) = ?T"
    using list_ok_update [OF assms(1,4,9,10), of "s1\<lparr>db := d\<rparr>"] by (simp_all add: s1_def)
  show ?thesis
  proof (cases gone)
    case False
    with d s1 T show ?thesis
      by (intro exI [of _ "room_heap s1"] exI [of _ "room_head s"] exI [of _ "room_count s"] exI [of _ d]
          exI [of _ "s1\<lparr>db := d\<rparr>"]) (simp add: settle_room_def gone_def s1_def)
  next
    case True
    have "room_heap (s1\<lparr>db := d\<rparr>) a = Some r1" by (simp add: s1_def)
    then obtain h p d' s' where del: "room_delete (r_room_id r1) (s1\<lparr>db := d\<rparr>) = Some (True, s')"
        "s' = s1\<lparr>db := d\<rparr>\<lparr>room_head := p, room_heap := h, room_count := room_count (s1\<lparr>db := d\<rparr>) - 1, db := d'\<rparr>"
        "list_ok s' (remove1 a as)" "room_table s' = ?T(a := None)" "on_disk (room_table s') d'" "same_users d d'"
      using room_delete_ok [of "s1\<lparr>db := d\<rparr>" as a r1] s1 T d(2) by auto
    moreover have "same_users (db s) d'" using d(3) del(6) by (simp add: same_users_def)
    moreover have "settle_room (r_room_id r1) (r_participant_count r1) s1 = Some s'"
      using d(1) del(1) True by (simp add: settle_room_def gone_def)
    ultimately show ?thesis
      using True rooms_ok_delete [OF assms(2), of a]
      by (intro exI [of _ h] exI [of _ p] exI [of _ "room_count s - 1"] exI [of _ d'] exI [of _ s'])
        (simp add: s1_def)
  qed
qed

lemma linked_member:
  assumes "linked H C" "H a = Some r" "c \<in> set (members r)"
  obtains cl where "C c = Some cl" "c_is_active cl" "c_current_room cl = Some a"
  using assms unfolding linked_def by blast

lemma linked_current:
  assumes "linked H C" "C c = Some cl" "c_is_active cl" "c_current_room cl = Some a"
  obtains r where "H a = Some r" "c \<in> set (members r)"
  using assms unfolding linked_def by blast

lemma linkedI:
  assumes "\<And>a r c. H a = Some r \<Longrightarrow> c \<in> set (members r) \<Longrightarrow>
      \<exists>cl. C c = Some cl \<and> c_is_active cl \<and> c_current_room cl = Some a"
    and "\<And>c cl a. C c = Some cl \<Longrightarrow> c_is_active cl \<Longrightarrow> c_current_room cl = Some a \<Longrightarrow>
      \<exists>r. H a = Some r \<and> c \<in> set (members r)"
  shows "linked H C"
  using assms unfolding linked_def by blast

lemma linked_detach:
  assumes lk: "linked H C" and a: "H a = Some r" "distinct (members r)" "c \<in> set (members r)"
    and r1: "members r1 = remove1 c (members r)" and C': "\<And>x. x \<noteq> c \<Longrightarrow> C' x = C x"
    "\<And>cl. C' c = Some cl \<Longrightarrow> c_is_active cl \<Longrightarrow> c_current_room cl = None"
  shows "linked (H(a := if members r1 = [] then None else Some r1)) C'" (is "linked ?H C'")
proof (rule linkedI)
  have mem: "set (members r1) = set (members r) - {c}" using a(2) r1 by simp
  show "\<exists>cl. C' x = Some cl \<and> c_is_active cl \<and> c_current_room cl = Some b"
    if b: "?H b = Some r'" "x \<in> set (members r')" for b r' x
  proof -
    obtain r0 where r0: "H b = Some r0" "x \<in> set (members r0)" "b = a \<Longrightarrow> x \<noteq> c"
      using b a(1) mem by (cases "b = a") (auto split: if_splits)
    have "x \<noteq> c"
    proof (cases "b = a")
      case False
      obtain cl where "C c = Some cl" "c_current_room cl = Some a" using linked_member [OF lk a(1,3)] .
      moreover obtain cl' where "C x = Some cl'" "c_current_room cl' = Some b" using linked_member [OF lk r0(1,2)] .
      ultimately show ?thesis using False by auto
    qed (rule r0(3))
    then show ?thesis using C'(1) linked_member [OF lk r0(1,2)] by metis
  qed
  show "\<exists>r'. ?H b = Some r' \<and> x \<in> set (members r')"
    if x: "C' x = Some cl" "c_is_active cl" "c_current_room cl = Some b" for x cl b
  proof -
    have xc: "x \<noteq> c" using x C'(2) by auto
    then obtain r' where r': "H b = Some r'" "x \<in> set (members r')"
      using x C'(1) linked_current [OF lk, of x cl b] by metis
    show ?thesis
    proof (cases "b = a")
      case True
      with r' a(1) mem xc have "x \<in> set (members r1)" by simp
      then show ?thesis using True by auto
    next
      case False
      with r' show ?thesis by simp
    qed
  qed
qed

lemma rooms_invD:
  assumes "rooms_inv s as"
  shows "list_ok s as" "rooms_ok (room_table s)" "linked (room_table s) (client_heap s)"
    "on_disk (room_table s) (db s)"
  using assms by (simp_all add: rooms_inv_def)

lemma rooms_ok_room: "rooms_ok (room_table s) \<Longrightarrow> room_heap s a = Some r \<Longrightarrow> room_ok r"
  using room_table_Some [of s a r] unfolding rooms_ok_def by (metis room_data_ok(2))

text \<open>The room of a connected client, and the room without it.\<close>

definition same_room :: "room \<Rightarrow> room \<Rightarrow> bool" where
  "same_room r r1 \<longleftrightarrow> r_room_id r1 = r_room_id r \<and> r_room_name r1 = r_room_name r \<and>
     r_password r1 = r_password r \<and> r_prev r1 = r_prev r \<and> r_next r1 = r_next r"

lemma client_room:
  assumes "rooms_inv s as" "client_heap s c = Some cl" "c_is_active cl" "c_current_room cl = Some a"
  obtains r r1 where "room_heap s a = Some r" "room_ok r" "c \<in> set (members r)"
    "drop_participant c (c_is_mute cl) r = Some (True, r1)" "room_ok r1" "same_room r r1"
    "members r1 = remove1 c (members r)" "r_participant_count r1 = length (members r1)"
proof -
  note inv = rooms_invD [OF assms(1)]
  obtain q where q: "room_table s a = Some q" "c \<in> set (members q)"
    using linked_current [OF inv(3) assms(2-4)] .
  then obtain r where r: "room_heap s a = Some r" "q = room_data r" by (auto simp: room_table_def)
  have ok: "room_ok r" by (rule rooms_ok_room [OF inv(2) r(1)])
  obtain r1 where r1: "drop_participant c (c_is_mute cl) r = Some (True, r1)" "participants_ok r1"
      "members r1 = remove1 c (members r)" "same_room r r1"
    using drop_participant_member [of r c] ok q r by (auto simp: room_ok_def same_room_def)
  moreover have "room_ok r1" using ok r1(2,4) by (simp add: room_ok_def same_room_def)
  ultimately show ?thesis using that r q ok participants_okD(2) by fastforce
qed

lemma settle_after_drop:
  assumes inv: "rooms_inv s as" and r: "room_heap s a = Some r" "room_ok r" "c \<in> set (members r)"
    and r1: "room_ok r1" "same_room r r1" "members r1 = remove1 c (members r)"
      "r_participant_count r1 = length (members r1)"
  shows "\<exists>h p n d s'. settle_room (r_room_id r1) (r_participant_count r1)
      (s\<lparr>room_heap := (room_heap s)(a \<mapsto> r1), client_heap := C\<rparr>) = Some s' \<and>
    s' = s\<lparr>room_head := p, room_heap := h, room_count := n, client_heap := C, db := d\<rparr> \<and>
    list_ok s' (if members r1 = [] then remove1 a as else as) \<and> rooms_ok (room_table s') \<and>
    on_disk (room_table s') d \<and> same_users (db s) d \<and>
    room_table s' = (room_table s)(a := if members r1 = [] then None else Some (room_data r1))"
  using settle_room_ok [OF rooms_invD(1,2,4) [OF inv] r(1) r1(1), of C] r1(2,4)
  by (auto simp: same_room_def)

lemma room_leave_ok:
  assumes "rooms_inv s as" "client_heap s c = Some cl" "c_is_active cl" "c_current_room cl = Some a"
  shows "\<exists>h p n d s' as' r r1. room_leave c s = Some (0, s') \<and>
    s' = s\<lparr>room_head := p, room_heap := h, room_count := n,
      client_heap := (client_heap s)(c \<mapsto> cl\<lparr>c_current_room := None\<rparr>), db := d\<rparr> \<and>
    rooms_inv s' as' \<and> same_users (db s) d \<and>
    room_table s a = Some r \<and> c \<in> set (members r) \<and> members r1 = remove1 c (members r) \<and>
    r_room_id r1 = r_room_id r \<and> r_room_name r1 = r_room_name r \<and> r_password r1 = r_password r \<and>
    room_table s' = (room_table s)(a := if members r1 = [] then None else Some r1)"
proof -
  obtain r r1 where r: "room_heap s a = Some r" "room_ok r" "c \<in> set (members r)"
    and drop: "drop_participant c (c_is_mute cl) r = Some (True, r1)"
    and r1: "room_ok r1" "same_room r r1" "members r1 = remove1 c (members r)"
      "r_participant_count r1 = length (members r1)"
    using client_room [OF assms] by metis
  let ?C = "(client_heap s)(c \<mapsto> cl\<lparr>c_current_room := None\<rparr>)"
  obtain h p n d s' where settle: "settle_room (r_room_id r1) (r_participant_count r1)
      (s\<lparr>room_heap := (room_heap s)(a \<mapsto> r1), client_heap := ?C\<rparr>) = Some s'"
    and s': "s' = s\<lparr>room_head := p, room_heap := h, room_count := n, client_heap := ?C, db := d\<rparr>"
    and ok: "list_ok s' (if members r1 = [] then remove1 a as else as)" "rooms_ok (room_table s')"
      "on_disk (room_table s') d" "same_users (db s) d"
      "room_table s' = (room_table s)(a := if members r1 = [] then None else Some (room_data r1))"
    using settle_after_drop [OF assms(1) r r1, of ?C] by blast
  have "room_leave c s = Some (0, s')"
    using assms(2,4) r(1) drop settle by (simp add: room_leave_def mem_simps)
  moreover have "linked (room_table s') (client_heap s')"
  proof -
    have "distinct (members r)" using r(2) participants_okD(4) by (simp add: room_ok_def)
    then show ?thesis
      using linked_detach [OF rooms_invD(3) [OF assms(1)] room_table_Some [OF r(1)], of c "room_data r1" ?C]
        r(3) r1(3) s' ok(5) by simp
  qed
  ultimately have "room_leave c s = Some (0, s')" "rooms_inv s' (if members r1 = [] then remove1 a as else as)"
    using ok s' by (simp_all add: rooms_inv_def)
  with s' ok(4,5) r r1(2,3) room_table_Some [OF r(1)] show ?thesis
    by (intro exI [of _ h] exI [of _ p] exI [of _ n] exI [of _ d] exI [of _ s'] exI
        [of _ "if members r1 = [] then remove1 a as else as"] exI [of _ "room_data r"] exI [of _ "room_data r1"])
      (simp add: same_room_def)
qed

lemma remove_client_ok:
  assumes "rooms_inv s as" "client_heap s c = Some cl" "c_is_active cl" "c_current_room cl = Some a"
  shows "\<exists>h p n d s' as'. remove_client_from_room a c s = Some s' \<and>
    s' = s\<lparr>room_head := p, room_heap := h, room_count := n, db := d\<rparr> \<and> list_ok s' as' \<and>
    rooms_ok (room_table s') \<and> on_disk (room_table s') d \<and> same_users (db s) d \<and>
    (\<forall>C'. (\<forall>x. x \<noteq> c \<longrightarrow> C' x = client_heap s x) \<longrightarrow> (\<forall>cl. C' c = Some cl \<longrightarrow> \<not> c_is_active cl) \<longrightarrow>
       linked (room_table s') C')"
proof -
  obtain r r1 where r: "room_heap s a = Some r" "room_ok r" "c \<in> set (members r)"
    and drop: "drop_participant c (c_is_mute cl) r = Some (True, r1)"
    and r1: "room_ok r1" "same_room r r1" "members r1 = remove1 c (members r)"
      "r_participant_count r1 = length (members r1)"
    using client_room [OF assms] by metis
  obtain h p n d s' where settle: "settle_room (r_room_id r1) (r_participant_count r1)
      (s\<lparr>room_heap := (room_heap s)(a \<mapsto> r1), client_heap := client_heap s\<rparr>) = Some s'"
    and s': "s' = s\<lparr>room_head := p, room_heap := h, room_count := n, client_heap := client_heap s, db := d\<rparr>"
    and ok: "list_ok s' (if members r1 = [] then remove1 a as else as)" "rooms_ok (room_table s')"
      "on_disk (room_table s') d" "same_users (db s) d"
      "room_table s' = (room_table s)(a := if members r1 = [] then None else Some (room_data r1))"
    using settle_after_drop [OF assms(1) r r1, of "client_heap s"] by blast
  have "remove_client_from_room a c s = Some s'"
    using assms(2) r(1) drop settle by (simp add: remove_client_from_room_def mem_simps)
  moreover have "distinct (members r)" using r(2) participants_okD(4) by (simp add: room_ok_def)
  then have "linked (room_table s') C'"
    if "\<forall>x. x \<noteq> c \<longrightarrow> C' x = client_heap s x" "\<forall>cl. C' c = Some cl \<longrightarrow> \<not> c_is_active cl" for C'
    using linked_detach [OF rooms_invD(3) [OF assms(1)] room_table_Some [OF r(1)], of c "room_data r1" C']
      r(3) r1(3) ok(5) that by simp
  ultimately show ?thesis using s' ok(1-4)
    by (intro exI [of _ h] exI [of _ p] exI [of _ n] exI [of _ d] exI [of _ s'] exI
        [of _ "if members r1 = [] then remove1 a as else as"]) simp
qed

section \<open>Joining a room\<close>

lemma room_join_leaves:
  assumes "client_heap s c = Some cl" "c_current_room cl \<noteq> None" "room_leave c s = Some (i, s0)"
    "client_heap s0 c = Some cl0" "c_current_room cl0 = None"
  shows "room_join room_id password c s = room_join room_id password c s0"
  using assms by (simp add: room_join_def)

lemma linked_join:
  assumes "linked H C" "H a = Some r" "C c = Some cl" "c_is_active cl" "c_current_room cl = None"
    "members r1 = members r @ [c]"
  shows "linked (H(a \<mapsto> r1)) (C(c \<mapsto> cl\<lparr>c_current_room := Some a\<rparr>))"
proof (rule linkedI)
  show "\<exists>cl'. (C(c \<mapsto> cl\<lparr>c_current_room := Some a\<rparr>)) x = Some cl' \<and> c_is_active cl' \<and> c_current_room cl' = Some b"
    if b: "(H(a \<mapsto> r1)) b = Some r'" "x \<in> set (members r')" for b r' x
  proof (cases "b = a \<and> x = c")
    case True
    with assms(4) show ?thesis by simp
  next
    case False
    then obtain r0 where "H b = Some r0" "x \<in> set (members r0)"
      using b assms(2,6) by (cases "b = a") auto
    then obtain cl' where "C x = Some cl'" "c_is_active cl'" "c_current_room cl' = Some b"
      using linked_member [OF assms(1)] by metis
    with assms(3,5) show ?thesis by (cases "x = c") auto
  qed
  show "\<exists>r'. (H(a \<mapsto> r1)) b = Some r' \<and> x \<in> set (members r')"
    if x: "(C(c \<mapsto> cl\<lparr>c_current_room := Some a\<rparr>)) x = Some cl'" "c_is_active cl'" "c_current_room cl' = Some b"
    for x cl' b
  proof (cases "x = c")
    case True
    with x assms(6) show ?thesis by auto
  next
    case False
    with x obtain r' where "H b = Some r'" "x \<in> set (members r')"
      using linked_current [OF assms(1), of x cl' b] by auto
    with assms(2,6) show ?thesis by (cases "b = a") auto
  qed
qed

lemma add_participant:
  assumes "room_ok r" "length (members r) < MAX_CLIENTS" "c \<notin> set (members r)"
  defines "r1 \<equiv> r\<lparr>r_participants := (r_participants r)[r_participant_count r := Some c],
    r_participant_count := r_participant_count r + 1\<rparr>"
  shows "room_ok r1" "members r1 = members r @ [c]" "r_participant_count r < length (r_participants r)"
proof -
  have p: "participants_ok r" using assms(1) by (simp add: room_ok_def)
  note ok = participants_okD [OF p]
  have "50 - length (members r) = Suc (49 - length (members r))" using assms(2) by linarith
  then have "replicate (50 - length (members r)) (None :: addr option) =
      None # replicate (49 - length (members r)) None" by (simp only: replicate_Suc)
  then have "participants_ok r1 \<and> members r1 = members r @ [c]"
    using ok assms(2,3) by (intro participants_okI) (simp_all add: r1_def list_update_append)
  then show "room_ok r1" "members r1 = members r @ [c]" using assms(1) by (simp_all add: room_ok_def r1_def)
  have "length (r_participants r) = length (members r) + (50 - length (members r))"
    using arg_cong [OF ok(1), of length] by simp
  then show "r_participant_count r < length (r_participants r)" using ok(2) assms(2) by linarith
qed

text \<open>A client that is in no room joins one: the four outcomes.\<close>

definition join_result :: "server \<Rightarrow> addr list \<Rightarrow> nat \<Rightarrow> string \<Rightarrow> addr \<Rightarrow> client \<Rightarrow> int \<Rightarrow> server \<Rightarrow> bool" where
  "join_result s as room_id password c cl i s' \<longleftrightarrow>
     (if \<forall>a r. room_table s a = Some r \<longrightarrow> r_room_id r \<noteq> room_id then i = - 2 \<and> s' = s
      else \<exists>a r. room_table s a = Some r \<and> r_room_id r = room_id \<and>
        (if r_password r \<noteq> [] \<and> r_password r \<noteq> password then i = - 3 \<and> s' = s
         else if length (members r) = MAX_CLIENTS then i = - 4 \<and> s' = s
         else i = 0 \<and> (\<exists>h d r1. s' = s\<lparr>room_heap := h, db := d,
               client_heap := (client_heap s)(c \<mapsto> cl\<lparr>c_current_room := Some a\<rparr>)\<rparr> \<and>
             rooms_inv s' as \<and> same_users (db s) d \<and> room_table s' = (room_table s)(a \<mapsto> r1) \<and>
             members r1 = members r @ [c] \<and> r_room_id r1 = r_room_id r \<and>
             r_room_name r1 = r_room_name r \<and> r_password r1 = r_password r)))"

abbreviation with_participant :: "addr \<Rightarrow> room \<Rightarrow> room" where
  "with_participant c r \<equiv> r\<lparr>r_participants := (r_participants r)[r_participant_count r := Some c],
     r_participant_count := r_participant_count r + 1\<rparr>"

text \<open>What \<open>room_join\<close> does for a client in no room; it does not look at \<open>is_active\<close>.\<close>

lemma room_join_steps:
  assumes "rooms_inv s as" "client_heap s c = Some cl" "c_current_room cl = None"
    "room_heap s a = Some r" "r_password r = [] \<or> r_password r = password" "length (members r) < MAX_CLIENTS"
  obtains d where "c \<notin> set (members r)" "room_join (r_room_id r) password c s = Some (0, s\<lparr>room_heap := (room_heap s)(a \<mapsto> with_participant c r),
      client_heap := (client_heap s)(c \<mapsto> cl\<lparr>c_current_room := Some a\<rparr>), db := d\<rparr>)"
    "on_disk ((room_table s)(a \<mapsto> room_data (with_participant c r))) d" "same_users (db s) d"
proof -
  note inv = rooms_invD [OF assms(1)]
  note tab = room_table_Some [OF assms(4)]
  have ok: "room_ok r" by (rule rooms_ok_room [OF inv(2) assms(4)])
  have c: "c \<notin> set (members r)"
  proof
    assume "c \<in> set (members r)"
    then obtain cl' where "client_heap s c = Some cl'" "c_current_room cl' = Some a"
      using linked_member [OF inv(3) tab, of c] by auto
    with assms(2,3) show False by simp
  qed
  note r1 = add_participant [OF ok assms(6) c]
  let ?s2 = "s\<lparr>room_heap := (room_heap s)(a \<mapsto> with_participant c r),
    client_heap := (client_heap s)(c \<mapsto> cl\<lparr>c_current_room := Some a\<rparr>)\<rparr>"
  obtain d where d: "write_user_count (r_room_id r) (r_participant_count r + 1) ?s2 = Some (?s2\<lparr>db := d\<rparr>)"
      "on_disk ((room_table s)(a \<mapsto> room_data (with_participant c r))) d" "same_users (db s) d"
    using write_user_count_ok [of "room_table s" ?s2 a "room_data r" "room_data (with_participant c r)"] inv(2,4) tab r1(1) by auto
  have n: "r_participant_count r = length (members r)" using ok participants_okD(2) by (simp add: room_ok_def)
  have "room_join (r_room_id r) password c s = Some (0, ?s2\<lparr>db := d\<rparr>)"
    using assms find_room_id [OF inv(1,2) assms(4)] r1(3) d(1) n by (simp add: room_join_def mem_simps)
  with that [OF c] d(2,3) show ?thesis by simp
qed

lemma room_join_enter:
  assumes "rooms_inv s as" "client_heap s c = Some cl" "c_is_active cl" "c_current_room cl = None"
    "room_heap s a = Some r" "r_password r = [] \<or> r_password r = password" "length (members r) < MAX_CLIENTS"
  shows "\<exists>h d r1 s'. room_join (r_room_id r) password c s = Some (0, s') \<and>
    s' = s\<lparr>room_heap := h, db := d, client_heap := (client_heap s)(c \<mapsto> cl\<lparr>c_current_room := Some a\<rparr>)\<rparr> \<and>
    rooms_inv s' as \<and> same_users (db s) d \<and> room_table s' = (room_table s)(a \<mapsto> r1) \<and>
    members r1 = members r @ [c] \<and> r_room_id r1 = r_room_id r \<and>
    r_room_name r1 = r_room_name r \<and> r_password r1 = r_password r"
proof -
  note inv = rooms_invD [OF assms(1)]
  note tab = room_table_Some [OF assms(5)]
  let ?r1 = "with_participant c r" and ?C = "(client_heap s)(c \<mapsto> cl\<lparr>c_current_room := Some a\<rparr>)"
  let ?s2 = "s\<lparr>room_heap := (room_heap s)(a \<mapsto> ?r1), client_heap := ?C\<rparr>"
  obtain d where d: "c \<notin> set (members r)" "room_join (r_room_id r) password c s = Some (0, ?s2\<lparr>db := d\<rparr>)"
      "on_disk ((room_table s)(a \<mapsto> room_data ?r1)) d" "same_users (db s) d"
    using room_join_steps [OF assms(1,2,4-7)] .
  note r1 = add_participant [OF rooms_ok_room [OF inv(2) assms(5)] assms(7) d(1)]
  have upd: "list_ok (?s2\<lparr>db := d\<rparr>) as" "room_table (?s2\<lparr>db := d\<rparr>) = (room_table s)(a \<mapsto> room_data ?r1)"
    using list_ok_update [OF inv(1) assms(5), where ?r1.0 = ?r1 and s' = "?s2\<lparr>db := d\<rparr>" and C = ?C and d = d]
    by simp_all
  moreover have "rooms_ok ((room_table s)(a \<mapsto> room_data ?r1))"
    using rooms_ok_update [OF inv(2) tab] r1(1) by simp
  moreover have "linked ((room_table s)(a \<mapsto> room_data ?r1)) ?C"
    using linked_join [OF inv(3) tab assms(2-4)] r1(2) by simp
  ultimately show ?thesis
    using d r1(2)
    by (intro exI [of _ "(room_heap s)(a \<mapsto> ?r1)"] exI [of _ d] exI [of _ "room_data ?r1"] exI [of _ "?s2\<lparr>db := d\<rparr>"])
      (simp add: rooms_inv_def)
qed

lemma room_join_free:
  assumes "rooms_inv s as" "client_heap s c = Some cl" "c_is_active cl" "c_current_room cl = None"
  shows "\<exists>i s'. room_join room_id password c s = Some (i, s') \<and> join_result s as room_id password c cl i s'"
  using rooms_invD(1) [OF assms(1)]
proof (cases rule: find_room_cases [where P = "\<lambda>r. r_room_id r = room_id"])
  case 1
  from 1(2) have "\<forall>a r. room_table s a = Some r \<longrightarrow> r_room_id r \<noteq> room_id"
    by (metis map_option_eq_Some room_data_fields(1) room_table_def)
  with 1(1) assms(2,4) show ?thesis by (simp add: room_join_def join_result_def)
next
  case (2 a r)
  note tab = room_table_Some [OF 2(2)]
  have some: "\<not> (\<forall>a r. room_table s a = Some r \<longrightarrow> r_room_id r \<noteq> room_id)"
    using tab 2(3) by (metis room_data_fields(1))
  have "room_ok r" by (rule rooms_ok_room [OF rooms_invD(2) [OF assms(1)] 2(2)])
  then have n: "r_participant_count r = length (members r)" "length (members r) \<le> 50"
    using participants_okD(2,3) by (simp_all add: room_ok_def)
  consider "r_password r \<noteq> []" "r_password r \<noteq> password"
    | "r_password r = [] \<or> r_password r = password" "length (members r) = 50"
    | "r_password r = [] \<or> r_password r = password" "length (members r) < 50"
    using n(2) by linarith
  then show ?thesis
  proof cases
    case 3
    with room_join_enter [OF assms 2(2) 3(1)] 2(3) obtain h d r1 s'
      where "room_join room_id password c s = Some (0, s')"
        "s' = s\<lparr>room_heap := h, db := d, client_heap := (client_heap s)(c \<mapsto> cl\<lparr>c_current_room := Some a\<rparr>)\<rparr>"
        "rooms_inv s' as" "same_users (db s) d" "room_table s' = (room_table s)(a \<mapsto> r1)"
        "members r1 = members r @ [c]" "r_room_id r1 = r_room_id r"
        "r_room_name r1 = r_room_name r" "r_password r1 = r_password r"
      by auto
    moreover have "\<not> (r_password r \<noteq> [] \<and> r_password r \<noteq> password)" using 3(1) by blast
    ultimately have "join_result s as room_id password c cl 0 s'"
      unfolding join_result_def using some tab 2(3) 3(2)
      by (simp only: if_False) (intro exI [of _ a] exI [of _ "room_data r"] conjI, simp_all, blast)
    then show ?thesis using \<open>room_join room_id password c s = Some (0, s')\<close> by blast
  next
    case 1
    then have "join_result s as room_id password c cl (- 3) s"
      unfolding join_result_def using some tab 2(3)
      by (simp only: if_False) (intro exI [of _ a] exI [of _ "room_data r"] conjI, simp_all)
    moreover have "room_join room_id password c s = Some (- 3, s)"
      using assms 2 1 by (simp add: room_join_def)
    ultimately show ?thesis by blast
  next
    case full: 2
    then have "join_result s as room_id password c cl (- 4) s"
      unfolding join_result_def using some tab 2(3)
      by (simp only: if_False) (intro exI [of _ a] exI [of _ "room_data r"] conjI, auto)
    moreover have "room_join room_id password c s = Some (- 4, s)"
      using assms 2 full n by (auto simp: room_join_def)
    ultimately show ?thesis by blast
  qed
qed

section \<open>Creating a room\<close>

text \<open>The least free id is below the number of rooms, so it is below the limit.\<close>

lemma next_free_bound:
  assumes "mirrors H recs" "dom H = set as" "next_free 0 recs = k"
  shows "k \<le> length as"
proof -
  have "j \<in> (\<lambda>a. r_room_id (the (H a))) ` set as" if "j < k" for j
  proof -
    have "j < length recs" "rr_is_active (recs ! j) \<noteq> 0"
      using that next_free_props [of 0 recs] assms(3) by auto
    then obtain a r where "H a = Some r" "r_room_id r = j" using assms(1) unfolding mirrors_def by blast
    moreover from this have "a \<in> set as" using assms(2) by auto
    ultimately show ?thesis by force
  qed
  then have "{0..<k} \<subseteq> (\<lambda>a. r_room_id (the (H a))) ` set as" by auto
  then have "card {0..<k} \<le> card ((\<lambda>a. r_room_id (the (H a))) ` set as)" by (intro card_mono) auto
  also have "\<dots> \<le> length as" using card_image_le [of "set as"] card_length [of as] le_trans by blast
  finally show ?thesis by simp
qed

lemma dom_room_table: "dom (room_table s) = dom (room_heap s)"
  by (auto simp: room_table_def dom_def)

lemma new_room_facts:
  "r_prev (new_room k name pw) = None" "r_next (new_room k name pw) = None"
  "r_room_id (new_room k name pw) = k" "members (new_room k name pw) = []"
  "r_room_name (new_room k name pw) = name" "r_password (new_room k name pw) = pw"
  "record_of (new_room k name pw) = new_room_record k name pw"
  by (simp_all add: new_room_def members_def record_of_def new_room_record_def)

lemma new_room_ok: "fits MAX_ROOM_NAME_LEN name \<Longrightarrow> fits MAX_PASSWORD_LEN pw \<Longrightarrow> k < MAX_ROOMS \<Longrightarrow>
  room_ok (new_room k name pw)"
  by (auto simp: room_ok_def participants_ok_def new_room_def intro!: exI [of _ "[]"])

lemma linked_add:
  assumes "linked H C" "H n = None" "members r = []"
  shows "linked (H(n \<mapsto> r)) C"
proof (rule linkedI)
  show "\<exists>cl. C x = Some cl \<and> c_is_active cl \<and> c_current_room cl = Some b"
    if "(H(n \<mapsto> r)) b = Some r'" "x \<in> set (members r')" for b r' x
    using that assms(3) linked_member [OF assms(1), of b r' x] by (cases "b = n") auto
  show "\<exists>r'. (H(n \<mapsto> r)) b = Some r' \<and> x \<in> set (members r')"
    if "C x = Some cl" "c_is_active cl" "c_current_room cl = Some b" for x cl b
    using that assms(2) linked_current [OF assms(1), of x cl b] by (cases "b = n") auto
qed

lemma room_create_new:
  assumes inv: "rooms_inv s as" and fits: "fits MAX_ROOM_NAME_LEN name" "fits MAX_PASSWORD_LEN password"
    and fresh: "room_heap s n = None" and creator: "client_heap s c \<noteq> None"
    and new: "\<forall>a r. room_heap s a = Some r \<longrightarrow> r_room_name r \<noteq> name" "length as < MAX_ROOMS"
  shows "\<exists>k h p d s'. room_create (Some n) name password c s = Some (int k, s') \<and> k < MAX_ROOMS \<and>
    s' = s\<lparr>room_head := p, room_heap := h, room_count := room_count s + 1, db := d\<rparr> \<and>
    rooms_inv s' (as @ [n]) \<and> same_users (db s) d \<and>
    room_table s' = (room_table s)(n \<mapsto> room_data (new_room k name password))"
proof -
  note ok = rooms_invD [OF inv]
  let ?k = "db_next_free_room_id (db s)" and ?recs = "rooms_of (db s)"
  let ?r = "new_room ?k name password" and ?rec = "new_room_record ?k name password"
  have disk: "db_ready (db s)" "mirrors (room_table s) ?recs" using ok(4) by (simp_all add: on_disk_def)
  have k: "?k = next_free 0 ?recs" using disk(1) by (simp add: db_next_free_room_id_def db_ready_def)
  have le: "?k \<le> length ?recs" "?k < length ?recs \<Longrightarrow> rr_is_active (?recs ! ?k) = 0"
    using next_free_props [of 0 ?recs] k by auto
  have dom: "dom (room_table s) = set as" "n \<notin> set as" "distinct as"
    using ok(1) fresh by (auto simp: dom_room_table list_ok_def)
  have k32: "?k < 32" using next_free_bound [OF disk(2) dom(1) k [symmetric]] new(2) by linarith
  have rok: "room_ok ?r" by (rule new_room_ok [OF fits k32])
  obtain d where d: "db_write_room ?k ?rec (db s) = Some (True, d)" "db_ready d" "same_users (db s) d"
      "rooms_of d = (if ?k < length ?recs then ?recs[?k := ?rec] else ?recs @ [?rec])"
    using write_record [OF disk(1) record_of_ok [OF rok], of ?k] le(1) by (auto simp: new_room_facts)
  obtain m where m: "seg (room_heap s) None (room_head s) as m None" using ok(1) by (auto simp: list_ok_def)
  obtain h p where link: "link_room n ?r (s\<lparr>db := d\<rparr>) = Some (s\<lparr>db := d\<rparr>\<lparr>room_head := p, room_heap := h\<rparr>)"
      "seg h None p (as @ [n]) (Some n) None" "map_option room_data (h n) = Some (room_data ?r)"
      "\<forall>a. a \<noteq> n \<longrightarrow> same_data (room_heap s) h a"
    using link_room_seg [of "s\<lparr>db := d\<rparr>" as m n ?r] m dom by (auto simp: new_room_facts)
  let ?s = "s\<lparr>room_head := p, room_heap := h, room_count := room_count s + 1, db := d\<rparr>"
  have "find_room (\<lambda>r. r_room_name r = name) (room_heap s) (room_head s) = Some None"
    using ok(1) by (cases rule: find_room_cases [where P = "\<lambda>r. r_room_name r = name"]) (use new(1) in auto)
  then have "room_create (Some n) name password c s = Some (int ?k, ?s)"
    using d(1) link(1) new(2) ok(1) fits creator
    by (auto simp: room_create_def room_find_by_name_def list_ok_def fits_def)
  moreover have tab: "room_table ?s = (room_table s)(n \<mapsto> room_data ?r)"
    using link(3,4) by (auto simp: room_table_def same_data_def fun_eq_iff)
  moreover have "list_ok ?s (as @ [n])"
  proof -
    have "dom (room_table ?s) = set (as @ [n])" using tab dom(1) by simp
    then show ?thesis using link(2) dom ok(1) by (auto simp: list_ok_def dom_room_table)
  qed
  moreover have none: "room_table s n = None" using fresh by (simp add: room_table_def)
  have id: "r_room_id (room_data ?r) = ?k" "record_of (room_data ?r) = ?rec" by (simp_all add: new_room_facts)
  have "on_disk ((room_table s)(n \<mapsto> room_data ?r)) d"
    using mirrors_add [OF disk(2) none, of "room_data ?r", unfolded id, OF le] d(2,4)
    unfolding on_disk_def by (simp only:)
  moreover have "r_room_id r \<noteq> ?k" if "room_table s a = Some r" for a r
    using that le(2) disk(2) unfolding mirrors_def record_of_def by force
  then have "rooms_ok ((room_table s)(n \<mapsto> room_data ?r))"
    using ok(2) rok unfolding rooms_ok_def by (auto simp: new_room_facts split: if_splits) blast+
  moreover have "linked ((room_table s)(n \<mapsto> room_data ?r)) (client_heap s)"
    by (rule linked_add [OF ok(3) none]) (simp add: new_room_facts)
  ultimately show ?thesis using k32 d(3)
    by (intro exI [of _ ?k] exI [of _ h] exI [of _ p] exI [of _ d] exI [of _ ?s]) (simp add: rooms_inv_def)
qed

end
