(* ===== verification/Client_Handler.thy ===== *)
theory Client_Handler
  imports Room_Manager
begin

text \<open>
  \<open>src/src/server/client_handler.c\<close>: submitting a command to the task queue, and the worker that takes
  it out, finds the handler and runs it. A handler runs to its end before the next step of another
  thread. The result of the \<open>malloc\<close> in \<open>room_create\<close> is handed down as \<open>m\<close>.
\<close>

section \<open>Responses\<close>

definition send_error :: "addr \<Rightarrow> int \<Rightarrow> string \<Rightarrow> server \<Rightarrow> server option" where
  "send_error c status msg s =
     do { cl \<leftarrow> client_heap s c;
          Some (send_response (c_fd cl)
            \<lparr>resp_opcode = 0, resp_status = status, resp_message = snprintf 256 msg, resp_data = []\<rparr> s) }"

definition send_ok :: "addr \<Rightarrow> string \<Rightarrow> string option \<Rightarrow> server \<Rightarrow> server option" where
  "send_ok c msg data s =
     do { cl \<leftarrow> client_heap s c;
          Some (send_response (c_fd cl)
            \<lparr>resp_opcode = 0, resp_status = STATUS_OK, resp_message = snprintf 256 msg,
             resp_data = (case data of None \<Rightarrow> [] | Some d \<Rightarrow> snprintf MAX_PACKET_SIZE d)\<rparr> s) }"

section \<open>Arguments\<close>

text \<open>
  \<open>sscanf(args, "%31s %63s", \<dots>)\<close> into zeroed arrays; \<open>None\<close> stands for a NULL \<open>args\<close>, which is not
  scanned.
\<close>

definition scan_words :: "nat \<Rightarrow> nat \<Rightarrow> string option \<Rightarrow> string \<times> string" where
  "scan_words n m args =
     (case args of
        None \<Rightarrow> ([], [])
      | Some a \<Rightarrow>
          (let vs = sscanf [ConvS n, Ws, ConvS m] a in (arg_str vs 0, arg_str vs 1)))"

definition scan_word :: "nat \<Rightarrow> string option \<Rightarrow> string" where
  "scan_word n args =
     (case args of None \<Rightarrow> [] | Some a \<Rightarrow> arg_str (sscanf [ConvS n] a) 0)"

section \<open>Accounts\<close>

definition handle_login :: "addr \<Rightarrow> string option \<Rightarrow> server \<Rightarrow> server option" where
  "handle_login c args s =
     do { cl \<leftarrow> client_heap s c;
          if c_user_id cl \<noteq> - 1 then send_error c STATUS_ERR_CONFLICT ''Already logged in'' s
          else
            let (username, password) = scan_words 31 63 args
            in if username = [] \<or> password = []
               then send_error c STATUS_ERR_AUTH ''Username and password required'' s
               else do {
                 result \<leftarrow> auth_authenticate username password (db s);
                 (case result of
                    None \<Rightarrow> send_error c STATUS_ERR_AUTH ''Invalid username or password'' s
                  | Some role \<Rightarrow>
                      do { s1 \<leftarrow> upd_client c (\<lambda>cl. cl\<lparr>c_user_id := 0,
                             c_username := take (MAX_USERNAME_LEN - 1) username, c_role := role\<rparr>) s;
                           send_ok c ''Login successful'' (Some (print_nat (c_slot cl))) s1 }) } }"

definition handle_register :: "addr \<Rightarrow> string option \<Rightarrow> server \<Rightarrow> server option" where
  "handle_register c args s =
     do { cl \<leftarrow> client_heap s c;
          if c_user_id cl \<noteq> - 1 then send_error c STATUS_ERR_CONFLICT ''Already logged in'' s
          else
            let (username, password) = scan_words 31 63 args
            in if username = [] \<or> password = []
               then send_error c STATUS_ERR_AUTH ''Username and password required'' s
               else do {
                 (added, d) \<leftarrow> auth_add_user username password ''USER'' (db s);
                 if added then send_ok c ''Registration successful'' None (s\<lparr>db := d\<rparr>)
                 else send_error c STATUS_ERR_CONFLICT ''Username already exists'' (s\<lparr>db := d\<rparr>) } }"

definition handle_logout :: "addr \<Rightarrow> server \<Rightarrow> server option" where
  "handle_logout c s =
     do { cl \<leftarrow> client_heap s c;
          if c_user_id cl = - 1 then send_error c STATUS_ERR_AUTH ''Not logged in'' s
          else do {
            s1 \<leftarrow> (if c_current_room cl \<noteq> None then map_option snd (room_leave c s) else Some s);
            s2 \<leftarrow> upd_client c (\<lambda>cl. cl\<lparr>c_user_id := - 1, c_username := [], c_role := ROLE_GUEST\<rparr>) s1;
            send_ok c ''Logout successful'' None s2 } }"

section \<open>Rooms\<close>

definition handle_create_room :: "addr option \<Rightarrow> addr \<Rightarrow> string option \<Rightarrow> server \<Rightarrow> server option" where
  "handle_create_room m c args s =
     do { cl \<leftarrow> client_heap s c;
          if c_user_id cl = - 1 then send_error c STATUS_ERR_AUTH ''Login required'' s
          else if \<not> auth_check_permission (c_role cl) CMD_CREATE
          then send_error c STATUS_ERR_FORBIDDEN ''Insufficient permissions to create room'' s
          else
            let (room_name, password) = scan_words 31 63 args
            in if room_name = [] then send_error c STATUS_ERR_NOT_FOUND ''Room name required'' s
               else do {
                 (result, s1) \<leftarrow> room_create m room_name password c s;
                 if result = - 1 then send_error c STATUS_ERR_CONFLICT ''Room with this name already exists'' s1
                 else if result = - 2 then send_error c STATUS_ERR_FULL ''Maximum room limit reached'' s1
                 else if result = - 3
                 then send_error c STATUS_ERR_INTERNAL ''Failed to create room due to server error'' s1
                 else if result = - 4
                 then send_error c STATUS_ERR_INTERNAL ''Failed to write room to database'' s1
                 else send_ok c ''Room created successfully'' None s1 } }"

definition handle_join_room :: "addr \<Rightarrow> string option \<Rightarrow> server \<Rightarrow> server option" where
  "handle_join_room c args s =
     do { cl \<leftarrow> client_heap s c;
          if c_user_id cl = - 1 then send_error c STATUS_ERR_AUTH ''Login required'' s
          else
            let (room_name, room_password) = scan_words 31 63 args
            in if room_name = [] then send_error c STATUS_ERR_NOT_FOUND ''Room name required'' s
               else do {
                 found \<leftarrow> room_find_by_name room_name s;
                 (case found of
                    None \<Rightarrow> send_error c STATUS_ERR_NOT_FOUND ''Room not found'' s
                  | Some a \<Rightarrow>
                      do { r \<leftarrow> room_heap s a;
                           (result, s1) \<leftarrow> room_join (r_room_id r) room_password c s;
                           if result = - 1
                           then send_error c STATUS_ERR_INTERNAL ''Failed to join room due to server error'' s1
                           else if result = - 2 then send_error c STATUS_ERR_NOT_FOUND ''Room not found'' s1
                           else if result = - 3 then send_error c STATUS_ERR_FORBIDDEN ''Incorrect password'' s1
                           else if result = - 4 then send_error c STATUS_ERR_FULL ''Room is full'' s1
                           else do { r1 \<leftarrow> room_heap s1 a;
                                     send_ok c ''Joined room successfully'' (Some (r_room_name r1)) s1 } }) } }"

definition handle_leave_room :: "addr \<Rightarrow> server \<Rightarrow> server option" where
  "handle_leave_room c s =
     do { cl \<leftarrow> client_heap s c;
          if c_user_id cl = - 1 then send_error c STATUS_ERR_AUTH ''Login required'' s
          else if c_current_room cl = None
          then send_error c STATUS_ERR_NOT_FOUND ''Not currently in a room'' s
          else do { (_, s1) \<leftarrow> room_leave c s;
                    send_ok c ''Left room successfully'' None s1 } }"

definition handle_list_rooms :: "addr \<Rightarrow> server \<Rightarrow> server option" where
  "handle_list_rooms c s =
     do { cl \<leftarrow> client_heap s c;
          if c_user_id cl = - 1 then send_error c STATUS_ERR_AUTH ''Login required'' s
          else do { buffer \<leftarrow> room_list_formatted MAX_PACKET_SIZE s;
                    send_ok c ''Active rooms:'' (Some buffer) s } }"

section \<open>Moderation\<close>

text \<open>The first participant with a given user name.\<close>

fun find_target :: "nat list \<Rightarrow> addr option list \<Rightarrow> string \<Rightarrow> server \<Rightarrow> addr option option" where
  "find_target [] ps target_name s = Some None"
| "find_target (i # is) ps target_name s =
     do { p \<leftarrow> arr_get ps i;
          (case p of
             None \<Rightarrow> find_target is ps target_name s
           | Some q \<Rightarrow>
               do { cl \<leftarrow> client_heap s q;
                    if c_username cl = target_name then Some (Some q)
                    else find_target is ps target_name s }) }"

definition handle_kick :: "addr \<Rightarrow> string option \<Rightarrow> server \<Rightarrow> server option" where
  "handle_kick c args s =
     do { cl \<leftarrow> client_heap s c;
          if c_user_id cl = - 1 then send_error c STATUS_ERR_AUTH ''Login required'' s
          else if \<not> auth_check_permission (c_role cl) CMD_KICK
          then send_error c STATUS_ERR_FORBIDDEN ''Permission denied'' s
          else case c_current_room cl of
            None \<Rightarrow> send_error c STATUS_ERR_NOT_FOUND ''Not currently in a room'' s
          | Some a \<Rightarrow>
              let target_name = scan_word 31 args
              in if target_name = [] then send_error c STATUS_ERR_NOT_FOUND ''Target username required'' s
                 else do {
                   r \<leftarrow> room_heap s a;
                   target \<leftarrow> find_target [0..<r_participant_count r] (r_participants r) target_name s;
                   (case target of
                      None \<Rightarrow> send_error c STATUS_ERR_NOT_FOUND ''Target user not found in the room'' s
                    | Some t \<Rightarrow>
                        do { (_, s1) \<leftarrow> room_leave t s;
                             send_ok c ''User kicked successfully'' None s1 }) } }"

definition handle_mute :: "addr \<Rightarrow> string option \<Rightarrow> server \<Rightarrow> server option" where
  "handle_mute c args s =
     do { cl \<leftarrow> client_heap s c;
          if c_user_id cl = - 1 then send_error c STATUS_ERR_AUTH ''Login required'' s
          else if \<not> auth_check_permission (c_role cl) CMD_MUTE
          then send_error c STATUS_ERR_FORBIDDEN ''Permission denied'' s
          else case c_current_room cl of
            None \<Rightarrow> send_error c STATUS_ERR_NOT_FOUND ''Not currently in a room'' s
          | Some a \<Rightarrow>
              let target_name = scan_word 31 args
              in if target_name = [] then send_error c STATUS_ERR_NOT_FOUND ''Target username required'' s
                 else do {
                   r \<leftarrow> room_heap s a;
                   target \<leftarrow> find_target [0..<r_participant_count r] (r_participants r) target_name s;
                   (case target of
                      None \<Rightarrow> send_error c STATUS_ERR_NOT_FOUND ''Target user not found in the room'' s
                    | Some t \<Rightarrow>
                        do { tcl \<leftarrow> client_heap s t;
                             let muted = (\<not> c_is_mute tcl);
                             s1 \<leftarrow> upd_client t (\<lambda>cl. cl\<lparr>c_is_mute := muted\<rparr>) s;
                             s2 \<leftarrow> upd_room a (\<lambda>r. r\<lparr>r_active_speakers :=
                                     (if muted then r_active_speakers r - 1 else r_active_speakers r + 1)\<rparr>) s1;
                             send_ok c (if muted then ''User muted successfully''
                                        else ''User unmuted successfully'') None s2 }) } }"

definition handle_status :: "addr \<Rightarrow> server \<Rightarrow> server option" where
  "handle_status c s =
     do { cl \<leftarrow> client_heap s c;
          room_name \<leftarrow> (case c_current_room cl of
                         None \<Rightarrow> Some ''None''
                       | Some a \<Rightarrow> map_option r_room_name (room_heap s a));
          send_ok c (snprintf 256 (''Username: '' @ c_username cl @ '' | Role: '' @ print_int (c_role cl) @
            '' | Room: '' @ room_name @ '' | Muted: '' @ (if c_is_mute cl then ''Yes'' else ''No''))) None s }"

definition toupper :: "char \<Rightarrow> char" where
  "toupper c = (if 97 \<le> char_code c \<and> char_code c \<le> 122 then char_of (char_code c - 32) else c)"

text \<open>The loop over the client table that gives connected users their new role.\<close>

fun set_roles :: "nat list \<Rightarrow> string \<Rightarrow> string \<Rightarrow> server \<Rightarrow> server option" where
  "set_roles [] target_name role_name s = Some s"
| "set_roles (i # is) target_name role_name s =
     do { p \<leftarrow> arr_get (clients s) i;
          (case p of
             None \<Rightarrow> set_roles is target_name role_name s
           | Some c \<Rightarrow>
               do { cl \<leftarrow> client_heap s c;
                    s1 \<leftarrow> (if c_is_active cl \<and> c_username cl = target_name
                           then upd_client c (\<lambda>cl. cl\<lparr>c_role := role_number role_name\<rparr>) s else Some s);
                    set_roles is target_name role_name s1 }) }"

definition handle_promote :: "addr \<Rightarrow> string option \<Rightarrow> server \<Rightarrow> server option" where
  "handle_promote c args s =
     do { cl \<leftarrow> client_heap s c;
          if c_user_id cl = - 1 then send_error c STATUS_ERR_AUTH ''Login required'' s
          else if \<not> auth_check_permission (c_role cl) CMD_PROMOTE
          then send_error c STATUS_ERR_FORBIDDEN ''Permission denied. Only admins can promote.'' s
          else
            let (target_name, role_name) = scan_words 31 15 args
            in if target_name = [] \<or> role_name = []
               then send_error c STATUS_ERR_NOT_FOUND ''Target username and role required'' s
               else if \<not> strcasecmp_eq role_name ''MODERATOR'' \<and> \<not> strcasecmp_eq role_name ''USER'' \<and>
                 \<not> strcasecmp_eq role_name ''ADMIN''
               then send_error c STATUS_ERR_CONFLICT ''Invalid role (must be ADMIN, MODERATOR, or USER)'' s
               else
                 let role_name = map toupper role_name;
                     (promoted, d) = auth_promote_user target_name role_name (db s);
                     s1 = s\<lparr>db := d\<rparr>
                 in if promoted then do {
                      s2 \<leftarrow> set_roles [0..<MAX_CLIENTS] target_name role_name s1;
                      send_ok c ''User promoted successfully'' None s2 }
                    else send_error c STATUS_ERR_NOT_FOUND ''Target user not found'' s1 }"

section \<open>The workers\<close>

definition dispatch :: "addr option \<Rightarrow> addr \<Rightarrow> string \<Rightarrow> string option \<Rightarrow> server \<Rightarrow> server option" where
  "dispatch m c cmd args s =
     (if strcasecmp_eq cmd ''LOGIN'' then handle_login c args s
      else if strcasecmp_eq cmd ''REGISTER'' then handle_register c args s
      else if strcasecmp_eq cmd ''LOGOUT'' then handle_logout c s
      else if strcasecmp_eq cmd ''CREATE'' then handle_create_room m c args s
      else if strcasecmp_eq cmd ''JOIN'' then handle_join_room c args s
      else if strcasecmp_eq cmd ''LEAVE'' then handle_leave_room c s
      else if strcasecmp_eq cmd ''LIST'' then handle_list_rooms c s
      else if strcasecmp_eq cmd ''KICK'' then handle_kick c args s
      else if strcasecmp_eq cmd ''MUTE'' then handle_mute c args s
      else if strcasecmp_eq cmd ''STATUS'' then handle_status c s
      else if strcasecmp_eq cmd ''PROMOTE'' then handle_promote c args s
      else send_error c STATUS_ERR_NOT_FOUND ''Unknown command'' s)"

definition is_delim :: "char \<Rightarrow> bool" where
  "is_delim c \<longleftrightarrow> c = CHR '' '' \<or> c = newline \<or> c = CHR 0x0D"

text \<open>
  One task, in two parts: the test of \<open>is_active\<close>, and what follows it for a connected client. A command
  of delimiters only leaves the loop's body with \<open>continue\<close>, so the reference that the task holds on
  its client is not dropped.
\<close>

definition run_checked :: "addr option \<Rightarrow> addr \<Rightarrow> string \<Rightarrow> server \<Rightarrow> server option" where
  "run_checked m c command s =
     (case strtok_first is_delim command of
        None \<Rightarrow> Some s
      | Some cmd \<Rightarrow>
          do { s1 \<leftarrow> dispatch m c cmd (strtok_rest is_delim command) s;
               drop_ref c s1 })"

definition run_task :: "addr option \<Rightarrow> worker_task \<Rightarrow> server \<Rightarrow> server option" where
  "run_task m task s =
     (case task_c task of
        None \<Rightarrow> Some s
      | Some c \<Rightarrow>
          do { cl \<leftarrow> client_heap s c;
               if c_is_active cl then run_checked m c (task_command task) s else drop_ref c s })"

text \<open>
  A worker at the queue: it takes a task, or waits (\<open>None\<close>) when there is none or the server is off.
\<close>

definition worker_take :: "server \<Rightarrow> (worker_task option \<times> server) option" where
  "worker_take s =
     (if \<not> server_on s then Some (None, s)
      else do { (t, q) \<leftarrow> task_take (tasks s); Some (t, s\<lparr>tasks := q\<rparr>) })"

definition process_client_command :: "addr \<Rightarrow> string \<Rightarrow> server \<Rightarrow> server option" where
  "process_client_command c command s =
     (if tq_count (tasks s) = MAX_QUEUED_TASKS then
        do { s1 \<leftarrow> send_error c STATUS_ERR_INTERNAL ''Server is too busy. Try again later.'' s;
             drop_ref c s1 }
      else if MAX_PACKET_SIZE \<le> length command then None
      else do { (_, q) \<leftarrow> task_put \<lparr>task_c = Some c, task_command = command\<rparr> (tasks s);
                Some (s\<lparr>tasks := q\<rparr>) })"

end
