(* ===== verification/Network.thy ===== *)
theory Network
  imports Client_Handler
begin

text \<open>
  \<open>src/src/server/network.c\<close>: the sockets, the table of connected clients, and the epoll loop. What the
  operating system answers (the descriptor of \<open>accept\<close>, the bytes of \<open>recv\<close>, the block of \<open>malloc\<close>)
  are arguments. \<open>open_fds\<close> lists the client sockets that are open and registered with epoll: a
  socket enters it when its client is accepted and leaves it when it is closed.
\<close>

section \<open>Initialisation\<close>

text \<open>The outcomes of the system calls in their order; \<open>Inl\<close> is the exit code.\<close>

definition network_init ::
    "int \<Rightarrow> bool \<Rightarrow> bool \<Rightarrow> int \<Rightarrow> bool \<Rightarrow> int \<Rightarrow> bool \<Rightarrow> bool \<Rightarrow> server \<Rightarrow> int + server" where
  "network_init tcp_socket bind_ok listen_ok udp_socket udp_bind_ok epoll_create add_tcp_ok add_udp_ok s =
     (if tcp_socket = - 1 then Inl 1
      else if \<not> bind_ok then Inl 1
      else if \<not> listen_ok then Inl 1
      else if udp_socket = - 1 then Inl 1
      else if \<not> udp_bind_ok then Inl 1
      else if epoll_create = - 1 then Inl 1
      else if \<not> add_tcp_ok then Inl 1
      else if \<not> add_udp_ok then Inl 1
      else Inr (s\<lparr>fd_to_slot := replicate FD_MAP_SIZE (- 1), tcp_listen_fd := tcp_socket,
        udp_fd := udp_socket, epoll_fd := epoll_create\<rparr>))"

section \<open>Accepting a client\<close>

fun first_free_slot :: "nat \<Rightarrow> addr option list \<Rightarrow> nat option" where
  "first_free_slot i [] = None"
| "first_free_slot i (p # ps) = (if p = None then Some i else first_free_slot (Suc i) ps)"

definition new_client :: "int \<Rightarrow> nat \<Rightarrow> client" where
  "new_client client_fd slot =
     \<lparr>c_fd = client_fd, c_slot = slot, c_user_id = - 1, c_username = [], c_role = ROLE_GUEST,
      c_current_room = None, c_is_mute = False, c_is_active = True, c_ref_count = 1,
      c_udp_addr = \<lparr>sin_addr = 0, sin_port = 0\<rparr>, c_udp_addr_len = 0\<rparr>"

definition in_fd_map :: "int \<Rightarrow> bool" where
  "in_fd_map fd \<longleftrightarrow> 0 \<le> fd \<and> fd < int FD_MAP_SIZE"

text \<open>\<open>client_fd = - 1\<close>: nothing to accept. Where the connection is refused its socket is closed.\<close>

definition accept_new_client :: "int \<Rightarrow> addr option \<Rightarrow> server \<Rightarrow> server option" where
  "accept_new_client client_fd malloc_result s =
     (if client_fd = - 1 then Some s
      else if int MAX_CLIENTS \<le> client_count s then Some s
      else case first_free_slot 0 (clients s) of
        None \<Rightarrow> Some s
      | Some slot \<Rightarrow>
          (case malloc_result of
             None \<Rightarrow> Some s
           | Some n \<Rightarrow>
               do { cs \<leftarrow> arr_set (clients s) slot (Some n);
                    fds \<leftarrow> (if in_fd_map client_fd then arr_set (fd_to_slot s) (nat client_fd) (int slot)
                            else Some (fd_to_slot s));
                    Some (s\<lparr>client_heap := (client_heap s)(n \<mapsto> new_client client_fd slot),
                      clients := cs, client_count := client_count s + 1, fd_to_slot := fds,
                      open_fds := open_fds s @ [client_fd]\<rparr>) }))"

section \<open>Disconnecting\<close>

text \<open>
  The client of a socket: \<open>fd_to_slot\<close>, then \<open>clients\<close>. \<open>Some None\<close> when the maps lead to no client;
  a slot below -1 would be an index outside the table.
\<close>

definition client_of_fd :: "int \<Rightarrow> server \<Rightarrow> (nat \<times> addr) option option" where
  "client_of_fd client_fd s =
     (if \<not> in_fd_map client_fd then Some None
      else do { slot \<leftarrow> arr_get (fd_to_slot s) (nat client_fd);
                if slot = - 1 \<or> int MAX_CLIENTS \<le> slot then Some None
                else if slot < 0 then None
                else do { p \<leftarrow> arr_get (clients s) (nat slot);
                          Some (map_option (Pair (nat slot)) p) } })"

definition disconnect_client :: "int \<Rightarrow> server \<Rightarrow> server option" where
  "disconnect_client client_fd s =
     do { found \<leftarrow> client_of_fd client_fd s;
          (case found of
             None \<Rightarrow> Some s
           | Some (slot, c) \<Rightarrow>
               do { cl \<leftarrow> client_heap s c;
                    if c_fd cl \<noteq> client_fd then Some s
                    else do {
                      s1 \<leftarrow> (case c_current_room cl of
                              None \<Rightarrow> Some s
                            | Some a \<Rightarrow> remove_client_from_room a c s);
                      let s2 = s1\<lparr>open_fds := remove1 client_fd (open_fds s1)\<rparr>;
                      s3 \<leftarrow> upd_client c (\<lambda>cl. cl\<lparr>c_is_active := False\<rparr>) s2;
                      cs \<leftarrow> arr_set (clients s3) slot None;
                      fds \<leftarrow> (if in_fd_map client_fd then arr_set (fd_to_slot s3) (nat client_fd) (- 1)
                              else Some (fd_to_slot s3));
                      drop_ref c (s3\<lparr>clients := cs, client_count := client_count s3 - 1, fd_to_slot := fds\<rparr>) } }) }"

section \<open>Receiving\<close>

text \<open>
  \<open>None\<close> is a failed \<open>recv\<close>, \<open>Some []\<close> the end of the stream, and otherwise at most
  \<open>MAX_PACKET_SIZE - 1\<close> bytes; the command is the C string at their start.
\<close>

definition handle_tcp_command :: "int \<Rightarrow> string option \<Rightarrow> server \<Rightarrow> server option" where
  "handle_tcp_command client_fd recv_result s =
     (case recv_result of
        None \<Rightarrow> disconnect_client client_fd s
      | Some [] \<Rightarrow> disconnect_client client_fd s
      | Some (b # bs) \<Rightarrow>
          do { found \<leftarrow> client_of_fd client_fd s;
               (case found of
                  None \<Rightarrow> Some s
                | Some (slot, c) \<Rightarrow>
                    do { s1 \<leftarrow> upd_client c (\<lambda>cl. cl\<lparr>c_ref_count := c_ref_count cl + 1\<rparr>) s;
                         process_client_command c (c_string (b # bs)) s1 }) })"

text \<open>
  A datagram: the struct as \<open>recvfrom\<close> leaves it (a short datagram leaves the rest of it as it was,
  so any packet is possible), the sender's address and its length; \<open>None\<close> is a failed call. The code
  also tests \<open>shm_ring != NULL\<close> before the push, which always holds: \<open>ipc_manager_init\<close> ends the process
  when the ring cannot be mapped.
\<close>

definition handle_udp_packet :: "(audio_packet \<times> sockaddr_in \<times> nat) option \<Rightarrow> server \<Rightarrow> server option" where
  "handle_udp_packet recv_result s =
     (case recv_result of
        None \<Rightarrow> Some s
      | Some (pkt, sender_addr, addr_len) \<Rightarrow>
          do { s1 \<leftarrow> (if unat (ap_sender_id pkt) < MAX_CLIENTS then
                       do { p \<leftarrow> arr_get (clients s) (unat (ap_sender_id pkt));
                            (case p of
                               None \<Rightarrow> Some s
                             | Some c \<Rightarrow> upd_client c (\<lambda>cl. cl\<lparr>c_udp_addr := sender_addr,
                                 c_udp_addr_len := addr_len\<rparr>) s) }
                     else Some s);
               if 0 < unat (ap_payload_size pkt) then
                 do { (_, q) \<leftarrow> ring_buffer_push pkt (ring s1); Some (s1\<lparr>ring := q\<rparr>) }
               else Some s1 })"

section \<open>The event loop\<close>

text \<open>An event of \<open>epoll_wait\<close>, together with what the calls of its handler will return.\<close>

record epoll_event =
  ev_fd :: int
  ev_readable :: bool \<comment> \<open>\<open>events & (EPOLLIN | EPOLLHUP | EPOLLERR)\<close>\<close>
  ev_accept :: int
  ev_malloc :: "addr option"
  ev_recv :: "string option"
  ev_datagram :: "(audio_packet \<times> sockaddr_in \<times> nat) option"

definition handle_event :: "epoll_event \<Rightarrow> server \<Rightarrow> server option" where
  "handle_event ev s =
     (if ev_fd ev = tcp_listen_fd s then accept_new_client (ev_accept ev) (ev_malloc ev) s
      else if ev_fd ev = udp_fd s then handle_udp_packet (ev_datagram ev) s
      else if ev_readable ev then handle_tcp_command (ev_fd ev) (ev_recv ev) s
      else Some s)"

fun handle_events :: "epoll_event list \<Rightarrow> server \<Rightarrow> server option" where
  "handle_events [] s = Some s"
| "handle_events (ev # evs) s = Option.bind (handle_event ev s) (handle_events evs)"

text \<open>
  What the loop meets next: a call of \<open>epoll_wait\<close> that a signal interrupts, after its handler has run;
  one that fails; one that returns events (none after the timeout of 500 ms); or one that times out
  after the thread of the emergency FIFO has read something. A signal or a command that arrives while
  events are handled takes effect at the next test of \<open>server_on\<close>, as if it came right after them.
\<close>

datatype loop_input = Interrupted int | Wait_Failed | Events "epoll_event list" | Fifo_Command "string option"

text \<open>The loop was left, or goes on waiting when there is no further input, or the process was killed.\<close>

datatype loop_end = Left server | Waiting server | Ended_By int

fun network_event_loop :: "loop_input list \<Rightarrow> server \<Rightarrow> loop_end option" where
  "network_event_loop [] s = Some (if server_on s then Waiting s else Left s)"
| "network_event_loop (w # ws) s =
     (if \<not> server_on s then Some (Left s)
      else case w of
             Interrupted sig \<Rightarrow>
               (case deliver_signal sig s of
                  Inl k \<Rightarrow> Some (Ended_By k)
                | Inr s1 \<Rightarrow> network_event_loop ws s1)
           | Wait_Failed \<Rightarrow> Some (Left s)
           | Events evs \<Rightarrow> Option.bind (handle_events evs s) (network_event_loop ws)
           | Fifo_Command r \<Rightarrow> network_event_loop ws (s\<lparr>server_on := fifo_step r (server_on s)\<rparr>))"

end
