(* ===== verification/Audio_Mixer.thy ===== *)
theory Audio_Mixer
  imports Room_Invariant
begin

text \<open>
  \<open>src/src/server/audio_mixer.c\<close> without the jitter buffers: draining the ring into them, mixing the
  audio of a room for each of its participants, and the tick of the mixer thread. Samples are the
  integers of their 16-bit values. The clock enters as the argument \<open>now\<close>.
\<close>

section \<open>Samples\<close>

definition dec_i16 :: "byte \<Rightarrow> byte \<Rightarrow> int" where
  "dec_i16 lo hi = (uint lo + 256 * uint hi + 32768) mod 65536 - 32768"

definition enc_i16 :: "int \<Rightarrow> byte list" where
  "enc_i16 x = [word_of_int x, word_of_int (x div 256)]"

fun pcm_of_bytes :: "byte list \<Rightarrow> int list" where
  "pcm_of_bytes (lo # hi # bs) = dec_i16 lo hi # pcm_of_bytes bs"
| "pcm_of_bytes _ = []"

definition bytes_of_pcm :: "int list \<Rightarrow> byte list" where
  "bytes_of_pcm xs = concat (map enc_i16 xs)"

definition clamp_add :: "int \<Rightarrow> int \<Rightarrow> int" where
  "clamp_add a b =
     (let sum = a + b
      in if 32767 < sum then 32767 else if sum < - 32768 then - 32768 else sum)"

text \<open>Division of C integers, which truncates towards zero.\<close>

definition c_div :: "int \<Rightarrow> int \<Rightarrow> int" where
  "c_div a b = (if 0 \<le> a then a div b else - ((- a) div b))"

section \<open>Mixing\<close>

text \<open>
  The audio of a listener: the loop over the speakers, with the sum so far and \<open>mixed_speakers\<close>. A
  speaker is a slot and the samples popped for it.
\<close>

definition mix_in :: "int list \<Rightarrow> int list \<Rightarrow> int list" where
  "mix_in mixed pcm = map2 clamp_add mixed pcm @ drop (length pcm) mixed"

fun mix_speakers :: "nat \<Rightarrow> (nat \<times> int list) list \<Rightarrow> int list \<Rightarrow> nat \<Rightarrow> int list \<times> nat" where
  "mix_speakers listener_slot [] mixed mixed_speakers = (mixed, mixed_speakers)"
| "mix_speakers listener_slot ((speaker_slot, pcm) # speakers) mixed mixed_speakers =
     (if speaker_slot = listener_slot then mix_speakers listener_slot speakers mixed mixed_speakers
      else mix_speakers listener_slot speakers (mix_in mixed pcm) (mixed_speakers + 1))"

definition mix_for :: "nat \<Rightarrow> (nat \<times> int list) list \<Rightarrow> int list" where
  "mix_for listener_slot speakers =
     (let (mixed, n) = mix_speakers listener_slot speakers (replicate 320 0) 0
      in if 1 < n then map (\<lambda>x. c_div x (int n)) mixed else mixed)"

definition entry_pcm :: "jitter_entry \<Rightarrow> int list" where
  "entry_pcm entry =
     (let samples = min 320 (unat (je_payload_size entry) div 2)
      in pcm_of_bytes (take (samples * 2) (je_payload entry)))"

text \<open>\<open>sem_trywait\<close> and \<open>sem_post\<close> on the semaphore of a room.\<close>

definition sem_trywait :: "nat \<Rightarrow> nat list \<Rightarrow> (bool \<times> nat list) option" where
  "sem_trywait i sems =
     do { v \<leftarrow> arr_get sems i; Some (if v = 0 then (False, sems) else (True, sems[i := v - 1])) }"

definition sem_post :: "nat \<Rightarrow> nat list \<Rightarrow> nat list option" where
  "sem_post i sems = do { v \<leftarrow> arr_get sems i; arr_set sems i (v + 1) }"

fun collect_speakers :: "nat list \<Rightarrow> room \<Rightarrow> (nat \<times> int list) list \<Rightarrow> server \<Rightarrow>
    ((nat \<times> int list) list \<times> server) option" where
  "collect_speakers [] r speakers s = Some (speakers, s)"
| "collect_speakers (i # is) r speakers s =
     do { p \<leftarrow> arr_get (r_participants r) i;
          (case p of
             None \<Rightarrow> collect_speakers is r speakers s
           | Some c \<Rightarrow>
               do { speaker \<leftarrow> client_heap s c;
                    if c_is_mute speaker \<or> \<not> c_is_active speaker then collect_speakers is r speakers s
                    else if MAX_CLIENTS \<le> length speakers then Some (speakers, s)
                    else do {
                      (ok, sems) \<leftarrow> sem_trywait (r_room_id r) (room_speaker_sem s);
                      if \<not> ok then collect_speakers is r speakers s
                      else do {
                        jb \<leftarrow> arr_get (jitter_buffers s) (c_slot speaker);
                        let (entry, jb1) = jitter_buffer_pop jb;
                        jbs \<leftarrow> arr_set (jitter_buffers s) (c_slot speaker) jb1;
                        sems1 \<leftarrow> sem_post (r_room_id r) sems;
                        collect_speakers is r
                          (case entry of
                             None \<Rightarrow> speakers
                           | Some e \<Rightarrow> speakers @ [(c_slot speaker, entry_pcm e)])
                          (s\<lparr>room_speaker_sem := sems1, jitter_buffers := jbs\<rparr>) } } }) }"

text \<open>
  The datagram is recorded with its address and its length when it is handed to \<open>sendto\<close>. The length of
  the address that is passed along, and whether the datagram is dropped (the code ignores that), have
  no effect on the state.
\<close>

definition send_audio_to_client :: "u32 \<Rightarrow> addr \<Rightarrow> int list \<Rightarrow> nat \<Rightarrow> server \<Rightarrow> server option" where
  "send_audio_to_client now c pcm samples s =
     do { cl \<leftarrow> client_heap s c;
          room_id \<leftarrow> (case c_current_room cl of
                       None \<Rightarrow> Some 0
                     | Some a \<Rightarrow> map_option r_room_id (room_heap s a));
          let payload_size =
            (let n = (of_nat (samples * 2) :: u16) in if AUDIO_PAYLOAD_SIZE < unat n then 2048 else n);
          let pkt = \<lparr>ap_room_id = of_nat room_id, ap_sender_id = 0, ap_seq_num = 0, ap_timestamp = now,
            ap_payload_size = payload_size,
            ap_payload = overwrite 0 0 (take (unat payload_size) (bytes_of_pcm pcm))
              (replicate AUDIO_PAYLOAD_SIZE 0)\<rparr>;
          Some (s\<lparr>udp_out := udp_out s @ [(c_udp_addr cl, 20 + unat payload_size, pkt)]\<rparr>) }"

fun send_mixes :: "u32 \<Rightarrow> addr option list \<Rightarrow> (nat \<times> int list) list \<Rightarrow> server \<Rightarrow> server option" where
  "send_mixes now [] speakers s = Some s"
| "send_mixes now (p # ps) speakers s =
     (case p of
        None \<Rightarrow> send_mixes now ps speakers s
      | Some c \<Rightarrow>
          do { listener \<leftarrow> client_heap s c;
               if \<not> c_is_active listener then send_mixes now ps speakers s
               else do { s1 \<leftarrow> send_audio_to_client now c (mix_for (c_slot listener) speakers) 320 s;
                         send_mixes now ps speakers s1 } })"

definition mix_room :: "u32 \<Rightarrow> addr \<Rightarrow> server \<Rightarrow> server option" where
  "mix_room now a s =
     do { r \<leftarrow> room_heap s a;
          (speakers, s1) \<leftarrow> collect_speakers [0..<r_participant_count r] r [] s;
          s2 \<leftarrow> upd_room a (\<lambda>r. r\<lparr>r_active_speakers := int (length speakers)\<rparr>) s1;
          if length (r_participants r) < r_participant_count r then None
          else send_mixes now (take (min MAX_CLIENTS (r_participant_count r)) (r_participants r)) speakers s2 }"

section \<open>The mixer thread\<close>

text \<open>Emptying the ring into the jitter buffers; a sender id outside the table is skipped.\<close>

lemma ring_buffer_pop_less:
  "ring_buffer_pop q = Some (Some pkt, q') \<Longrightarrow> ring_full q' < ring_full q"
  by (auto simp: ring_buffer_pop_def elim!: bind_eq_SomeE split: if_splits)

function drain_ring :: "server \<Rightarrow> server option" where
  "drain_ring s =
     (case ring_buffer_pop (ring s) of
        None \<Rightarrow> None
      | Some (None, q) \<Rightarrow> Some (s\<lparr>ring := q\<rparr>)
      | Some (Some pkt, q) \<Rightarrow>
          (let slot = sint (ap_sender_id pkt)
           in if slot < 0 \<or> int MAX_CLIENTS \<le> slot then drain_ring (s\<lparr>ring := q\<rparr>)
              else case arr_get (jitter_buffers s) (nat slot) of
                     None \<Rightarrow> None
                   | Some jb \<Rightarrow>
                       (case jitter_buffer_push pkt jb of
                          None \<Rightarrow> None
                        | Some jb1 \<Rightarrow>
                            drain_ring (s\<lparr>ring := q, jitter_buffers := (jitter_buffers s)[nat slot := jb1]\<rparr>))))"
  by pat_completeness auto
termination
  by (relation "measure (\<lambda>s. ring_full (ring s))") (auto dest: ring_buffer_pop_less)

declare drain_ring.simps [simp del]

partial_function (option) mix_rooms :: "u32 \<Rightarrow> addr option \<Rightarrow> server \<Rightarrow> server option" where
  [code]: "mix_rooms now p s =
     (case p of
        None \<Rightarrow> Some s
      | Some a \<Rightarrow>
          do { r \<leftarrow> room_heap s a;
               s1 \<leftarrow> (if 0 < r_participant_count r then mix_room now a s else Some s);
               r1 \<leftarrow> room_heap s1 a;
               mix_rooms now (r_next r1) s1 })"

definition mixer_tick :: "u32 \<Rightarrow> server \<Rightarrow> server option" where
  "mixer_tick now s = do { s1 \<leftarrow> drain_ring s; mix_rooms now (room_head s1) s1 }"

text \<open>
  The loop of the thread over the times at which it wakes up (\<open>mixer_running\<close> is never changed), and its
  clock, seconds and nanoseconds, which moves by 20 milliseconds.
\<close>

fun mixer_thread_main :: "u32 list \<Rightarrow> server \<Rightarrow> server option" where
  "mixer_thread_main [] s = Some s"
| "mixer_thread_main (now # ticks) s =
     (if \<not> server_on s then Some s else Option.bind (mixer_tick now s) (mixer_thread_main ticks))"

definition advance_tick :: "int \<times> int \<Rightarrow> int \<times> int" where
  "advance_tick t =
     (let (tv_sec, tv_nsec) = t; tv_nsec = tv_nsec + 20000000
      in if 1000000000 \<le> tv_nsec then (tv_sec + 1, tv_nsec - 1000000000) else (tv_sec, tv_nsec))"

definition audio_mixer_init :: "server \<Rightarrow> server" where
  "audio_mixer_init s =
     s\<lparr>room_speaker_sem := replicate MAX_ROOMS (nat MAX_SPEAKERS_PER_ROOM),
       jitter_buffers := replicate MAX_CLIENTS jitter_zero\<rparr>"

end
