(* ===== verification/Server_Invariant.thy ===== *)
theory Server_Invariant
  imports Room_Invariant Network Audio_Mixer
begin

text \<open>
  The invariant of the whole server, in four parts: the rooms (\<open>rooms_inv\<close>), the client table with
  the descriptor map (\<open>table_inv\<close>), the reference counts (\<open>refs_inv\<close>) and the audio path
  (\<open>audio_inv\<close>). The reference counts are stated for a list of holders: the clients of the queued
  tasks, and those that a running task or the network thread holds at the moment.
\<close>

section \<open>Definitions\<close>

definition table_inv :: "addr option list \<Rightarrow> int \<Rightarrow> int list \<Rightarrow> int list \<Rightarrow> (addr \<rightharpoonup> client) \<Rightarrow> bool" where
  "table_inv cs n fds ofds C \<longleftrightarrow>
     length cs = MAX_CLIENTS \<and> length fds = FD_MAP_SIZE \<and> n = int (length (filter (\<lambda>p. p \<noteq> None) cs)) \<and>
     (\<forall>i c. i < MAX_CLIENTS \<and> cs ! i = Some c \<longrightarrow> (\<exists>cl. C c = Some cl \<and> c_is_active cl \<and> c_slot cl = i)) \<and>
     (\<forall>c cl. C c = Some cl \<and> c_is_active cl \<longrightarrow> c_slot cl < MAX_CLIENTS \<and> cs ! c_slot cl = Some c \<and>
        c_fd cl \<in> set ofds \<and> (in_fd_map (c_fd cl) \<longrightarrow> fds ! nat (c_fd cl) = int (c_slot cl))) \<and>
     (\<forall>i < FD_MAP_SIZE. fds ! i = - 1 \<or>
        (\<exists>c cl. C c = Some cl \<and> c_is_active cl \<and> c_fd cl = int i \<and> fds ! i = int (c_slot cl))) \<and>
     (\<forall>c c' cl cl'. C c = Some cl \<and> C c' = Some cl' \<and> c_is_active cl \<and> c_is_active cl' \<and>
        c_fd cl = c_fd cl' \<longrightarrow> c = c') \<and>
     distinct ofds"

definition refs_inv :: "(addr \<rightharpoonup> client) \<Rightarrow> addr list \<Rightarrow> bool" where
  "refs_inv C holders \<longleftrightarrow>
     (\<forall>h \<in> set holders. C h \<noteq> None) \<and>
     (\<forall>c cl. C c = Some cl \<longrightarrow>
        0 < c_ref_count cl \<and> int (count_list holders c) + of_bool (c_is_active cl) \<le> c_ref_count cl)"

definition task_holders :: "task_queue \<Rightarrow> addr list" where
  "task_holders q = map (\<lambda>t. the (task_c t)) (task_list q)"

definition tasks_ok :: "task_queue \<Rightarrow> bool" where
  "tasks_ok q \<longleftrightarrow> task_ok q \<and>
     (\<forall>t \<in> set (task_list q). task_c t \<noteq> None \<and> nul \<notin> set (task_command t))"

definition audio_inv :: "ipc \<Rightarrow> jitter_buffer list \<Rightarrow> nat list \<Rightarrow> bool" where
  "audio_inv q jbs sems \<longleftrightarrow> ipc_inv q \<and> (\<forall>pkt \<in> set (ring_contents (shm_ring q)). packet_ok pkt) \<and>
     length jbs = MAX_CLIENTS \<and> (\<forall>jb \<in> set jbs. jb_ok jb) \<and> sems = replicate MAX_ROOMS 10"

definition held_inv :: "server \<Rightarrow> addr list \<Rightarrow> bool" where
  "held_inv s holders \<longleftrightarrow> (\<exists>as. rooms_inv s as) \<and>
     table_inv (clients s) (client_count s) (fd_to_slot s) (open_fds s) (client_heap s) \<and>
     refs_inv (client_heap s) (holders @ task_holders (tasks s)) \<and> tasks_ok (tasks s) \<and>
     audio_inv (ring s) (jitter_buffers s) (room_speaker_sem s)"

definition server_inv :: "server \<Rightarrow> bool" where
  "server_inv s \<longleftrightarrow> held_inv s []"

section \<open>What the table and the counts depend on\<close>

definition shape :: "client \<Rightarrow> int \<times> nat \<times> bool \<times> int" where
  "shape cl = (c_fd cl, c_slot cl, c_is_active cl, c_ref_count cl)"

definition same_shapes :: "(addr \<rightharpoonup> client) \<Rightarrow> (addr \<rightharpoonup> client) \<Rightarrow> bool" where
  "same_shapes C C' \<longleftrightarrow> (\<forall>c. map_option shape (C' c) = map_option shape (C c))"

lemma same_shapes_refl [simp]: "same_shapes C C"
  by (simp add: same_shapes_def)

lemma same_shapes_upd:
  "C c = Some cl \<Longrightarrow> shape cl' = shape cl \<Longrightarrow> same_shapes C (C(c \<mapsto> cl'))"
  by (simp add: same_shapes_def)

lemma same_shapesD:
  assumes "same_shapes C C'"
  shows "C c = Some cl \<Longrightarrow> \<exists>cl'. C' c = Some cl' \<and> shape cl' = shape cl"
    "C' c = Some cl \<Longrightarrow> \<exists>cl'. C c = Some cl' \<and> shape cl' = shape cl"
  using assms unfolding same_shapes_def by (metis map_option_eq_Some)+

lemma table_invD:
  assumes "table_inv cs n fds ofds C"
  shows "length cs = MAX_CLIENTS" "length fds = FD_MAP_SIZE" "n = int (length (filter (\<lambda>p. p \<noteq> None) cs))"
    "\<And>i c. i < MAX_CLIENTS \<Longrightarrow> cs ! i = Some c \<Longrightarrow> \<exists>cl. C c = Some cl \<and> c_is_active cl \<and> c_slot cl = i"
    "\<And>c cl. C c = Some cl \<Longrightarrow> c_is_active cl \<Longrightarrow> c_slot cl < MAX_CLIENTS \<and> cs ! c_slot cl = Some c \<and>
       c_fd cl \<in> set ofds \<and> (in_fd_map (c_fd cl) \<longrightarrow> fds ! nat (c_fd cl) = int (c_slot cl))"
    "\<And>i. i < FD_MAP_SIZE \<Longrightarrow> fds ! i = - 1 \<or>
       (\<exists>c cl. C c = Some cl \<and> c_is_active cl \<and> c_fd cl = int i \<and> fds ! i = int (c_slot cl))"
    "\<And>c c' cl cl'. C c = Some cl \<Longrightarrow> C c' = Some cl' \<Longrightarrow> c_is_active cl \<Longrightarrow> c_is_active cl' \<Longrightarrow>
       c_fd cl = c_fd cl' \<Longrightarrow> c = c'"
    "distinct ofds"
  using assms unfolding table_inv_def by blast+

lemma table_invI:
  assumes "length cs = MAX_CLIENTS" "length fds = FD_MAP_SIZE" "n = int (length (filter (\<lambda>p. p \<noteq> None) cs))"
    "\<And>i c. i < MAX_CLIENTS \<Longrightarrow> cs ! i = Some c \<Longrightarrow> \<exists>cl. C c = Some cl \<and> c_is_active cl \<and> c_slot cl = i"
    "\<And>c cl. C c = Some cl \<Longrightarrow> c_is_active cl \<Longrightarrow> c_slot cl < MAX_CLIENTS \<and> cs ! c_slot cl = Some c \<and>
       c_fd cl \<in> set ofds \<and> (in_fd_map (c_fd cl) \<longrightarrow> fds ! nat (c_fd cl) = int (c_slot cl))"
    "\<And>i. i < FD_MAP_SIZE \<Longrightarrow> fds ! i = - 1 \<or>
       (\<exists>c cl. C c = Some cl \<and> c_is_active cl \<and> c_fd cl = int i \<and> fds ! i = int (c_slot cl))"
    "\<And>c c' cl cl'. C c = Some cl \<Longrightarrow> C c' = Some cl' \<Longrightarrow> c_is_active cl \<Longrightarrow> c_is_active cl' \<Longrightarrow>
       c_fd cl = c_fd cl' \<Longrightarrow> c = c'"
    "distinct ofds"
  shows "table_inv cs n fds ofds C"
  using assms unfolding table_inv_def by blast

lemma shape_eq: "shape cl = shape cl' \<longleftrightarrow> c_fd cl = c_fd cl' \<and> c_slot cl = c_slot cl' \<and>
    c_is_active cl = c_is_active cl' \<and> c_ref_count cl = c_ref_count cl'"
  by (auto simp: shape_def)

text \<open>The table depends on the connected clients only.\<close>

definition connected :: "(addr \<rightharpoonup> client) \<Rightarrow> addr \<Rightarrow> (int \<times> nat) option" where
  "connected C c = (case C c of
     None \<Rightarrow> None | Some cl \<Rightarrow> if c_is_active cl then Some (c_fd cl, c_slot cl) else None)"

lemma connected_Some:
  "connected C c = Some (f, i) \<longleftrightarrow> (\<exists>cl. C c = Some cl \<and> c_is_active cl \<and> c_fd cl = f \<and> c_slot cl = i)"
  by (auto simp: connected_def split: option.splits if_splits)

lemma connected_shapes: "same_shapes C C' \<Longrightarrow> connected C' = connected C"
proof
  fix c assume "same_shapes C C'"
  then have "map_option shape (C' c) = map_option shape (C c)" by (simp add: same_shapes_def)
  then show "connected C' c = connected C c"
    by (cases "C c"; cases "C' c") (auto simp: connected_def shape_eq)
qed

lemma table_inv_connected:
  assumes "table_inv cs n fds ofds C" "connected C' = connected C"
  shows "table_inv cs n fds ofds C'"
proof (rule table_invI)
  note T = table_invD [OF assms(1)]
  have move: "\<exists>cl'. D' c = Some cl' \<and> c_is_active cl' \<and> c_fd cl' = c_fd cl \<and> c_slot cl' = c_slot cl"
    if "connected D' = connected D" "D c = Some cl" "c_is_active cl" for D D' :: "addr \<rightharpoonup> client" and c cl
    using that connected_Some [of D c "c_fd cl" "c_slot cl"] connected_Some [of D' c "c_fd cl" "c_slot cl"] by auto
  note fwd = move [OF assms(2)] and bwd = move [OF assms(2) [symmetric]]
  show "length cs = MAX_CLIENTS" "length fds = FD_MAP_SIZE" "distinct ofds"
    "n = int (length (filter (\<lambda>p. p \<noteq> None) cs))" using T by auto
  show "\<exists>cl. C' c = Some cl \<and> c_is_active cl \<and> c_slot cl = i" if "i < MAX_CLIENTS" "cs ! i = Some c" for i c
    using T(4) [OF that] fwd by metis
  show "c_slot cl < MAX_CLIENTS \<and> cs ! c_slot cl = Some c \<and> c_fd cl \<in> set ofds \<and>
      (in_fd_map (c_fd cl) \<longrightarrow> fds ! nat (c_fd cl) = int (c_slot cl))"
    if "C' c = Some cl" "c_is_active cl" for c cl
    using bwd [OF that] T(5) by metis
  show "fds ! i = - 1 \<or> (\<exists>c cl. C' c = Some cl \<and> c_is_active cl \<and> c_fd cl = int i \<and> fds ! i = int (c_slot cl))"
    if "i < FD_MAP_SIZE" for i
    using T(6) [OF that] fwd by metis
  show "c = c'" if "C' c = Some cl" "C' c' = Some cl'" "c_is_active cl" "c_is_active cl'" "c_fd cl = c_fd cl'"
    for c c' cl cl'
    using bwd [OF that(1,3)] bwd [OF that(2,4)] T(7) that(5) by metis
qed

lemmas table_inv_shapes = table_inv_connected [OF _ connected_shapes]

lemma refs_inv_shapes:
  assumes "refs_inv C hs" "same_shapes C C'"
  shows "refs_inv C' hs"
  unfolding refs_inv_def
proof (intro conjI ballI allI impI)
  fix h assume "h \<in> set hs"
  then show "C' h \<noteq> None" using assms same_shapesD(1) [OF assms(2), of h] unfolding refs_inv_def by fastforce
next
  fix c cl assume "C' c = Some cl"
  then obtain cl' where "C c = Some cl'" "shape cl = shape cl'" using same_shapesD(2) [OF assms(2)] by metis
  then show "0 < c_ref_count cl" "int (count_list hs c) + of_bool (c_is_active cl) \<le> c_ref_count cl"
    using assms(1) unfolding refs_inv_def shape_def by auto
qed

section \<open>Rooms and connected clients\<close>

lemma room_table_cong: "room_heap s' = room_heap s \<Longrightarrow> room_table s' = room_table s"
  by (simp add: room_table_def fun_eq_iff)

lemma rooms_inv_cong:
  "room_heap s' = room_heap s \<Longrightarrow> room_head s' = room_head s \<Longrightarrow> room_count s' = room_count s \<Longrightarrow>
    client_heap s' = client_heap s \<Longrightarrow> db s' = db s \<Longrightarrow> rooms_inv s' as = rooms_inv s as"
  using room_table_cong [of s' s] by (simp add: rooms_inv_def list_ok_def)

text \<open>The rooms depend on which room the connected clients are in.\<close>

definition seated :: "(addr \<rightharpoonup> client) \<Rightarrow> addr \<Rightarrow> addr option" where
  "seated C c = (case C c of None \<Rightarrow> None | Some cl \<Rightarrow> if c_is_active cl then c_current_room cl else None)"

lemma seated_Some:
  "seated C c = Some a \<longleftrightarrow> (\<exists>cl. C c = Some cl \<and> c_is_active cl \<and> c_current_room cl = Some a)"
  by (auto simp: seated_def split: option.splits if_splits)

lemma linked_seated: "linked H C \<longleftrightarrow>
    (\<forall>a r c. H a = Some r \<and> c \<in> set (members r) \<longrightarrow> seated C c = Some a) \<and>
    (\<forall>c a. seated C c = Some a \<longrightarrow> (\<exists>r. H a = Some r \<and> c \<in> set (members r)))"
  unfolding linked_def seated_Some by blast

lemma rooms_inv_seated:
  assumes "rooms_inv s as" "seated C = seated (client_heap s)"
  shows "rooms_inv (s\<lparr>client_heap := C\<rparr>) as"
  using assms room_table_cong [of "s\<lparr>client_heap := C\<rparr>" s]
  by (simp add: rooms_inv_def list_ok_def linked_seated)

section \<open>Steps that keep the invariant\<close>

lemma held_invD:
  assumes "held_inv s hs"
  shows "\<exists>as. rooms_inv s as"
    "table_inv (clients s) (client_count s) (fd_to_slot s) (open_fds s) (client_heap s)"
    "refs_inv (client_heap s) (hs @ task_holders (tasks s))" "tasks_ok (tasks s)"
    "audio_inv (ring s) (jitter_buffers s) (room_speaker_sem s)"
  using assms by (simp_all add: held_inv_def)

lemma held_send [simp]: "held_inv (s\<lparr>tcp_out := x\<rparr>) hs = held_inv s hs"
  using rooms_inv_cong [of "s\<lparr>tcp_out := x\<rparr>" s] by (simp add: held_inv_def)

lemma held_holder: "held_inv s hs \<Longrightarrow> c \<in> set hs \<Longrightarrow> \<exists>cl. client_heap s c = Some cl"
  unfolding held_inv_def refs_inv_def by auto

lemma held_client_update:
  assumes "held_inv s hs" "client_heap s c = Some cl" "shape cl' = shape cl"
    "c_current_room cl' = c_current_room cl"
  shows "held_inv (s\<lparr>client_heap := (client_heap s)(c \<mapsto> cl')\<rparr>) hs"
proof -
  let ?C = "(client_heap s)(c \<mapsto> cl')"
  have sh: "same_shapes (client_heap s) ?C" using assms(2,3) by (simp add: same_shapes_upd)
  have "seated ?C = seated (client_heap s)"
    using assms(2-4) by (auto simp: seated_def shape_eq fun_eq_iff)
  then have "\<exists>as. rooms_inv (s\<lparr>client_heap := ?C\<rparr>) as"
    using held_invD(1) [OF assms(1)] rooms_inv_seated by blast
  with held_invD [OF assms(1)] table_inv_shapes [OF _ sh] refs_inv_shapes [OF _ sh] show ?thesis
    by (simp add: held_inv_def)
qed

lemma held_room_change:
  assumes "held_inv s hs" "rooms_inv s' as" "same_shapes (client_heap s) (client_heap s')"
    "clients s' = clients s" "client_count s' = client_count s" "fd_to_slot s' = fd_to_slot s"
    "open_fds s' = open_fds s" "tasks s' = tasks s" "ring s' = ring s"
    "jitter_buffers s' = jitter_buffers s" "room_speaker_sem s' = room_speaker_sem s"
  shows "held_inv s' hs"
  using held_invD [OF assms(1)] assms(2-) table_inv_shapes [OF _ assms(3)] refs_inv_shapes [OF _ assms(3)]
  by (auto simp: held_inv_def)

lemma held_db_change:
  assumes "held_inv s hs" "db_ready d" "rooms_bin d = rooms_bin (db s)"
  shows "held_inv (s\<lparr>db := d\<rparr>) hs"
proof -
  obtain as where as: "rooms_inv s as" using held_invD(1) [OF assms(1)] by blast
  then have "rooms_inv (s\<lparr>db := d\<rparr>) as"
    using assms(2,3) room_table_cong [of "s\<lparr>db := d\<rparr>" s] by (simp add: rooms_inv_def list_ok_def on_disk_def)
  with held_invD [OF assms(1)] show ?thesis by (auto simp: held_inv_def)
qed

lemma held_drop_ref:
  assumes "held_inv s (c # hs)"
  shows "\<exists>t. drop_ref c s = Some t \<and> held_inv t hs"
proof -
  note inv = held_invD [OF assms]
  let ?C = "client_heap s" and ?hs = "hs @ task_holders (tasks s)"
  obtain cl where cl: "?C c = Some cl" using held_holder [OF assms] by auto
  have ref: "int (count_list ?hs c) + 1 + of_bool (c_is_active cl) \<le> c_ref_count cl"
    using inv(3) cl unfolding refs_inv_def by fastforce
  show ?thesis
  proof (cases "c_ref_count cl - 1 = 0")
    case True
    let ?D = "?C(c := None)"
    have gone: "\<not> c_is_active cl" "c \<notin> set ?hs"
      using ref True by (cases "c_is_active cl"; simp add: count_list_0_iff [symmetric])+
    have "drop_ref c s = Some (s\<lparr>client_heap := ?D\<rparr>)"
      using cl True by (simp add: drop_ref_def mem_simps)
    moreover have "connected ?D = connected ?C" "seated ?D = seated ?C"
      using cl gone(1) by (auto simp: connected_def seated_def fun_eq_iff)
    moreover have "refs_inv ?D ?hs"
      using inv(3) gone(2) unfolding refs_inv_def by (auto split: if_splits)
    ultimately show ?thesis
      using inv rooms_inv_seated [of s _ ?D] table_inv_connected [OF inv(2)] by (auto simp: held_inv_def)
  next
    case False
    let ?D = "?C(c \<mapsto> cl\<lparr>c_ref_count := c_ref_count cl - 1\<rparr>)"
    have "drop_ref c s = Some (s\<lparr>client_heap := ?D\<rparr>)"
      using cl False by (simp add: drop_ref_def mem_simps)
    moreover have "connected ?D = connected ?C" "seated ?D = seated ?C"
      using cl by (auto simp: connected_def seated_def fun_eq_iff)
    moreover have "0 < c_ref_count cl - 1" using ref False by (cases "c_is_active cl") auto
    then have "refs_inv ?D ?hs"
      using inv(3) ref cl unfolding refs_inv_def by (auto split: if_splits)
    ultimately show ?thesis
      using inv rooms_inv_seated [of s _ ?D] table_inv_connected [OF inv(2)] by (auto simp: held_inv_def)
  qed
qed

end
