(* ===== verification/Handler_Invariant.thy ===== *)
theory Handler_Invariant
  imports Server_Invariant
begin

text \<open>
  Every command handler, run for a connected client, returns (no dangling pointer, no index outside
  an array, no endless list) and keeps the invariant. The arguments are any text without NUL, which
  is what the network thread puts into the queue.
\<close>

section \<open>Arguments\<close>

definition clean :: "string option \<Rightarrow> bool" where
  "clean args \<longleftrightarrow> (\<forall>a. args = Some a \<longrightarrow> nul \<notin> set a)"

lemma set_skip_ws: "set (skip_ws s) \<subseteq> set s"
  by (auto simp: skip_ws_def dest: set_dropWhileD)

lemma scan_word_set: "set (take n (takeWhile P (skip_ws s))) \<subseteq> set s"
proof
  fix x assume "x \<in> set (take n (takeWhile P (skip_ws s)))"
  then have "x \<in> set (takeWhile P (skip_ws s))" by (rule in_set_takeD)
  then have "x \<in> set (skip_ws s)" by (rule set_takeWhileD [THEN conjunct1])
  then show "x \<in> set s" using set_skip_ws by blast
qed

lemma fits_word: "nul \<notin> set s \<Longrightarrow> fits (Suc n) (take n (takeWhile P (skip_ws s)))"
  using scan_word_set [of n P s] by (auto simp: fits_def)

lemma scan_words_fits:
  assumes "clean args" "scan_words n m args = (x, y)"
  shows "fits (Suc n) x" "fits (Suc m) y"
proof -
  have "fits (Suc n) x \<and> fits (Suc m) y"
  proof (cases args)
    case None
    with assms show ?thesis by (simp add: scan_words_def fits_def)
  next
    case (Some a)
    define w where "w = take n (takeWhile (\<lambda>c. \<not> is_space c) (skip_ws a))"
    define rest where "rest = skip_ws (drop (length w) (skip_ws a))"
    have a: "nul \<notin> set a" using assms(1) Some by (simp add: clean_def)
    have "set rest \<subseteq> set a"
      unfolding rest_def using set_skip_ws set_drop_subset order_trans by metis
    with a have rest: "nul \<notin> set rest" by blast
    have "x = w" "y = (if w = [] then [] else take m (takeWhile (\<lambda>c. \<not> is_space c) (skip_ws rest)))"
      using assms(2) Some
      by (auto simp: scan_words_def arg_str_def w_def rest_def Let_def split: if_splits)
    with fits_word [OF a] fits_word [OF rest] show ?thesis by (simp add: w_def fits_def)
  qed
  then show "fits (Suc n) x" "fits (Suc m) y" by simp_all
qed

section \<open>Responses\<close>

lemma send_error_keeps:
  "held_inv s hs \<Longrightarrow> client_heap s c = Some cl \<Longrightarrow>
    \<exists>x. send_error c status msg s = Some (s\<lparr>tcp_out := x\<rparr>) \<and> held_inv (s\<lparr>tcp_out := x\<rparr>) hs"
  by (auto simp: send_error_def send_response_def)

lemma send_ok_keeps:
  "held_inv s hs \<Longrightarrow> client_heap s c = Some cl \<Longrightarrow>
    \<exists>x. send_ok c msg data s = Some (s\<lparr>tcp_out := x\<rparr>) \<and> held_inv (s\<lparr>tcp_out := x\<rparr>) hs"
  by (auto simp: send_ok_def send_response_def)

text \<open>A handler is safe when it returns and keeps the invariant.\<close>

definition safe :: "server option \<Rightarrow> addr list \<Rightarrow> bool" where
  "safe r hs \<longleftrightarrow> (\<exists>t. r = Some t \<and> held_inv t hs)"

lemma safe_send_error [intro]: "held_inv s hs \<Longrightarrow> client_heap s c = Some cl \<Longrightarrow> safe (send_error c status msg s) hs"
  using send_error_keeps unfolding safe_def by blast

lemma safe_send_ok [intro]: "held_inv s hs \<Longrightarrow> client_heap s c = Some cl \<Longrightarrow> safe (send_ok c msg data s) hs"
  using send_ok_keeps unfolding safe_def by blast

section \<open>Room operations\<close>

lemma leave_keeps:
  assumes "held_inv s hs" "client_heap s c = Some cl" "c_is_active cl"
  shows "\<exists>i t. room_leave c s = Some (i, t) \<and> held_inv t hs \<and>
    client_heap t = (client_heap s)(c \<mapsto> cl\<lparr>c_current_room := None\<rparr>) \<and>
    (\<forall>b r. room_table t b = Some r \<longrightarrow> (\<exists>q. room_table s b = Some q \<and> r_room_id q = r_room_id r))"
proof (cases "c_current_room cl")
  case None
  then have "cl\<lparr>c_current_room := None\<rparr> = cl" by simp
  with None assms show ?thesis by (auto simp: room_leave_def fun_upd_idem)
next
  case (Some a)
  obtain as where as: "rooms_inv s as" using held_invD(1) [OF assms(1)] by blast
  obtain h p n d s' as' r r1 where t: "room_leave c s = Some (0, s')"
      "s' = s\<lparr>room_head := p, room_heap := h, room_count := n,
        client_heap := (client_heap s)(c \<mapsto> cl\<lparr>c_current_room := None\<rparr>), db := d\<rparr>"
      "rooms_inv s' as'" "room_table s a = Some r" "r_room_id r1 = r_room_id r"
      "room_table s' = (room_table s)(a := if members r1 = [] then None else Some r1)"
    using room_leave_ok [OF as assms(2,3) Some] by blast
  have "same_shapes (client_heap s) ((client_heap s)(c \<mapsto> cl\<lparr>c_current_room := None\<rparr>))"
    using assms(2) by (simp add: same_shapes_upd shape_eq)
  then have "held_inv s' hs" by (intro held_room_change [OF assms(1) t(3)]) (simp_all add: t(2))
  moreover have "\<exists>q. room_table s b = Some q \<and> r_room_id q = r_room_id r'" if "room_table s' b = Some r'" for b r'
    using that t(4-6) by (cases "b = a") (auto split: if_splits)
  ultimately show ?thesis using t(1,2) by auto
qed

lemma join_free_keeps:
  assumes "held_inv s hs" "client_heap s c = Some cl" "c_is_active cl" "c_current_room cl = None"
  shows "\<exists>i t cl'. room_join room_id password c s = Some (i, t) \<and> held_inv t hs \<and> client_heap t c = Some cl' \<and>
    (i = 0 \<longrightarrow> (\<exists>a r. room_table s a = Some r \<and> r_room_id r = room_id \<and> room_heap t a \<noteq> None)) \<and>
    i \<in> {0, - 2, - 3, - 4}"
proof -
  obtain as where as: "rooms_inv s as" using held_invD(1) [OF assms(1)] by blast
  obtain i t where join: "room_join room_id password c s = Some (i, t)" "join_result s as room_id password c cl i t"
    using room_join_free [OF as assms(2-4)] by blast
  consider "t = s" "i \<in> {- 2, - 3, - 4}"
    | a r h d r1 where "i = 0" "room_table s a = Some r" "r_room_id r = room_id" "rooms_inv t as"
      "t = s\<lparr>room_heap := h, db := d, client_heap := (client_heap s)(c \<mapsto> cl\<lparr>c_current_room := Some a\<rparr>)\<rparr>"
      "room_table t = (room_table s)(a \<mapsto> r1)"
    using join(2) unfolding join_result_def by (auto split: if_splits)
  then show ?thesis
  proof cases
    case 1
    with join(1) assms show ?thesis by auto
  next
    case 2
    have "same_shapes (client_heap s) ((client_heap s)(c \<mapsto> cl\<lparr>c_current_room := Some a\<rparr>))"
      using assms(2) by (simp add: same_shapes_upd shape_eq)
    then have "held_inv t hs" by (intro held_room_change [OF assms(1) 2(4)]) (simp_all add: 2(5))
    moreover have "room_table t a = Some r1" using 2(6) by simp
    then have "room_heap t a \<noteq> None" by (auto simp: room_table_def)
    moreover have "client_heap t c = Some (cl\<lparr>c_current_room := Some a\<rparr>)" using 2(5) by simp
    ultimately show ?thesis using join(1) 2(1-3) by blast
  qed
qed

lemma join_keeps:
  assumes "held_inv s hs" "client_heap s c = Some cl" "c_is_active cl" "room_heap s a = Some r"
  shows "\<exists>i t cl'. room_join (r_room_id r) password c s = Some (i, t) \<and> held_inv t hs \<and> client_heap t c = Some cl' \<and>
    (i = 0 \<longrightarrow> room_heap t a \<noteq> None) \<and> i \<in> {0, - 2, - 3, - 4}"
proof -
  obtain as where as: "rooms_inv s as" using held_invD(1) [OF assms(1)] by blast
  obtain j s0 where s0: "room_leave c s = Some (j, s0)" "held_inv s0 hs"
      "client_heap s0 = (client_heap s)(c \<mapsto> cl\<lparr>c_current_room := None\<rparr>)"
      "\<forall>b q. room_table s0 b = Some q \<longrightarrow> (\<exists>q'. room_table s b = Some q' \<and> r_room_id q' = r_room_id q)"
    using leave_keeps [OF assms(1-3)] by blast
  have c0: "client_heap s0 c = Some (cl\<lparr>c_current_room := None\<rparr>)" using s0(3) by simp
  obtain i t cl' where t: "room_join (r_room_id r) password c s0 = Some (i, t)" "held_inv t hs" "client_heap t c = Some cl'"
      "i = 0 \<longrightarrow> (\<exists>b q. room_table s0 b = Some q \<and> r_room_id q = r_room_id r \<and> room_heap t b \<noteq> None)" "i \<in> {0, - 2, - 3, - 4}"
    using join_free_keeps [OF s0(2) c0] assms(3) by fastforce
  have eq: "room_join (r_room_id r) password c s = room_join (r_room_id r) password c s0"
  proof (cases "c_current_room cl")
    case None
    then have "s0 = s" using s0(1) assms(2) by (simp add: room_leave_def)
    then show ?thesis by simp
  next
    case (Some b)
    then show ?thesis using room_join_leaves [OF assms(2) _ s0(1) c0] by simp
  qed
  have "room_heap t a \<noteq> None" if i: "i = 0"
  proof -
    obtain b q where b: "room_table s0 b = Some q" "r_room_id q = r_room_id r" "room_heap t b \<noteq> None"
      using t(4) i by blast
    then obtain q' where "room_table s b = Some q'" "r_room_id q' = r_room_id (room_data r)" using s0(4) by fastforce
    then have "b = a" using rooms_invD(2) [OF as] room_table_Some [OF assms(4)] unfolding rooms_ok_def by blast
    with b(3) show ?thesis by simp
  qed
  with eq t show ?thesis by auto
qed

lemma create_keeps:
  assumes "held_inv s hs" "client_heap s c = Some cl" "fits MAX_ROOM_NAME_LEN name" "fits MAX_PASSWORD_LEN password"
    "\<And>n. m = Some n \<Longrightarrow> room_heap s n = None"
  shows "\<exists>i t. room_create m name password c s = Some (i, t) \<and> held_inv t hs \<and> client_heap t c = Some cl"
proof -
  obtain as where as: "rooms_inv s as" using held_invD(1) [OF assms(1)] by blast
  note ok = rooms_invD(1) [OF as]
  have count: "room_count s = int (length as)" using ok by (simp add: list_ok_def)
  from ok show ?thesis
  proof (cases rule: find_room_cases [where P = "\<lambda>r. r_room_name r = name"])
    case (2 a r)
    then have "room_create m name password c s = Some (- 1, s)"
      by (simp add: room_create_def room_find_by_name_def)
    with assms(1,2) show ?thesis by blast
  next
    case 1
    show ?thesis
    proof (cases "32 \<le> length as \<or> m = None")
      case True
      then have "\<exists>i. room_create m name password c s = Some (i, s)"
        using 1(1) count by (cases "32 \<le> length as") (auto simp: room_create_def room_find_by_name_def Let_def)
      with assms(1,2) show ?thesis by blast
    next
      case False
      then obtain n where n: "m = Some n" "length as < 32" by auto
      obtain k h p d s' where "room_create (Some n) name password c s = Some (int k, s')"
          "s' = s\<lparr>room_head := p, room_heap := h, room_count := room_count s + 1, db := d\<rparr>" "rooms_inv s' (as @ [n])"
        using room_create_new [OF as assms(3,4) assms(5) [OF n(1)] _ 1(2) n(2), of c] assms(2) by auto
      moreover from this have "held_inv s' hs"
        by (intro held_room_change [OF assms(1), of s' "as @ [n]"]) simp_all
      ultimately show ?thesis using n(1) assms(2) by simp
    qed
  qed
qed

section \<open>Accounts\<close>

lemma users_of_hash:
  assumes "u \<in> set (users_of d)"
  shows "length (ur_password_hash u) = 65"
proof -
  obtain i where i: "i < length (users_bin d) div 124" "u = dec_user (read_at (i * 124) 124 (users_bin d))"
    using assms by (auto simp: file_records_def)
  then have "length (read_at (i * 124) 124 (users_bin d)) = 124"
    using read_full_iff [of 124 i "users_bin d"] by simp
  with i(2) show ?thesis by (simp add: dec_user_def length_read_at)
qed

lemma auth_authenticate_defined: "\<exists>r. auth_authenticate username password d = Some r"
proof (cases "find_user username (user_scan d)")
  case None
  then show ?thesis by (simp add: auth_authenticate_def)
next
  case (Some u)
  then have "u \<in> set (users_of d)" using find_user_Some [OF Some] by (auto simp: user_scan_def split: if_splits)
  with memcmp_hash [OF users_of_hash] obtain k where "safe_memcmp (sha256_hash password) (ur_password_hash u) 64 = Some k"
    by blast
  with Some show ?thesis by (auto simp: auth_authenticate_def)
qed

lemma put_user_keeps:
  assumes "db_ready d" "put_user off u d = (n, d')"
  shows "db_ready d'" "rooms_bin d' = rooms_bin d"
  using assms by (auto simp: put_user_def db_ready_def file_simps)

lemma auth_add_user_keeps:
  assumes "db_ready d" "length username < MAX_USERNAME_LEN" "length role < MAX_ROLE_LEN"
  shows "\<exists>b d'. auth_add_user username password role d = Some (b, d') \<and> db_ready d' \<and> rooms_bin d' = rooms_bin d"
proof (cases "count_users username 0 (user_scan d)")
  case None
  with assms(1) show ?thesis by (intro exI [of _ False] exI [of _ d]) (simp add: auth_add_user_def)
next
  case (Some k)
  show ?thesis
  proof (cases "users_fd d = - 1")
    case True
    with Some assms show ?thesis by (intro exI [of _ False] exI [of _ d]) (simp add: auth_add_user_def)
  next
    case False
    obtain n d' where put: "put_user (length (users_bin d)) \<lparr>ur_user_id = k, ur_username = username, ur_role = role,
        ur_password_hash = sha256_hash password, ur_is_active = 1\<rparr> d = (n, d')" by (metis surj_pair)
    with Some False assms put_user_keeps [OF assms(1) put] show ?thesis by (simp add: auth_add_user_def)
  qed
qed

lemma auth_promote_user_keeps:
  assumes "db_ready d" "auth_promote_user username role d = (b, d')"
  shows "db_ready d'" "rooms_bin d' = rooms_bin d"
  using assms put_user_keeps [OF assms(1)]
  by (auto simp: auth_promote_user_def Let_def split: option.splits prod.splits)

lemma held_db_ready: "held_inv s hs \<Longrightarrow> db_ready (db s)"
  using held_invD(1) rooms_invD(4) by (auto simp: on_disk_def)

lemma login_safe:
  assumes "held_inv s hs" "client_heap s c = Some cl"
  shows "safe (handle_login c args s) hs"
proof -
  obtain username password where words: "scan_words 31 63 args = (username, password)" by (metis surj_pair)
  obtain r where r: "auth_authenticate username password (db s) = Some r" using auth_authenticate_defined by blast
  show ?thesis
  proof (cases "c_user_id cl \<noteq> - 1 \<or> username = [] \<or> password = [] \<or> r = None")
    case True
    with assms words r show ?thesis by (auto simp: handle_login_def)
  next
    case False
    then obtain role where role: "r = Some role" by auto
    let ?s = "s\<lparr>client_heap := (client_heap s)(c \<mapsto> cl\<lparr>c_user_id := 0, c_username := take 31 username, c_role := role\<rparr>)\<rparr>"
    have "held_inv ?s hs" by (rule held_client_update [OF assms]) (simp_all add: shape_eq)
    then have "safe (send_ok c ''Login successful'' (Some (print_nat (c_slot cl))) ?s) hs"
      by (rule safe_send_ok) simp
    with False assms words r role show ?thesis by (simp add: handle_login_def mem_simps)
  qed
qed

lemma register_safe:
  assumes "held_inv s hs" "client_heap s c = Some cl" "clean args"
  shows "safe (handle_register c args s) hs"
proof -
  obtain username password where words: "scan_words 31 63 args = (username, password)" by (metis surj_pair)
  have "length username < 32" using scan_words_fits(1) [OF assms(3) words] by (simp add: fits_def)
  then obtain b d where d: "auth_add_user username password ''USER'' (db s) = Some (b, d)" "db_ready d"
      "rooms_bin d = rooms_bin (db s)"
    using auth_add_user_keeps [OF held_db_ready [OF assms(1)], of username "''USER''" password] by auto
  have "held_inv (s\<lparr>db := d\<rparr>) hs" by (rule held_db_change [OF assms(1) d(2,3)])
  then have "safe (send_ok c ''Registration successful'' None (s\<lparr>db := d\<rparr>)) hs"
    "safe (send_error c STATUS_ERR_CONFLICT ''Username already exists'' (s\<lparr>db := d\<rparr>)) hs"
    using assms(2) by auto
  with assms words d(1) show ?thesis by (auto simp: handle_register_def)
qed

lemma logout_safe:
  assumes "held_inv s hs" "client_heap s c = Some cl" "c_is_active cl"
  shows "safe (handle_logout c s) hs"
proof (cases "c_user_id cl = - 1")
  case True
  with assms show ?thesis by (auto simp: handle_logout_def)
next
  case False
  obtain i t where t: "room_leave c s = Some (i, t)" "held_inv t hs"
      "client_heap t = (client_heap s)(c \<mapsto> cl\<lparr>c_current_room := None\<rparr>)"
    using leave_keeps [OF assms] by blast
  let ?s = "if c_current_room cl \<noteq> None then t else s"
  obtain cl' where cl': "held_inv ?s hs" "client_heap ?s c = Some cl'"
    using t assms by (cases "c_current_room cl") auto
  let ?u = "?s\<lparr>client_heap := (client_heap ?s)(c \<mapsto> cl'\<lparr>c_user_id := - 1, c_username := [], c_role := ROLE_GUEST\<rparr>)\<rparr>"
  have "held_inv ?u hs" by (rule held_client_update [OF cl']) (simp_all add: shape_eq)
  then have "safe (send_ok c ''Logout successful'' None ?u) hs" by (rule safe_send_ok) simp
  moreover have "handle_logout c s = send_ok c ''Logout successful'' None ?u"
    using assms(2) False t(1) cl'(2) by (auto simp: handle_logout_def mem_simps)
  ultimately show ?thesis by simp
qed

section \<open>Rooms\<close>

lemma create_safe:
  assumes "held_inv s hs" "client_heap s c = Some cl" "clean args"
    "\<And>n. m = Some n \<Longrightarrow> room_heap s n = None"
  shows "safe (handle_create_room m c args s) hs"
proof -
  obtain name password where words: "scan_words 31 63 args = (name, password)" by (metis surj_pair)
  have "fits 32 name" "fits 64 password" using scan_words_fits [OF assms(3) words] by simp_all
  then obtain i t where t: "room_create m name password c s = Some (i, t)" "held_inv t hs" "client_heap t c = Some cl"
    using create_keeps [OF assms(1,2) _ _ assms(4), where name = name and password = password] by blast
  have "safe (send_error c status msg t) hs" "safe (send_ok c msg data t) hs" for status msg data
    using t(2,3) by auto
  with assms words t(1) show ?thesis by (auto simp: handle_create_room_def)
qed

lemma join_safe:
  assumes "held_inv s hs" "client_heap s c = Some cl" "c_is_active cl"
  shows "safe (handle_join_room c args s) hs"
proof -
  obtain name password where words: "scan_words 31 63 args = (name, password)" by (metis surj_pair)
  obtain as where as: "rooms_inv s as" using held_invD(1) [OF assms(1)] by blast
  from rooms_invD(1) [OF as] show ?thesis
  proof (cases rule: find_room_cases [where P = "\<lambda>r. r_room_name r = name"])
    case 1
    with assms words show ?thesis by (auto simp: handle_join_room_def room_find_by_name_def)
  next
    case (2 a r)
    obtain i t cl' where t: "room_join (r_room_id r) password c s = Some (i, t)" "held_inv t hs"
        "client_heap t c = Some cl'" "i = 0 \<longrightarrow> room_heap t a \<noteq> None" "i \<in> {0, - 2, - 3, - 4}"
      using join_keeps [OF assms 2(2), of password] by blast
    have "safe (send_error c status msg t) hs" "safe (send_ok c msg data t) hs" for status msg data
      using t(2,3) by auto
    with assms words 2(1,2) t(1,4,5) show ?thesis
      by (auto simp: handle_join_room_def room_find_by_name_def)
  qed
qed

lemma leave_safe:
  assumes "held_inv s hs" "client_heap s c = Some cl" "c_is_active cl"
  shows "safe (handle_leave_room c s) hs"
proof -
  obtain i t where t: "room_leave c s = Some (i, t)" "held_inv t hs"
      "client_heap t = (client_heap s)(c \<mapsto> cl\<lparr>c_current_room := None\<rparr>)"
    using leave_keeps [OF assms] by blast
  have "client_heap t c = Some (cl\<lparr>c_current_room := None\<rparr>)" using t(3) by simp
  with t(2) have "safe (send_ok c ''Left room successfully'' None t) hs" by (rule safe_send_ok)
  with assms t(1) show ?thesis by (auto simp: handle_leave_room_def)
qed

lemma list_rooms_seg:
  "seg h q p as m None \<Longrightarrow> \<exists>t. list_rooms h buffer_size p pos out = Some t"
proof (induction as arbitrary: q p pos out)
  case Nil
  then show ?case by (subst list_rooms.simps) simp
next
  case (Cons a as)
  then show ?case by (subst list_rooms.simps) auto
qed

lemma list_safe:
  assumes "held_inv s hs" "client_heap s c = Some cl"
  shows "safe (handle_list_rooms c s) hs"
proof -
  obtain as where "rooms_inv s as" using held_invD(1) [OF assms(1)] by blast
  then obtain m where "seg (room_heap s) None (room_head s) as m None"
    using rooms_invD(1) [of s as] by (auto simp: list_ok_def)
  then have "\<exists>t. room_list_formatted 4096 s = Some t"
    using list_rooms_seg by (auto simp: room_list_formatted_def split: option.splits)
  with assms show ?thesis by (auto simp: handle_list_rooms_def)
qed

section \<open>Moderation\<close>

lemma find_target_member:
  assumes "participants_ok r" "\<forall>c \<in> set (members r). client_heap s c \<noteq> None"
    "set is \<subseteq> {..<r_participant_count r}"
  shows "\<exists>t. find_target is (r_participants r) name s = Some t \<and> (\<forall>c. t = Some c \<longrightarrow> c \<in> set (members r))"
  using assms(3)
proof (induction "is")
  case (Cons i "is")
  note ok = participants_okD [OF assms(1)]
  have i: "i < length (members r)" using Cons.prems ok(2) by simp
  then have get: "arr_get (r_participants r) i = Some (Some (members r ! i))"
    using ok(1,3) by (simp add: arr_get_def nth_append)
  have mem: "members r ! i \<in> set (members r)" using i by simp
  then obtain cl where cl: "client_heap s (members r ! i) = Some cl" using assms(2) by blast
  obtain t where "find_target is (r_participants r) name s = Some t" "\<forall>c. t = Some c \<longrightarrow> c \<in> set (members r)"
    using Cons by auto
  with get cl mem show ?case by auto
qed simp

lemma room_targets:
  assumes "held_inv s hs" "client_heap s c = Some cl" "c_is_active cl" "c_current_room cl = Some a"
  obtains r t where "room_heap s a = Some r"
    "find_target [0..<r_participant_count r] (r_participants r) name s = Some t"
    "\<forall>d. t = Some d \<longrightarrow> (\<exists>dl. client_heap s d = Some dl \<and> c_is_active dl)"
proof -
  obtain as where as: "rooms_inv s as" using held_invD(1) [OF assms(1)] by blast
  obtain r where r: "room_heap s a = Some r" "room_ok r" using client_room [OF as assms(2-4)] by metis
  have alive: "\<exists>dl. client_heap s d = Some dl \<and> c_is_active dl" if "d \<in> set (members r)" for d
    using linked_member [OF rooms_invD(3) [OF as] room_table_Some [OF r(1)], of d] that by auto
  obtain t where "find_target [0..<r_participant_count r] (r_participants r) name s = Some t"
      "\<forall>d. t = Some d \<longrightarrow> d \<in> set (members r)"
    using find_target_member [of r s "[0..<r_participant_count r]" name] r(2) alive
    by (fastforce simp: room_ok_def)
  with r(1) alive that show ?thesis by blast
qed

lemma kick_safe:
  assumes "held_inv s hs" "client_heap s c = Some cl" "c_is_active cl"
  shows "safe (handle_kick c args s) hs"
proof (cases "c_current_room cl")
  case None
  with assms show ?thesis by (auto simp: handle_kick_def)
next
  case (Some a)
  obtain r t where r: "room_heap s a = Some r"
    "find_target [0..<r_participant_count r] (r_participants r) (scan_word 31 args) s = Some t"
    "\<forall>d. t = Some d \<longrightarrow> (\<exists>dl. client_heap s d = Some dl \<and> c_is_active dl)"
    using room_targets [OF assms Some] by blast
  show ?thesis
  proof (cases t)
    case None
    with assms Some r show ?thesis by (auto simp: handle_kick_def Let_def)
  next
    case t: (Some d)
    obtain dl where dl: "client_heap s d = Some dl" "c_is_active dl" using r(3) t by blast
    obtain i u where u: "room_leave d s = Some (i, u)" "held_inv u hs"
        "client_heap u = (client_heap s)(d \<mapsto> dl\<lparr>c_current_room := None\<rparr>)"
      using leave_keeps [OF assms(1) dl] by blast
    have "\<exists>cl'. client_heap u c = Some cl'" using u(3) assms(2) by simp
    then have "safe (send_ok c ''User kicked successfully'' None u) hs" using u(2) by blast
    with assms Some r t u(1) show ?thesis by (auto simp: handle_kick_def Let_def)
  qed
qed

lemma linked_same:
  assumes "linked H C" "H a = Some r" "members r' = members r"
  shows "linked (H(a \<mapsto> r')) C"
proof (rule linkedI)
  show "\<exists>cl. C x = Some cl \<and> c_is_active cl \<and> c_current_room cl = Some b"
    if b: "(H(a \<mapsto> r')) b = Some q" "x \<in> set (members q)" for b q x
  proof -
    obtain q0 where "H b = Some q0" "x \<in> set (members q0)" using b assms(2,3) by (cases "b = a") auto
    then show ?thesis using linked_member [OF assms(1)] by metis
  qed
  show "\<exists>q. (H(a \<mapsto> r')) b = Some q \<and> x \<in> set (members q)"
    if x: "C x = Some cl" "c_is_active cl" "c_current_room cl = Some b" for x cl b
  proof -
    obtain q0 where "H b = Some q0" "x \<in> set (members q0)" using linked_current [OF assms(1) x] .
    with assms(2,3) show ?thesis by (cases "b = a") auto
  qed
qed

lemma rooms_inv_speakers:
  assumes "rooms_inv s as" "room_heap s a = Some r"
  shows "rooms_inv (s\<lparr>room_heap := (room_heap s)(a \<mapsto> r\<lparr>r_active_speakers := x\<rparr>)\<rparr>) as" (is "rooms_inv ?s as")
proof -
  let ?r = "r\<lparr>r_active_speakers := x\<rparr>"
  note inv = rooms_invD [OF assms(1)] and tab = room_table_Some [OF assms(2)]
  have same: "members ?r = members r" "record_of ?r = record_of r" "room_ok ?r = room_ok r"
    by (simp_all add: members_def record_of_def room_ok_def participants_ok_def)
  have ok: "list_ok ?s as" "room_table ?s = (room_table s)(a \<mapsto> room_data ?r)"
    using list_ok_update [OF inv(1) assms(2), where ?r1.0 = ?r and s' = ?s and C = "client_heap s" and d = "db s"]
    by simp_all
  have "rooms_ok (room_table ?s)"
    using rooms_ok_update [OF inv(2) tab, of "room_data ?r"] rooms_ok_room [OF inv(2) assms(2)] same ok(2) by simp
  moreover have "linked (room_table ?s) (client_heap s)"
    unfolding ok(2) by (rule linked_same [OF inv(3) tab]) (simp add: same(1))
  moreover have "mirrors (room_table ?s) (rooms_of (db s))"
  proof -
    have m: "mirrors (room_table s) (rooms_of (db s))" using inv(4) by (simp add: on_disk_def)
    then have "rooms_of (db s) ! r_room_id r = record_of ?r"
      using tab same(2) unfolding mirrors_def by (metis room_data_fields(1) room_data_ok(3))
    then show ?thesis
      using mirrors_update [OF m inv(2) tab, of "room_data ?r"] list_update_id [of "rooms_of (db s)" "r_room_id r"]
        same(2) ok(2) by simp
  qed
  ultimately show ?thesis using ok(1) inv(4) by (simp add: rooms_inv_def on_disk_def)
qed

lemma mute_safe:
  assumes "held_inv s hs" "client_heap s c = Some cl" "c_is_active cl"
  shows "safe (handle_mute c args s) hs"
proof (cases "c_current_room cl")
  case None
  with assms show ?thesis by (auto simp: handle_mute_def)
next
  case (Some a)
  obtain r t where r: "room_heap s a = Some r"
    "find_target [0..<r_participant_count r] (r_participants r) (scan_word 31 args) s = Some t"
    "\<forall>d. t = Some d \<longrightarrow> (\<exists>dl. client_heap s d = Some dl \<and> c_is_active dl)"
    using room_targets [OF assms Some] by blast
  show ?thesis
  proof (cases t)
    case None
    with assms Some r show ?thesis by (auto simp: handle_mute_def Let_def)
  next
    case t: (Some d)
    obtain dl where dl: "client_heap s d = Some dl" using r(3) t by blast
    let ?muted = "\<not> c_is_mute dl"
    let ?s1 = "s\<lparr>client_heap := (client_heap s)(d \<mapsto> dl\<lparr>c_is_mute := ?muted\<rparr>)\<rparr>"
    let ?x = "if ?muted then r_active_speakers r - 1 else r_active_speakers r + 1"
    let ?s2 = "?s1\<lparr>room_heap := (room_heap s)(a \<mapsto> r\<lparr>r_active_speakers := ?x\<rparr>)\<rparr>"
    have s1: "held_inv ?s1 hs" by (rule held_client_update [OF assms(1) dl]) (simp_all add: shape_eq)
    then obtain as where "rooms_inv ?s1 as" using held_invD(1) by blast
    then have "rooms_inv ?s2 as" using rooms_inv_speakers [of ?s1 as a r ?x] r(1) by simp
    then have "held_inv ?s2 hs" by (rule held_room_change [OF s1]) simp_all
    moreover have "\<exists>cl'. client_heap ?s2 c = Some cl'" using assms(2) by simp
    ultimately have "safe (send_ok c msg None ?s2) hs" for msg by blast
    then have "safe (send_ok c (if ?muted then ''User muted successfully'' else ''User unmuted successfully'') None ?s2) hs" .
    with assms Some r(1,2) t dl show ?thesis
      by (simp add: handle_mute_def Let_def mem_simps) (auto simp: safe_send_error)
  qed
qed

lemma status_safe:
  assumes "held_inv s hs" "client_heap s c = Some cl" "c_is_active cl"
  shows "safe (handle_status c s) hs"
proof (cases "c_current_room cl")
  case None
  with assms show ?thesis by (auto simp: handle_status_def)
next
  case (Some a)
  obtain as where as: "rooms_inv s as" using held_invD(1) [OF assms(1)] by blast
  obtain r where "room_heap s a = Some r" using client_room [OF as assms(2,3) Some] by metis
  with assms Some show ?thesis by (auto simp: handle_status_def)
qed

lemma set_roles_keeps:
  assumes "held_inv s hs" "client_heap s c = Some cl" "set is \<subseteq> {..<MAX_CLIENTS}"
  shows "\<exists>t cl'. set_roles is name role s = Some t \<and> held_inv t hs \<and> client_heap t c = Some cl'"
  using assms
proof (induction "is" arbitrary: s cl)
  case (Cons i "is")
  note T = table_invD [OF held_invD(2) [OF Cons.prems(1)]]
  have i: "i < 50" using Cons.prems(3) by simp
  show ?case
  proof (cases "clients s ! i")
    case None
    with Cons i T(1) show ?thesis by (simp add: arr_get_def)
  next
    case (Some d)
    obtain dl where dl: "client_heap s d = Some dl" using T(4) [OF i Some] by blast
    let ?s = "s\<lparr>client_heap := (client_heap s)(d \<mapsto> dl\<lparr>c_role := role_number role\<rparr>)\<rparr>"
    have "held_inv ?s hs" by (rule held_client_update [OF Cons.prems(1) dl]) (simp_all add: shape_eq)
    moreover obtain cl' where "client_heap ?s c = Some cl'" using Cons.prems(2) by (cases "c = d") auto
    ultimately have "\<exists>t cl'. set_roles is name role ?s = Some t \<and> held_inv t hs \<and> client_heap t c = Some cl'"
      using Cons.IH [of ?s cl'] Cons.prems(3) by simp
    with Cons i T(1) Some dl show ?thesis by (auto simp: arr_get_def mem_simps)
  qed
qed auto

lemma promote_safe:
  assumes "held_inv s hs" "client_heap s c = Some cl"
  shows "safe (handle_promote c args s) hs"
proof -
  obtain name role where words: "scan_words 31 15 args = (name, role)" by (metis surj_pair)
  obtain b d where d: "auth_promote_user name (map toupper role) (db s) = (b, d)" by (metis surj_pair)
  have inv: "held_inv (s\<lparr>db := d\<rparr>) hs"
    using held_db_change [OF assms(1) auth_promote_user_keeps [OF held_db_ready [OF assms(1)] d]] .
  obtain t cl' where t: "set_roles [0..<50] name (map toupper role) (s\<lparr>db := d\<rparr>) = Some t" "held_inv t hs"
      "client_heap t c = Some cl'"
    using set_roles_keeps [OF inv, of c cl "[0..<50]" name "map toupper role"] assms(2)
    by (auto simp: lessThan_atLeast0)
  have "safe (send_ok c msg data t) hs" "safe (send_error c status msg (s\<lparr>db := d\<rparr>)) hs"
    "safe (send_error c status msg s) hs" for msg data status
    using t(2,3) inv assms by auto
  with assms(2) words d t(1) show ?thesis by (simp add: handle_promote_def Let_def)
qed

section \<open>Dispatch\<close>

lemma dispatch_safe:
  assumes "held_inv s hs" "client_heap s c = Some cl" "c_is_active cl" "clean args"
    "\<And>n. m = Some n \<Longrightarrow> room_heap s n = None"
  shows "safe (dispatch m c cmd args s) hs"
  using login_safe [OF assms(1,2)] register_safe [OF assms(1,2,4)] logout_safe [OF assms(1-3)]
    create_safe [OF assms(1,2,4,5)] join_safe [OF assms(1-3)] leave_safe [OF assms(1-3)]
    list_safe [OF assms(1,2)] kick_safe [OF assms(1-3)] mute_safe [OF assms(1-3)]
    status_safe [OF assms(1-3)] promote_safe [OF assms(1,2)] safe_send_error [OF assms(1,2)]
  by (simp add: dispatch_def)

end
