(* ===== verification/Network_Invariant.thy ===== *)
theory Network_Invariant
  imports Handler_Invariant
begin

text \<open>
  The workers and the network thread keep the invariant: taking and running a task, accepting and
  disconnecting a client, and receiving commands and datagrams. The assumptions are the contracts of
  the operating system: \<open>malloc\<close> returns memory that is not in use, and \<open>accept\<close> a descriptor that is
  not open.
\<close>

section \<open>Workers\<close>

lemma refs_inv_fewer:
  assumes "refs_inv C hs" "set hs' \<subseteq> set hs" "\<And>x. count_list hs' x \<le> count_list hs x"
  shows "refs_inv C hs'"
proof -
  have "int (count_list hs' c) + of_bool (c_is_active cl) \<le> c_ref_count cl" if "C c = Some cl" for c cl
    using assms(1) assms(3) [of c] that unfolding refs_inv_def by fastforce
  then show ?thesis using assms(1,2) unfolding refs_inv_def by blast
qed

lemma held_forget:
  assumes "held_inv s (c # hs)"
  shows "held_inv s hs"
proof -
  have "refs_inv (client_heap s) (hs @ task_holders (tasks s))"
    by (rule refs_inv_fewer [OF held_invD(3) [OF assms]]) auto
  with held_invD [OF assms] show ?thesis by (simp add: held_inv_def)
qed

lemma strtok_rest_clean: "nul \<notin> set s \<Longrightarrow> clean (strtok_rest d s)"
  unfolding clean_def strtok_rest_def
  by (auto split: list.splits dest!: set_dropWhileD in_set_dropD)
    (metis in_set_dropD list.set_intros(1,2) set_dropWhileD)+

lemma run_task_safe:
  assumes "held_inv s (c # hs)" "task_c t = Some c" "nul \<notin> set (task_command t)"
    "\<And>n. m = Some n \<Longrightarrow> room_heap s n = None"
  shows "safe (run_task m t s) hs"
proof -
  obtain cl where cl: "client_heap s c = Some cl" using held_holder [OF assms(1)] by auto
  have drop: "safe (Option.bind r (drop_ref c)) hs" if "safe r (c # hs)" for r
    using that held_drop_ref unfolding safe_def by fastforce
  show ?thesis
  proof (cases "c_is_active cl")
    case False
    then have "run_task m t s = Option.bind (Some s) (drop_ref c)" using assms(2) cl by (simp add: run_task_def run_checked_def)
    moreover have "safe (Some s) (c # hs)" using assms(1) by (simp add: safe_def)
    ultimately show ?thesis using drop by presburger
  next
    case True
    show ?thesis
    proof (cases "strtok_first is_delim (task_command t)")
      case None
      with True assms(2) cl held_forget [OF assms(1)] show ?thesis by (simp add: run_task_def run_checked_def safe_def)
    next
      case (Some cmd)
      have "safe (dispatch m c cmd (strtok_rest is_delim (task_command t)) s) (c # hs)"
        by (rule dispatch_safe [OF assms(1) cl True strtok_rest_clean [OF assms(3)] assms(4)])
      with drop Some True assms(2) cl show ?thesis by (simp add: run_task_def run_checked_def)
    qed
  qed
qed

lemma worker_take_safe:
  assumes "held_inv s hs"
  obtains "worker_take s = Some (None, s)"
  | t s' c where "worker_take s = Some (Some t, s')" "task_c t = Some c" "nul \<notin> set (task_command t)"
      "held_inv s' (c # hs)"
proof (cases "server_on s \<and> task_list (tasks s) \<noteq> []")
  case False
  then have "worker_take s = Some (None, s)"
    using held_invD(4) [OF assms(1)] task_fifo.pop_empty [of "tasks s"] by (auto simp: worker_take_def tasks_ok_def)
  then show ?thesis by (rule that(1))
next
  case True
  then obtain t ts where ts: "task_list (tasks s) = t # ts" by (cases "task_list (tasks s)") auto
  have ok: "task_ok (tasks s)" "task_c t \<noteq> None" "nul \<notin> set (task_command t)"
      "\<forall>t \<in> set ts. task_c t \<noteq> None \<and> nul \<notin> set (task_command t)"
    using held_invD(4) [OF assms(1)] ts by (auto simp: tasks_ok_def)
  obtain q where q: "task_take (tasks s) = Some (Some t, q)" "task_ok q" "task_list q = ts"
    using task_fifo.pop_first [OF ok(1) ts] by blast
  obtain c where c: "task_c t = Some c" using ok(2) by blast
  have "refs_inv (client_heap s) ((c # hs) @ task_holders q)"
    by (rule refs_inv_fewer [OF held_invD(3) [OF assms(1)]]) (use ts q(3) c in \<open>auto simp: task_holders_def\<close>)
  then have "held_inv (s\<lparr>tasks := q\<rparr>) (c # hs)"
    using held_invD [OF assms(1)] q ok(4) rooms_inv_cong [of "s\<lparr>tasks := q\<rparr>" s]
    by (simp add: held_inv_def tasks_ok_def)
  moreover have "worker_take s = Some (Some t, s\<lparr>tasks := q\<rparr>)" using True q(1) by (simp add: worker_take_def)
  ultimately show ?thesis using that(2) c ok(3) by blast
qed

section \<open>The client of a socket\<close>

lemma client_of_fd_connected:
  assumes "held_inv s hs" "client_heap s c = Some cl" "c_is_active cl" "in_fd_map (c_fd cl)"
  shows "client_of_fd (c_fd cl) s = Some (Some (c_slot cl, c))"
proof -
  note T = table_invD [OF held_invD(2) [OF assms(1)]]
  have "c_slot cl < 50" "clients s ! c_slot cl = Some c" "fd_to_slot s ! nat (c_fd cl) = int (c_slot cl)"
    using T(5) [OF assms(2,3)] assms(4) by auto
  moreover have "nat (c_fd cl) < 4096" using assms(4) by (simp add: in_fd_map_def nat_less_iff)
  ultimately show ?thesis using T(1,2) assms(4) by (simp add: client_of_fd_def arr_get_def)
qed

lemma client_of_fd_ok:
  assumes "held_inv s hs"
  shows "\<exists>r. client_of_fd fd s = Some r \<and> (\<forall>slot c. r = Some (slot, c) \<longrightarrow>
    slot < MAX_CLIENTS \<and> clients s ! slot = Some c \<and> in_fd_map fd \<and>
    (\<exists>cl. client_heap s c = Some cl \<and> c_is_active cl \<and> c_slot cl = slot \<and> c_fd cl = fd))"
proof (cases "in_fd_map fd")
  case False
  then show ?thesis by (simp add: client_of_fd_def)
next
  case True
  note T = table_invD [OF held_invD(2) [OF assms]]
  have fd: "nat fd < 4096" "int (nat fd) = fd" using True by (auto simp: in_fd_map_def)
  then have get: "arr_get (fd_to_slot s) (nat fd) = Some (fd_to_slot s ! nat fd)" using T(2) by (simp add: arr_get_def)
  show ?thesis
  proof (cases "fd_to_slot s ! nat fd = - 1")
    case True
    with get \<open>in_fd_map fd\<close> show ?thesis by (simp add: client_of_fd_def)
  next
    case False
    then obtain c cl where c: "client_heap s c = Some cl" "c_is_active cl" "c_fd cl = fd"
        "fd_to_slot s ! nat fd = int (c_slot cl)"
      using T(6) [OF fd(1)] fd(2) by auto
    have slot: "c_slot cl < 50" "clients s ! c_slot cl = Some c" using T(5) [OF c(1,2)] by auto
    have "client_of_fd fd s = Some (Some (c_slot cl, c))"
      using client_of_fd_connected [OF assms c(1,2)] c(3) True by simp
    with True c slot show ?thesis by auto
  qed
qed

section \<open>Receiving a command\<close>

lemma held_ref_add:
  assumes "held_inv s hs" "client_heap s c = Some cl"
  shows "held_inv (s\<lparr>client_heap := (client_heap s)(c \<mapsto> cl\<lparr>c_ref_count := c_ref_count cl + 1\<rparr>)\<rparr>) (c # hs)"
proof -
  let ?D = "(client_heap s)(c \<mapsto> cl\<lparr>c_ref_count := c_ref_count cl + 1\<rparr>)"
  note inv = held_invD [OF assms(1)]
  have "connected ?D = connected (client_heap s)" "seated ?D = seated (client_heap s)"
    using assms(2) by (auto simp: connected_def seated_def fun_eq_iff)
  moreover have "refs_inv ?D ((c # hs) @ task_holders (tasks s))"
  proof -
    have old: "0 < c_ref_count xl \<and>
        int (count_list (hs @ task_holders (tasks s)) x) + of_bool (c_is_active xl) \<le> c_ref_count xl"
      if "client_heap s x = Some xl" for x xl
      using inv(3) that unfolding refs_inv_def by blast
    have "0 < c_ref_count xl \<and>
        int (count_list ((c # hs) @ task_holders (tasks s)) x) + of_bool (c_is_active xl) \<le> c_ref_count xl"
      if "?D x = Some xl" for x xl
      using that old [OF assms(2)] old [of x xl] by (cases "x = c") auto
    moreover have "\<forall>h \<in> set ((c # hs) @ task_holders (tasks s)). ?D h \<noteq> None"
      using inv(3) unfolding refs_inv_def by auto
    ultimately show ?thesis unfolding refs_inv_def by blast
  qed
  ultimately show ?thesis
    using inv rooms_inv_seated [of s _ ?D] table_inv_connected [OF inv(2)] by (auto simp: held_inv_def)
qed

lemma process_client_command_safe:
  assumes "held_inv s (c # hs)" "nul \<notin> set command" "length command < MAX_PACKET_SIZE"
  shows "safe (process_client_command c command s) hs"
proof (cases "tq_count (tasks s) = MAX_QUEUED_TASKS")
  case True
  obtain cl where "client_heap s c = Some cl" using held_holder [OF assms(1)] by auto
  then have "safe (send_error c STATUS_ERR_INTERNAL ''Server is too busy. Try again later.'' s) (c # hs)"
    using assms(1) by blast
  then obtain t where "send_error c STATUS_ERR_INTERNAL ''Server is too busy. Try again later.'' s = Some t"
      "held_inv t (c # hs)" by (auto simp: safe_def)
  with True held_drop_ref show ?thesis by (fastforce simp: process_client_command_def safe_def)
next
  case False
  let ?t = "\<lparr>task_c = Some c, task_command = command\<rparr>"
  have ok: "task_ok (tasks s)" using held_invD(4) [OF assms(1)] by (simp add: tasks_ok_def)
  then have "tq_count (tasks s) < 256" using False by (simp add: task_ok_def)
  then obtain q where q: "task_put ?t (tasks s) = Some (True, q)" "task_ok q" "task_list q = task_list (tasks s) @ [?t]"
    using task_put_space [OF ok] by blast
  have "refs_inv (client_heap s) (hs @ task_holders q)"
    by (rule refs_inv_fewer [OF held_invD(3) [OF assms(1)]]) (use q(3) in \<open>auto simp: task_holders_def\<close>)
  then have "held_inv (s\<lparr>tasks := q\<rparr>) hs"
    using held_invD [OF assms(1)] q assms(2) rooms_inv_cong [of "s\<lparr>tasks := q\<rparr>" s]
    by (auto simp: held_inv_def tasks_ok_def)
  with False q(1) assms(3) show ?thesis by (simp add: process_client_command_def safe_def)
qed

section \<open>Accepting\<close>

lemma first_free_slot_Some:
  "first_free_slot i ps = Some k \<Longrightarrow> i \<le> k \<and> k < i + length ps \<and> ps ! (k - i) = None"
proof (induction ps arbitrary: i)
  case (Cons p ps)
  then show ?case by (cases p) (fastforce simp: nth_Cons')+
qed simp

lemma table_inv_add:
  assumes T: "table_inv cs n fds ofds C" and slot: "slot < MAX_CLIENTS" "cs ! slot = None"
    and new: "C a = None" "fd \<notin> set ofds" "fds' = (if in_fd_map fd then fds[nat fd := int slot] else fds)"
  shows "table_inv (cs[slot := Some a]) (n + 1) fds' (ofds @ [fd]) (C(a \<mapsto> new_client fd slot))"
    (is "table_inv ?cs _ _ _ ?C")
proof (rule table_invI)
  note D = table_invD [OF T]
  have fd: "nat (c_fd cl) \<noteq> nat fd" if "C c = Some cl" "c_is_active cl" "in_fd_map (c_fd cl)" "in_fd_map fd" for c cl
  proof
    assume "nat (c_fd cl) = nat fd"
    then have "c_fd cl = fd" using that(3,4) unfolding in_fd_map_def by linarith
    with D(5) [OF that(1,2)] new(2) show False by simp
  qed
  show "length ?cs = MAX_CLIENTS" "length fds' = FD_MAP_SIZE" "distinct (ofds @ [fd])"
    using D(1,2,8) new(2,3) by simp_all
  show "n + 1 = int (length (filter (\<lambda>p. p \<noteq> None) ?cs))"
    using D(1,3) slot by (simp add: count_filter_update)
  show "\<exists>cl. ?C c = Some cl \<and> c_is_active cl \<and> c_slot cl = i" if "i < MAX_CLIENTS" "?cs ! i = Some c" for i c
  proof (cases "i = slot")
    case True
    with that D(1) show ?thesis by (simp add: new_client_def)
  next
    case False
    with that have "cs ! i = Some c" by simp
    with D(4) [OF that(1)] new(1) show ?thesis by (cases "c = a") auto
  qed
  show "c_slot cl < MAX_CLIENTS \<and> ?cs ! c_slot cl = Some c \<and> c_fd cl \<in> set (ofds @ [fd]) \<and>
      (in_fd_map (c_fd cl) \<longrightarrow> fds' ! nat (c_fd cl) = int (c_slot cl))"
    if "?C c = Some cl" "c_is_active cl" for c cl
  proof (cases "c = a")
    case True
    with that slot D(1,2) new(3) show ?thesis by (auto simp: new_client_def in_fd_map_def)
  next
    case False
    with that have c: "C c = Some cl" by simp
    have "c_slot cl \<noteq> slot" using D(5) [OF c that(2)] slot(2) by auto
    with D(5) [OF c that(2)] fd [OF c that(2)] new(3) show ?thesis by auto
  qed
  show "fds' ! i = - 1 \<or> (\<exists>c cl. ?C c = Some cl \<and> c_is_active cl \<and> c_fd cl = int i \<and> fds' ! i = int (c_slot cl))"
    if "i < FD_MAP_SIZE" for i
  proof (cases "in_fd_map fd \<and> i = nat fd")
    case True
    then have "?C a = Some (new_client fd slot)" "fds' ! i = int slot" using new(3) that D(2) by simp_all
    with True show ?thesis by (intro disjI2 exI [of _ a] exI [of _ "new_client fd slot"]) (auto simp: new_client_def in_fd_map_def)
  next
    case False
    then have "fds' ! i = fds ! i" using new(3) by auto
    with D(6) [OF that] new(1) show ?thesis by (metis fun_upd_other option.distinct(1))
  qed
  show "c = c'" if "?C c = Some cl" "?C c' = Some cl'" "c_is_active cl" "c_is_active cl'" "c_fd cl = c_fd cl'"
    for c c' cl cl'
  proof -
    have ofd: "c_fd x \<noteq> fd" if "C y = Some x" "c_is_active x" for x y
      using D(5) [OF that] new(2) by auto
    show ?thesis
      using that ofd [of c cl] ofd [of c' cl'] D(7) [of c cl c' cl']
      by (cases "c = a"; cases "c' = a") (auto simp: new_client_def)
  qed
qed

lemma accept_safe:
  assumes "held_inv s hs" "fd \<noteq> - 1 \<Longrightarrow> fd \<notin> set (open_fds s)" "\<And>n. m = Some n \<Longrightarrow> client_heap s n = None"
  shows "safe (accept_new_client fd m s) hs"
proof (cases "fd = - 1 \<or> 50 \<le> client_count s \<or> first_free_slot 0 (clients s) = None \<or> m = None")
  case True
  then have "accept_new_client fd m s = Some s" by (auto simp: accept_new_client_def split: option.splits)
  with assms(1) show ?thesis by (simp add: safe_def)
next
  case False
  then obtain slot a where slot: "first_free_slot 0 (clients s) = Some slot" "m = Some a" by auto
  note inv = held_invD [OF assms(1)] note T = table_invD [OF inv(2)]
  have k: "slot < 50" "clients s ! slot = None" using first_free_slot_Some [OF slot(1)] T(1) by auto
  have a: "client_heap s a = None" using assms(3) slot(2) by simp
  let ?C = "(client_heap s)(a \<mapsto> new_client fd slot)"
  let ?fds = "if in_fd_map fd then (fd_to_slot s)[nat fd := int slot] else fd_to_slot s"
  let ?t = "s\<lparr>client_heap := ?C, clients := (clients s)[slot := Some a], client_count := client_count s + 1,
    fd_to_slot := ?fds, open_fds := open_fds s @ [fd]\<rparr>"
  have "accept_new_client fd m s = Some ?t"
    using False slot k(1) T(1,2) by (auto simp: accept_new_client_def arr_set_def in_fd_map_def)
  moreover have "held_inv ?t hs"
  proof -
    have "seated ?C = seated (client_heap s)" using a by (auto simp: seated_def new_client_def fun_eq_iff)
    then have "\<exists>as. rooms_inv ?t as"
      using inv(1) rooms_inv_seated [of s _ ?C] rooms_inv_cong [of ?t "s\<lparr>client_heap := ?C\<rparr>"] by auto
    moreover have "a \<notin> set (hs @ task_holders (tasks s))" using inv(3) a unfolding refs_inv_def by blast
    then have "refs_inv ?C (hs @ task_holders (tasks s))"
      using inv(3) unfolding refs_inv_def by (auto simp: new_client_def count_list_0_iff split: if_splits)
    ultimately show ?thesis
      using inv table_inv_add [OF inv(2) k a, of fd ?fds] assms(2) False by (simp add: held_inv_def)
  qed
  ultimately show ?thesis by (simp add: safe_def)
qed

section \<open>Disconnecting\<close>

lemma table_inv_remove:
  assumes T: "table_inv cs n fds ofds C" and c: "C c = Some cl" "c_is_active cl" "in_fd_map (c_fd cl)"
    and C': "\<And>x. x \<noteq> c \<Longrightarrow> C' x = C x" "\<And>cl'. C' c = Some cl' \<Longrightarrow> \<not> c_is_active cl'"
  shows "table_inv (cs[c_slot cl := None]) (n - 1) (fds[nat (c_fd cl) := - 1]) (remove1 (c_fd cl) ofds) C'"
    (is "table_inv ?cs _ ?fds ?ofds C'")
proof (rule table_invI)
  note D = table_invD [OF T]
  note mine = D(5) [OF c(1,2)]
  have other: "C x = Some xl \<and> x \<noteq> c \<and> c_slot xl \<noteq> c_slot cl \<and> c_fd xl \<noteq> c_fd cl"
    if x: "C' x = Some xl" "c_is_active xl" for x xl
  proof -
    have xc: "x \<noteq> c" using x C'(2) by blast
    then have "C x = Some xl" using x(1) C'(1) by simp
    moreover from this have "c_slot xl \<noteq> c_slot cl" using D(5) [OF _ x(2)] mine xc by fastforce
    moreover have "c_fd xl \<noteq> c_fd cl" using D(7) [OF _ c(1) x(2) c(2)] calculation(1) xc by blast
    ultimately show ?thesis using xc by simp
  qed
  show "length ?cs = MAX_CLIENTS" "length ?fds = FD_MAP_SIZE" "distinct ?ofds" using D(1,2,8) by simp_all
  show "n - 1 = int (length (filter (\<lambda>p. p \<noteq> None) ?cs))" using D(1,3) mine by (simp add: count_filter_update)
  show "\<exists>xl. C' x = Some xl \<and> c_is_active xl \<and> c_slot xl = i" if "i < MAX_CLIENTS" "?cs ! i = Some x" for i x
  proof -
    have "i \<noteq> c_slot cl" using that mine D(1) by auto
    then have "cs ! i = Some x" using that by simp
    moreover from this have "x \<noteq> c" using D(4) [OF that(1)] c(1) \<open>i \<noteq> c_slot cl\<close> by fastforce
    ultimately show ?thesis using D(4) [OF that(1)] C'(1) by metis
  qed
  show "c_slot xl < MAX_CLIENTS \<and> ?cs ! c_slot xl = Some x \<and> c_fd xl \<in> set ?ofds \<and>
      (in_fd_map (c_fd xl) \<longrightarrow> ?fds ! nat (c_fd xl) = int (c_slot xl))"
    if x: "C' x = Some xl" "c_is_active xl" for x xl
  proof -
    have ne: "nat (c_fd xl) \<noteq> nat (c_fd cl)" if "in_fd_map (c_fd xl)"
      using that c(3) other [OF x] unfolding in_fd_map_def by linarith
    with D(5) [of x xl] other [OF x] x(2) D(8) show ?thesis by auto
  qed
  show "?fds ! i = - 1 \<or> (\<exists>x xl. C' x = Some xl \<and> c_is_active xl \<and> c_fd xl = int i \<and> ?fds ! i = int (c_slot xl))"
    if i: "i < FD_MAP_SIZE" for i
  proof (cases "i = nat (c_fd cl)")
    case True
    with i D(2) show ?thesis by simp
  next
    case False
    then have fds: "?fds ! i = fds ! i" by simp
    have "x \<noteq> c" if "C x = Some xl" "c_fd xl = int i" for x xl using that c False by auto
    with D(6) [OF i] C'(1) fds show ?thesis by metis
  qed
  show "x = y" if "C' x = Some xl" "C' y = Some yl" "c_is_active xl" "c_is_active yl" "c_fd xl = c_fd yl"
    for x y xl yl
    using other [OF that(1,3)] other [OF that(2,4)] D(7) that(3-5) by blast
qed

lemma rooms_inv_disconnect:
  assumes "rooms_inv s as" "client_heap s c = Some cl" "c_is_active cl"
  defines "r \<equiv> (case c_current_room cl of None \<Rightarrow> Some s | Some a \<Rightarrow> remove_client_from_room a c s)"
    and "D \<equiv> (client_heap s)(c \<mapsto> cl\<lparr>c_is_active := False\<rparr>)"
  shows "\<exists>h p n d as'. r = Some (s\<lparr>room_head := p, room_heap := h, room_count := n, db := d\<rparr>) \<and>
    rooms_inv (s\<lparr>room_head := p, room_heap := h, room_count := n, db := d, client_heap := D\<rparr>) as'"
proof (cases "c_current_room cl")
  case None
  then have "seated D = seated (client_heap s)" using assms(2) by (auto simp: seated_def D_def fun_eq_iff)
  then have "rooms_inv (s\<lparr>client_heap := D\<rparr>) as" by (rule rooms_inv_seated [OF assms(1)])
  with None show ?thesis
    by (intro exI [of _ "room_heap s"] exI [of _ "room_head s"] exI [of _ "room_count s"] exI [of _ "db s"] exI [of _ as])
      (simp add: r_def)
next
  case (Some a)
  obtain h p n d s' as' where s': "remove_client_from_room a c s = Some s'"
      "s' = s\<lparr>room_head := p, room_heap := h, room_count := n, db := d\<rparr>" "list_ok s' as'"
      "rooms_ok (room_table s')" "on_disk (room_table s') d"
      "\<forall>C'. (\<forall>x. x \<noteq> c \<longrightarrow> C' x = client_heap s x) \<longrightarrow> (\<forall>cl. C' c = Some cl \<longrightarrow> \<not> c_is_active cl) \<longrightarrow>
         linked (room_table s') C'"
    using remove_client_ok [OF assms(1-3) Some] by (elim exE conjE) (rule that)
  have "linked (room_table s') D" using s'(6) by (simp add: D_def)
  moreover have "room_table (s'\<lparr>client_heap := D\<rparr>) = room_table s'" by (rule room_table_cong) simp_all
  ultimately have "rooms_inv (s'\<lparr>client_heap := D\<rparr>) as'" using s'(2-5) by (simp add: rooms_inv_def list_ok_def)
  with Some s'(1,2) show ?thesis
    by (intro exI [of _ h] exI [of _ p] exI [of _ n] exI [of _ d] exI [of _ as']) (simp add: r_def)
qed

lemma refs_inv_deactivate:
  assumes "refs_inv C (hs @ ts)" "C c = Some cl" "c_is_active cl"
  shows "refs_inv (C(c \<mapsto> cl\<lparr>c_is_active := False\<rparr>)) ((c # hs) @ ts)"
proof -
  let ?D = "C(c \<mapsto> cl\<lparr>c_is_active := False\<rparr>)"
  have old: "0 < c_ref_count xl \<and> int (count_list (hs @ ts) x) + of_bool (c_is_active xl) \<le> c_ref_count xl"
    if "C x = Some xl" for x xl
    using assms(1) that unfolding refs_inv_def by blast
  have "0 < c_ref_count xl \<and> int (count_list ((c # hs) @ ts) x) + of_bool (c_is_active xl) \<le> c_ref_count xl"
    if "?D x = Some xl" for x xl
    using that old [OF assms(2)] old [of x xl] assms(3) by (cases "x = c") auto
  moreover have "\<forall>h \<in> set ((c # hs) @ ts). ?D h \<noteq> None" using assms(1) unfolding refs_inv_def by auto
  ultimately show ?thesis unfolding refs_inv_def by blast
qed

text \<open>The server after a disconnection, before the reference of the connection is dropped.\<close>

lemma disconnect_steps:
  assumes "held_inv s hs" "client_heap s c = Some cl" "c_is_active cl" "in_fd_map (c_fd cl)"
  obtains t h p n d where "disconnect_client (c_fd cl) s = drop_ref c t" "held_inv t (c # hs)"
    "t = s\<lparr>room_head := p, room_heap := h, room_count := n, db := d, open_fds := remove1 (c_fd cl) (open_fds s),
      client_heap := (client_heap s)(c \<mapsto> cl\<lparr>c_is_active := False\<rparr>), clients := (clients s)[c_slot cl := None],
      client_count := client_count s - 1, fd_to_slot := (fd_to_slot s)[nat (c_fd cl) := - 1]\<rparr>"
proof -
  note inv = held_invD [OF assms(1)] note T = table_invD [OF inv(2)]
  have fd: "nat (c_fd cl) < 4096" "0 \<le> c_fd cl" using assms(4) by (simp_all add: in_fd_map_def nat_less_iff)
  have slot: "c_slot cl < 50" "clients s ! c_slot cl = Some c" "fd_to_slot s ! nat (c_fd cl) = int (c_slot cl)"
    using T(5) [OF assms(2,3)] assms(4) by auto
  have find: "client_of_fd (c_fd cl) s = Some (Some (c_slot cl, c))"
    by (rule client_of_fd_connected [OF assms])
  obtain as where as: "rooms_inv s as" using inv(1) by blast
  let ?D = "(client_heap s)(c \<mapsto> cl\<lparr>c_is_active := False\<rparr>)"
  obtain h p n d as' where room: "(case c_current_room cl of None \<Rightarrow> Some s | Some a \<Rightarrow> remove_client_from_room a c s) =
        Some (s\<lparr>room_head := p, room_heap := h, room_count := n, db := d\<rparr>)"
      "rooms_inv (s\<lparr>room_head := p, room_heap := h, room_count := n, db := d, client_heap := ?D\<rparr>) as'"
    using rooms_inv_disconnect [OF as assms(2,3)] by blast
  let ?t = "s\<lparr>room_head := p, room_heap := h, room_count := n, db := d, open_fds := remove1 (c_fd cl) (open_fds s),
    client_heap := ?D, clients := (clients s)[c_slot cl := None], client_count := client_count s - 1,
    fd_to_slot := (fd_to_slot s)[nat (c_fd cl) := - 1]\<rparr>"
  have eq: "disconnect_client (c_fd cl) s = drop_ref c ?t"
    using find fd assms room(1) slot T(1,2) by (simp add: disconnect_client_def mem_simps arr_set_def in_fd_map_def)
  have "rooms_inv ?t as'" using room(2)
      rooms_inv_cong [of ?t "s\<lparr>room_head := p, room_heap := h, room_count := n, db := d, client_heap := ?D\<rparr>"] by simp
  moreover have "table_inv (clients ?t) (client_count ?t) (fd_to_slot ?t) (open_fds ?t) ?D"
    using table_inv_remove [OF inv(2) assms(2-4), of ?D] by simp
  moreover have "refs_inv ?D ((c # hs) @ task_holders (tasks s))"
    by (rule refs_inv_deactivate [OF inv(3) assms(2,3)])
  ultimately have "held_inv ?t (c # hs)" using inv(4,5) by (auto simp: held_inv_def)
  with eq that show ?thesis by blast
qed

lemma disconnect_safe:
  assumes "held_inv s hs"
  shows "safe (disconnect_client fd s) hs"
proof -
  obtain r where r: "client_of_fd fd s = Some r" "\<forall>slot c. r = Some (slot, c) \<longrightarrow> in_fd_map fd \<and>
      (\<exists>cl. client_heap s c = Some cl \<and> c_is_active cl \<and> c_fd cl = fd)"
    using client_of_fd_ok [OF assms] by blast
  show ?thesis
  proof (cases r)
    case None
    with r(1) assms show ?thesis by (simp add: disconnect_client_def safe_def)
  next
    case (Some sc)
    then obtain c cl where c: "in_fd_map (c_fd cl)" "client_heap s c = Some cl" "c_is_active cl" "c_fd cl = fd"
      using r(2) by (cases sc) auto
    obtain t where "disconnect_client (c_fd cl) s = drop_ref c t" "held_inv t (c # hs)"
      using disconnect_steps [OF assms c(2,3,1)] by blast
    with c(4) held_drop_ref show ?thesis unfolding safe_def by metis
  qed
qed

section \<open>Receiving\<close>

lemma c_string_clean: "nul \<notin> set (c_string s)" "length (c_string s) \<le> length s"
  by (auto simp: c_string_def dest: set_takeWhileD intro: length_takeWhile_le)

lemma tcp_safe:
  assumes "held_inv s hs" "\<And>bs. recv_result = Some bs \<Longrightarrow> length bs < MAX_PACKET_SIZE"
  shows "safe (handle_tcp_command fd recv_result s) hs"
proof (cases "recv_result = None \<or> recv_result = Some []")
  case True
  with disconnect_safe [OF assms(1)] show ?thesis by (auto simp: handle_tcp_command_def)
next
  case False
  then obtain b bs where bs: "recv_result = Some (b # bs)" by (cases recv_result) (auto simp: neq_Nil_conv)
  obtain r where r: "client_of_fd fd s = Some r" "\<forall>slot c. r = Some (slot, c) \<longrightarrow> (\<exists>cl. client_heap s c = Some cl)"
    using client_of_fd_ok [OF assms(1), of fd] by blast
  show ?thesis
  proof (cases r)
    case None
    with bs r(1) assms(1) show ?thesis by (simp add: handle_tcp_command_def safe_def)
  next
    case (Some sc)
    then obtain slot c cl where c: "r = Some (slot, c)" "client_heap s c = Some cl" using r(2) by (cases sc) auto
    have "length (c_string (b # bs)) < 4096"
      using assms(2) [OF bs] c_string_clean(2) [of "b # bs"] by linarith
    with held_ref_add [OF assms(1) c(2)] have "safe (process_client_command c (c_string (b # bs))
        (s\<lparr>client_heap := (client_heap s)(c \<mapsto> cl\<lparr>c_ref_count := c_ref_count cl + 1\<rparr>)\<rparr>)) hs"
      by (intro process_client_command_safe c_string_clean(1))
    with bs r(1) c show ?thesis by (simp add: handle_tcp_command_def mem_simps)
  qed
qed

lemma udp_safe:
  assumes "held_inv s hs" "\<And>pkt a n. recv_result = Some (pkt, a, n) \<Longrightarrow> packet_ok pkt"
  shows "safe (handle_udp_packet recv_result s) hs"
proof (cases recv_result)
  case None
  with assms(1) show ?thesis by (simp add: handle_udp_packet_def safe_def)
next
  case (Some pan)
  then obtain pkt a n where pkt: "recv_result = Some (pkt, a, n)" "packet_ok pkt" using assms(2) by (cases pan) auto
  note T = table_invD [OF held_invD(2) [OF assms(1)]]
  let ?i = "unat (ap_sender_id pkt)"
  define r where "r = (if ?i < 50 then
      do { p \<leftarrow> arr_get (clients s) ?i;
           (case p of None \<Rightarrow> Some s
            | Some c \<Rightarrow> upd_client c (\<lambda>cl. cl\<lparr>c_udp_addr := a, c_udp_addr_len := n\<rparr>) s) }
      else Some s)"
  have "\<exists>C. r = Some (s\<lparr>client_heap := C\<rparr>) \<and> held_inv (s\<lparr>client_heap := C\<rparr>) hs"
  proof (cases "?i < 50 \<and> clients s ! ?i \<noteq> None")
    case False
    then have "r = Some (s\<lparr>client_heap := client_heap s\<rparr>)" using T(1) by (auto simp: r_def arr_get_def)
    with assms(1) show ?thesis by (intro exI [of _ "client_heap s"]) simp
  next
    case True
    then obtain c cl where c: "clients s ! ?i = Some c" "client_heap s c = Some cl" using T(4) by blast
    have "held_inv (s\<lparr>client_heap := (client_heap s)(c \<mapsto> cl\<lparr>c_udp_addr := a, c_udp_addr_len := n\<rparr>)\<rparr>) hs"
      by (rule held_client_update [OF assms(1) c(2)]) (simp_all add: shape_eq)
    with True c T(1) show ?thesis by (auto simp: r_def arr_get_def mem_simps)
  qed
  then obtain C where C: "r = Some (s\<lparr>client_heap := C\<rparr>)" "held_inv (s\<lparr>client_heap := C\<rparr>) hs" by blast
  let ?s = "s\<lparr>client_heap := C\<rparr>"
  have ring: "ipc_inv (ring s)" "\<forall>p \<in> set (ring_contents (shm_ring (ring s))). packet_ok p"
    using held_invD(5) [OF assms(1)] by (simp_all add: audio_inv_def)
  obtain b q where q: "ring_buffer_push pkt (ring s) = Some (b, q)" "ipc_inv q"
      "\<forall>p \<in> set (ring_contents (shm_ring q)). packet_ok p"
    using ring(1) by (cases rule: audio_ring.push_cases [where x = pkt]) (use ring pkt(2) in auto)
  have "held_inv (?s\<lparr>ring := q\<rparr>) hs"
    using held_invD [OF C(2)] q(2,3) rooms_inv_cong [of "?s\<lparr>ring := q\<rparr>" ?s] by (simp add: held_inv_def audio_inv_def)
  with pkt(1) C q(1) r_def show ?thesis by (simp add: handle_udp_packet_def safe_def)
qed

end
