(* ===== verification/Audio_Mixing.thy ===== *)
theory Audio_Mixing
  imports Audio_Mixer
begin

text \<open>
  What the mixer computes, without the state: samples survive the passage through bytes, every
  arithmetic step stays within 16 bits, and the mix of a listener is, sample by sample, the
  saturated sum of the other speakers divided by their number.
\<close>

section \<open>Samples and bytes\<close>

definition is_i16 :: "int \<Rightarrow> bool" where
  "is_i16 x \<longleftrightarrow> - 32768 \<le> x \<and> x \<le> 32767"

lemma dec_i16_range: "is_i16 (dec_i16 lo hi)"
  using pos_mod_bound [of 65536 "uint lo + 256 * uint hi + 32768"]
    pos_mod_sign [of 65536 "uint lo + 256 * uint hi + 32768"]
  by (simp add: dec_i16_def is_i16_def)

lemma pcm_of_bytes_range: "\<forall>x \<in> set (pcm_of_bytes bs). is_i16 x"
  by (induction bs rule: pcm_of_bytes.induct) (auto simp: dec_i16_range)

lemma length_pcm_of_bytes: "length (pcm_of_bytes bs) = length bs div 2"
  by (induction bs rule: pcm_of_bytes.induct) auto

lemma length_bytes_of_pcm: "length (bytes_of_pcm xs) = 2 * length xs"
  by (induction xs) (simp_all add: bytes_of_pcm_def enc_i16_def)

lemma dec_enc_i16:
  assumes "is_i16 x"
  shows "dec_i16 (word_of_int x) (word_of_int (x div 256)) = x"
proof -
  have b: "uint (word_of_int x :: byte) = x mod 256" for x by (simp add: uint_word_of_int)
  have split: "x mod 65536 = x mod 256 + 256 * (x div 256 mod 256)"
    using mod_mult2_eq' [of x 256 256] by simp
  have "(x mod 256 + 256 * (x div 256 mod 256) + 32768) mod 65536 = (x mod 65536 + 32768) mod 65536"
    using split by simp
  also have "\<dots> = (x + 32768) mod 65536" by (simp add: mod_simps)
  also have "\<dots> = x + 32768" using assms by (simp add: is_i16_def)
  finally show ?thesis by (simp only: dec_i16_def b)
qed

lemma pcm_bytes_pcm: "\<forall>x \<in> set xs. is_i16 x \<Longrightarrow> pcm_of_bytes (bytes_of_pcm xs) = xs"
  by (induction xs) (simp_all add: bytes_of_pcm_def enc_i16_def dec_enc_i16)

lemma entry_pcm_range: "\<forall>x \<in> set (entry_pcm e). is_i16 x"
  using pcm_of_bytes_range by (simp add: entry_pcm_def Let_def)

lemma length_entry_pcm: "length (entry_pcm e) \<le> 320"
  by (simp add: entry_pcm_def Let_def length_pcm_of_bytes)

section \<open>The arithmetic of a mix\<close>

lemma clamp_add_range: "is_i16 (clamp_add a b)"
  by (auto simp: clamp_add_def is_i16_def Let_def)

lemma clamp_add_exact: "is_i16 (a + b) \<Longrightarrow> clamp_add a b = a + b"
  by (auto simp: clamp_add_def is_i16_def)

lemma c_div_range:
  assumes "is_i16 x" "1 < n"
  shows "is_i16 (c_div x n)"
proof -
  have "0 \<le> y div n \<and> y div n \<le> y" if "0 \<le> y" for y :: int
    using that assms(2) by (metis div_by_1 pos_imp_zdiv_nonneg_iff zdiv_mono2 less_le_trans zero_less_one
        order.strict_iff_order int_one_le_iff_zero_less)
  from this [of x] this [of "- x"] assms(1) show ?thesis
    by (auto simp: c_div_def is_i16_def)
qed

lemma length_mix_in: "length pcm \<le> length mixed \<Longrightarrow> length (mix_in mixed pcm) = length mixed"
  by (simp add: mix_in_def)

lemma nth_mix_in:
  "length pcm \<le> length mixed \<Longrightarrow> j < length mixed \<Longrightarrow>
    mix_in mixed pcm ! j = (if j < length pcm then clamp_add (mixed ! j) (pcm ! j) else mixed ! j)"
  by (simp add: mix_in_def nth_append)

text \<open>The reference: what one sample of a listener should be.\<close>

definition others :: "nat \<Rightarrow> (nat \<times> int list) list \<Rightarrow> int list list" where
  "others listener_slot speakers = map snd (filter (\<lambda>(slot, pcm). slot \<noteq> listener_slot) speakers)"

definition samples_at :: "nat \<Rightarrow> int list list \<Rightarrow> int list" where
  "samples_at j pcms = map (\<lambda>pcm. pcm ! j) (filter (\<lambda>pcm. j < length pcm) pcms)"

definition saturate :: "int \<Rightarrow> int" where
  "saturate x = max (- 32768) (min 32767 x)"

definition mix_sample :: "int list list \<Rightarrow> nat \<Rightarrow> int" where
  "mix_sample pcms j =
     (let sum = foldl (\<lambda>a b. saturate (a + b)) 0 (samples_at j pcms)
      in if 1 < length pcms then sgn sum * (\<bar>sum\<bar> div int (length pcms)) else sum)"

lemma clamp_add_saturate: "clamp_add = (\<lambda>a b. saturate (a + b))"
  by (auto simp: fun_eq_iff clamp_add_def saturate_def Let_def)

lemma mix_sample_clamp:
  "mix_sample pcms j = (let sum = foldl clamp_add 0 (samples_at j pcms) in if 1 < length pcms then c_div sum (int (length pcms)) else sum)"
  by (simp add: mix_sample_def clamp_add_saturate Let_def c_div_def sgn_if)

lemma mix_speakers_others:
  assumes "\<forall>p \<in> set speakers. length (snd p) \<le> length mixed"
  shows "\<exists>ys. mix_speakers l speakers mixed n = (ys, n + length (others l speakers)) \<and> length ys = length mixed \<and>
    (\<forall>j < length mixed. ys ! j = foldl clamp_add (mixed ! j) (samples_at j (others l speakers)))"
  using assms
proof (induction speakers arbitrary: mixed n)
  case Nil
  then show ?case by (simp add: others_def samples_at_def)
next
  case (Cons p speakers)
  obtain slot pcm where p: "p = (slot, pcm)" by (cases p)
  show ?case
  proof (cases "slot = l")
    case True
    with Cons p show ?thesis by (simp add: others_def)
  next
    case False
    have len: "length (mix_in mixed pcm) = length mixed" using Cons.prems p by (simp add: length_mix_in)
    obtain ys where ys: "mix_speakers l speakers (mix_in mixed pcm) (n + 1) = (ys, n + 1 + length (others l speakers))"
        "length ys = length mixed"
        "\<forall>j < length mixed. ys ! j = foldl clamp_add (mix_in mixed pcm ! j) (samples_at j (others l speakers))"
      using Cons.IH [of "mix_in mixed pcm" "n + 1"] Cons.prems len by auto
    have "others l (p # speakers) = pcm # others l speakers" using p False by (simp add: others_def)
    with ys p False Cons.prems show ?thesis by (simp add: samples_at_def nth_mix_in)
  qed
qed

lemma mix_for_sample:
  assumes "\<forall>p \<in> set speakers. length (snd p) \<le> 320"
  shows "mix_for l speakers = map (mix_sample (others l speakers)) [0..<320]"
proof -
  obtain ys where ys: "mix_speakers l speakers (replicate 320 0) 0 = (ys, length (others l speakers))"
      "length ys = 320" "\<forall>j < 320. ys ! j = foldl clamp_add 0 (samples_at j (others l speakers))"
    using mix_speakers_others [of speakers "replicate 320 0" l 0] assms by auto
  then have "ys = map (\<lambda>j. foldl clamp_add 0 (samples_at j (others l speakers))) [0..<320]"
    by (intro nth_equalityI) simp_all
  with ys(1) show ?thesis by (auto simp: mix_for_def mix_sample_clamp)
qed

lemma foldl_clamp_range: "is_i16 a \<Longrightarrow> is_i16 (foldl clamp_add a xs)"
  by (induction xs arbitrary: a) (simp_all add: clamp_add_range)

lemma mix_sample_range: "is_i16 (mix_sample pcms j)"
proof -
  have "is_i16 (foldl clamp_add 0 (samples_at j pcms))" by (rule foldl_clamp_range) (simp add: is_i16_def)
  then show ?thesis by (auto simp: mix_sample_clamp Let_def intro: c_div_range)
qed

lemma foldl_clamp_exact:
  "\<bar>a\<bar> + sum_list (map abs xs) \<le> 32767 \<Longrightarrow> foldl clamp_add a xs = a + sum_list xs"
proof (induction xs arbitrary: a)
  case (Cons x xs)
  have nonneg: "0 \<le> sum_list (map abs xs)" by (rule sum_list_nonneg) auto
  have "\<bar>a + x\<bar> + sum_list (map abs xs) \<le> 32767" using Cons.prems by simp
  moreover have "clamp_add a x = a + x"
    using calculation nonneg by (intro clamp_add_exact) (auto simp: is_i16_def)
  ultimately show ?case using Cons.IH by simp
qed simp

section \<open>A single voice in a mix\<close>

lemma word_of_dec_i16: "word_of_int (dec_i16 lo hi) = lo" "word_of_int (dec_i16 lo hi div 256) = hi"
proof -
  define k where "k = - ((uint lo + 256 * uint hi + 32768) div 65536)"
  have d: "dec_i16 lo hi = uint lo + 256 * (uint hi + 256 * k)"
    unfolding dec_i16_def k_def minus_div_mult_eq_mod [symmetric] by simp
  have lo: "0 \<le> uint lo" "uint lo < 256" using uint_bounded [of lo] by simp_all
  have z: "(256 :: byte) = 0" "(65536 :: byte) = 0" by simp_all
  show "word_of_int (dec_i16 lo hi) = lo" unfolding d by (simp add: z)
  have "dec_i16 lo hi div 256 = uint hi + 256 * k" unfolding d using lo by (subst div_mult_self2) simp_all
  then show "word_of_int (dec_i16 lo hi div 256) = hi" by (simp add: z)
qed

lemma bytes_pcm_bytes: "even (length bs) \<Longrightarrow> bytes_of_pcm (pcm_of_bytes bs) = bs"
  by (induction bs rule: pcm_of_bytes.induct) (auto simp: bytes_of_pcm_def enc_i16_def word_of_dec_i16)

lemma mix_for_single:
  assumes "length pcm = 320" "\<forall>x \<in> set pcm. is_i16 x" "slot \<noteq> l"
  shows "mix_for l [(slot, pcm)] = pcm"
proof -
  have "others l [(slot, pcm)] = [pcm]" using assms(3) by (simp add: others_def)
  moreover have "mix_sample [pcm] j = pcm ! j" if "j < 320" for j
    using that assms(1,2) clamp_add_exact [of 0 "pcm ! j"] by (simp add: mix_sample_clamp samples_at_def)
  ultimately show ?thesis
    using mix_for_sample [of "[(slot, pcm)]" l] assms(1) by (intro nth_equalityI) simp_all
qed

lemma entry_pcm_full:
  assumes "take (unat (je_payload_size e)) (je_payload e) = bs" "length bs = 640"
  shows "entry_pcm e = pcm_of_bytes bs"
proof -
  have "take (min 320 (unat (je_payload_size e) div 2) * 2) (je_payload e) = bs"
    using assms by (auto simp: min_def split: if_splits)
  then show ?thesis by (simp add: entry_pcm_def Let_def)
qed

section \<open>Properties\<close>

text \<open>
  C16: the mixing loop computes its specification. For speakers of at most 320 samples each, the
  buffer of a listener is, sample by sample, the saturated sum over the speakers in other slots that
  reach this far, divided by the number of other speakers when there are several (the quotient is cut off towards
  zero); it has 320 samples, and each fits a 16-bit integer.
\<close>

theorem mix_for_spec:
  assumes "\<forall>p \<in> set speakers. length (snd p) \<le> 320"
  shows "mix_for l speakers = map (mix_sample (others l speakers)) [0..<320] \<and>
    (\<forall>x \<in> set (mix_for l speakers). is_i16 x)"
  using mix_for_sample [OF assms] by (simp add: mix_sample_range)

text \<open>
  Nobody hears an echo of themselves: the mix of a listener does not depend on what was popped
  for their own slot, nor on whether anything was.
\<close>

theorem mix_for_no_echo:
  "mix_for l (before @ (l, pcm) # after) = mix_for l (before @ after)"
proof -
  have "mix_speakers l (before @ (l, pcm) # after) m n = mix_speakers l (before @ after) m n" for m n
    by (induction l before m n rule: mix_speakers.induct) auto
  then show ?thesis by (simp add: mix_for_def)
qed

text \<open>
  Several speakers that together stay within the range of a sample are averaged: as long as the
  magnitudes at a position add up to at most 32767 nothing is clipped, and the listener's sample is
  the sum divided by the number of the other speakers; a single one is heard unchanged.
\<close>

theorem mix_for_averages:
  assumes "\<forall>p \<in> set speakers. length (snd p) \<le> 320" "j < 320"
    "sum_list (map abs (samples_at j (others l speakers))) \<le> 32767" "others l speakers \<noteq> []"
  shows "mix_for l speakers ! j =
    c_div (sum_list (samples_at j (others l speakers))) (int (length (others l speakers)))"
proof -
  have "mix_for l speakers ! j = mix_sample (others l speakers) j"
    using mix_for_sample [OF assms(1)] assms(2) by simp
  moreover have "length (others l speakers) = 1" if "\<not> 1 < length (others l speakers)"
    using that assms(4) by (cases "others l speakers") auto
  ultimately show ?thesis
    using foldl_clamp_exact [of 0 "samples_at j (others l speakers)"] assms(3)
    by (auto simp: mix_sample_clamp Let_def c_div_def)
qed

text \<open>16-bit samples written to a payload and read back are the same samples.\<close>

theorem pcm_roundtrip:
  assumes "\<forall>x \<in> set xs. is_i16 x"
  shows "pcm_of_bytes (bytes_of_pcm xs) = xs \<and> length (bytes_of_pcm xs) = 2 * length xs"
  using pcm_bytes_pcm [OF assms] length_bytes_of_pcm by blast

section \<open>Witnesses\<close>

theorem mix_for_spec_witness:
  "mix_for 1 [(0, [30000, 5]), (1, [7, 7]), (2, [30000, - 8])] =
    map (mix_sample (others 1 [(0, [30000, 5]), (1, [7, 7]), (2, [30000, - 8])])) [0..<320]"
  using mix_for_spec [of "[(0, [30000, 5]), (1, [7, 7]), (2, [30000, - 8])]" 1] by simp

theorem mix_for_averages_witness:
  "mix_for 1 [(0, [30000, 5]), (1, [7, 7]), (2, [30000, - 8])] ! 1 = - 1"
  using mix_for_averages [of "[(0, [30000, 5]), (1, [7, 7]), (2, [30000, - 8])]" 1 1]
  by (simp add: others_def samples_at_def c_div_def)

theorem pcm_roundtrip_witness: "pcm_of_bytes (bytes_of_pcm [- 32768, - 1, 0, 32767]) = [- 32768, - 1, 0, 32767]"
  using pcm_roundtrip [of "[- 32768, - 1, 0, 32767]"] by (simp add: is_i16_def)

end
