(* ===== verification/Mixer_Invariant.thy ===== *)
theory Mixer_Invariant
  imports Handler_Invariant Audio_Mixing
begin

text \<open>
  The mixer thread: a tick empties the ring into the jitter buffers, pops at most one packet of every
  talking participant and sends every participant of every room one datagram; it ends and keeps the
  invariant of the server. What it collects and sends is stated with list functions over the members
  of a room.
\<close>

section \<open>Collecting the speakers of a room\<close>

definition talking :: "server \<Rightarrow> addr \<Rightarrow> bool" where
  "talking s c \<longleftrightarrow> (\<exists>cl. client_heap s c = Some cl \<and> \<not> c_is_mute cl \<and> c_is_active cl)"

definition slot_of :: "server \<Rightarrow> addr \<Rightarrow> nat" where
  "slot_of s c = c_slot (the (client_heap s c))"

definition heard :: "server \<Rightarrow> addr \<Rightarrow> (nat \<times> int list) list" where
  "heard s c =
     (if talking s c
      then case fst (jitter_buffer_pop (jitter_buffers s ! slot_of s c)) of
             None \<Rightarrow> []
           | Some e \<Rightarrow> [(slot_of s c, entry_pcm e)]
      else [])"

definition popped :: "server \<Rightarrow> addr \<Rightarrow> jitter_buffer list" where
  "popped s c =
     (let jbs = jitter_buffers s; i = slot_of s c
      in if talking s c then jbs[i := snd (jitter_buffer_pop (jbs ! i))] else jbs)"

definition heard_all :: "server \<Rightarrow> addr list \<Rightarrow> (nat \<times> int list) list" where
  "heard_all s cs = concat (map (heard s) cs)"

fun popped_all :: "server \<Rightarrow> addr list \<Rightarrow> jitter_buffer list" where
  "popped_all s [] = jitter_buffers s"
| "popped_all s (c # cs) = popped_all (s\<lparr>jitter_buffers := popped s c\<rparr>) cs"

text \<open>Connected clients with their own places in the tables.\<close>

definition placed :: "server \<Rightarrow> addr list \<Rightarrow> bool" where
  "placed s cs \<longleftrightarrow> (\<forall>c \<in> set cs. \<exists>cl. client_heap s c = Some cl \<and> c_is_active cl \<and> c_slot cl < MAX_CLIENTS) \<and>
     distinct (map (slot_of s) cs)"

lemma talking_frame [simp]: "talking (s\<lparr>jitter_buffers := jbs\<rparr>) c = talking s c"
  "slot_of (s\<lparr>jitter_buffers := jbs\<rparr>) c = slot_of s c" "placed (s\<lparr>jitter_buffers := jbs\<rparr>) cs = placed s cs"
  by (simp_all add: talking_def slot_of_def placed_def cong: map_cong)

lemma placed_Cons: "placed s (c # cs) \<Longrightarrow> placed s [c] \<and> placed s cs"
  by (simp add: placed_def)

lemma heard_cong:
  assumes "client_heap t = client_heap s" "jitter_buffers t ! slot_of s c = jitter_buffers s ! slot_of s c"
  shows "heard t c = heard s c"
proof -
  have "talking t c = talking s c" "slot_of t c = slot_of s c" using assms(1) by (simp_all add: talking_def slot_of_def)
  with assms(2) show ?thesis by (simp add: heard_def cong: option.case_cong)
qed

lemma heard_slot: "p \<in> set (heard s c) \<Longrightarrow> fst p = slot_of s c \<and> talking s c"
  by (cases "talking s c"; cases "fst (jitter_buffer_pop (jitter_buffers s ! slot_of s c))") (simp_all add: heard_def)

lemma heard_length: "length (heard s c) \<le> 1"
  by (cases "fst (jitter_buffer_pop (jitter_buffers s ! slot_of s c))") (auto simp: heard_def)

lemma heard_all_later:
  assumes "placed s (c # cs)"
  shows "heard_all (s\<lparr>jitter_buffers := popped s c\<rparr>) cs = heard_all s cs"
proof -
  have "heard (s\<lparr>jitter_buffers := popped s c\<rparr>) d = heard s d" if "d \<in> set cs" for d
  proof -
    have "slot_of s d \<noteq> slot_of s c" using assms that by (simp add: placed_def) (metis image_eqI)
    then show ?thesis by (intro heard_cong) (simp_all add: popped_def Let_def)
  qed
  then show ?thesis by (simp add: heard_all_def cong: map_cong)
qed

lemma sem_untouched:
  "i < length sems \<Longrightarrow> 0 < sems ! i \<Longrightarrow>
    sem_trywait i sems = Some (True, sems[i := sems ! i - 1]) \<and>
    sem_post i (sems[i := sems ! i - 1]) = Some sems"
  by (simp add: sem_trywait_def sem_post_def mem_simps)

lemma collect_step:
  assumes "r_participants r ! i = Some c" "i < length (r_participants r)" "placed s [c]"
    "length (jitter_buffers s) = MAX_CLIENTS" "room_speaker_sem s = replicate MAX_ROOMS 10" "r_room_id r < MAX_ROOMS"
    "length acc < MAX_CLIENTS"
  shows "collect_speakers (i # is) r acc s =
    collect_speakers is r (acc @ heard s c) (s\<lparr>jitter_buffers := popped s c\<rparr>)"
proof -
  obtain cl where cl: "client_heap s c = Some cl" "c_is_active cl" "c_slot cl < 50"
    using assms(3) by (auto simp: placed_def)
  show ?thesis
  proof (cases "c_is_mute cl")
    case True
    with assms(1,2) cl show ?thesis
      by (simp add: mem_simps heard_def popped_def talking_def Let_def)
  next
    case False
    obtain e jb where pop: "jitter_buffer_pop (jitter_buffers s ! c_slot cl) = (e, jb)" by fastforce
    have sem: "sem_trywait (r_room_id r) (room_speaker_sem s) =
        Some (True, (replicate 32 10)[r_room_id r := 9])"
      "sem_post (r_room_id r) ((replicate 32 10)[r_room_id r := 9]) = Some (replicate 32 10)"
      using sem_untouched [of "r_room_id r" "room_speaker_sem s"] assms(5,6) by auto
    have tl: "talking s c" "slot_of s c = c_slot cl" using False cl by (simp_all add: talking_def slot_of_def)
    have frame: "s\<lparr>room_speaker_sem := replicate 32 10, jitter_buffers := jbs\<rparr> = s\<lparr>jitter_buffers := jbs\<rparr>" for jbs
      by (simp add: assms(5) [symmetric])
    from assms cl False pop sem tl show ?thesis
      by (cases e) (simp_all add: frame mem_simps heard_def popped_def Let_def)
  qed
qed

lemma popped_length: "length (popped s c) = length (jitter_buffers s)"
  by (simp add: popped_def Let_def)

lemma collect_speakers_heard:
  assumes "map ((!) (r_participants r)) is = map Some cs" "\<forall>i \<in> set is. i < length (r_participants r)"
    "placed s cs" "length (jitter_buffers s) = MAX_CLIENTS" "room_speaker_sem s = replicate MAX_ROOMS 10"
    "r_room_id r < MAX_ROOMS" "length acc + length cs \<le> MAX_CLIENTS"
  shows "collect_speakers is r acc s = Some (acc @ heard_all s cs, s\<lparr>jitter_buffers := popped_all s cs\<rparr>)"
  using assms
proof (induction cs arbitrary: "is" acc s)
  case Nil
  then show ?case by (simp add: heard_all_def)
next
  case (Cons c cs)
  then obtain i is' where i: "is = i # is'" "r_participants r ! i = Some c" by (cases "is") auto
  let ?s = "s\<lparr>jitter_buffers := popped s c\<rparr>"
  have "collect_speakers is r acc s = collect_speakers is' r (acc @ heard s c) ?s"
    unfolding i(1) by (rule collect_step) (use Cons.prems i in \<open>auto simp: placed_def\<close>)
  also have "\<dots> = Some ((acc @ heard s c) @ heard_all ?s cs, ?s\<lparr>jitter_buffers := popped_all ?s cs\<rparr>)"
    using Cons.prems i heard_length [of s c] placed_Cons [OF Cons.prems(3)]
    by (intro Cons.IH) (auto simp: popped_length)
  finally show ?case using heard_all_later [OF Cons.prems(3)] by (simp add: heard_all_def)
qed

lemma popped_ok:
  assumes "length (jitter_buffers s) = MAX_CLIENTS" "\<forall>jb \<in> set (jitter_buffers s). jb_ok jb" "placed s [c]"
  shows "\<forall>jb \<in> set (popped s c). jb_ok jb"
proof -
  have "slot_of s c < 50" using assms(3) by (auto simp: placed_def slot_of_def)
  then have "jb_ok (jitter_buffers s ! slot_of s c)" using assms(1,2) by simp
  then have "jb_ok (snd (jitter_buffer_pop (jitter_buffers s ! slot_of s c)))"
    using jitter_pop_keeps(1) by (metis surjective_pairing)
  then show ?thesis using assms(2) set_update_ball [OF assms(2)] by (simp add: popped_def Let_def)
qed

lemma popped_all_ok:
  assumes "length (jitter_buffers s) = MAX_CLIENTS" "\<forall>jb \<in> set (jitter_buffers s). jb_ok jb" "placed s cs"
  shows "length (popped_all s cs) = MAX_CLIENTS \<and> (\<forall>jb \<in> set (popped_all s cs). jb_ok jb)"
  using assms
proof (induction cs arbitrary: s)
  case (Cons c cs)
  have "placed s [c]" "placed s cs" using placed_Cons [OF Cons.prems(3)] by simp_all
  then have "length (popped s c) = 50" "\<forall>jb \<in> set (popped s c). jb_ok jb"
    using popped_ok [OF Cons.prems(1,2)] Cons.prems(1) by (simp_all add: popped_length)
  with Cons.IH [of "s\<lparr>jitter_buffers := popped s c\<rparr>"] \<open>placed s cs\<close>
  show ?case by simp
qed simp

section \<open>Sending\<close>

text \<open>The datagram of a listener: 640 bytes of samples after the header.\<close>

definition mix_datagram :: "u32 \<Rightarrow> nat \<Rightarrow> (nat \<times> int list) list \<Rightarrow> client \<Rightarrow> sockaddr_in \<times> nat \<times> audio_packet" where
  "mix_datagram now room_id speakers cl = (c_udp_addr cl, 660,
     \<lparr>ap_room_id = of_nat room_id, ap_sender_id = 0, ap_seq_num = 0, ap_timestamp = now, ap_payload_size = 640,
      ap_payload = overwrite 0 0 (take 640 (bytes_of_pcm (mix_for (c_slot cl) speakers)))
        (replicate AUDIO_PAYLOAD_SIZE 0)\<rparr>)"

lemma send_mixes_all:
  assumes "\<forall>c \<in> set cs. \<exists>cl. client_heap s c = Some cl \<and> c_is_active cl \<and> c_current_room cl = Some a"
    "room_heap s a = Some r"
  shows "send_mixes now (map Some cs) speakers s = Some (s\<lparr>udp_out := udp_out s @
    map (\<lambda>c. mix_datagram now (r_room_id r) speakers (the (client_heap s c))) cs\<rparr>)"
  using assms
proof (induction cs arbitrary: s)
  case (Cons c cs)
  obtain cl where cl: "client_heap s c = Some cl" "c_is_active cl" "c_current_room cl = Some a"
    using Cons.prems(1) by auto
  have "send_audio_to_client now c (mix_for (c_slot cl) speakers) 320 s =
      Some (s\<lparr>udp_out := udp_out s @ [mix_datagram now (r_room_id r) speakers cl]\<rparr>)"
    using cl Cons.prems(2) by (simp add: send_audio_to_client_def mix_datagram_def)
  with cl Cons.IH [of "s\<lparr>udp_out := udp_out s @ [mix_datagram now (r_room_id r) speakers cl]\<rparr>"] Cons.prems
  show ?case by simp
qed simp

section \<open>A room\<close>

lemma members_placed:
  assumes "rooms_inv s as" "table_inv (clients s) n fds ofds (client_heap s)" "room_heap s a = Some r"
  shows "placed s (members r)"
    "\<forall>c \<in> set (members r). \<exists>cl. client_heap s c = Some cl \<and> c_is_active cl \<and> c_current_room cl = Some a"
proof -
  note R = rooms_invD [OF assms(1)] and T = table_invD [OF assms(2)]
  have ok: "room_ok r" by (rule rooms_ok_room [OF R(2) assms(3)])
  show here: "\<forall>c \<in> set (members r). \<exists>cl. client_heap s c = Some cl \<and> c_is_active cl \<and> c_current_room cl = Some a"
    using R(3) room_table_Some [OF assms(3)] unfolding linked_def by (metis room_data_ok(1))
  have place: "clients s ! slot_of s c = Some c \<and> slot_of s c < 50" if "c \<in> set (members r)" for c
    using here that T(5) [of c] by (auto simp: slot_of_def)
  have "inj_on (slot_of s) (set (members r))"
    by (rule inj_onI) (metis place option.inject)
  moreover have "distinct (members r)" using ok participants_okD(4) by (simp add: room_ok_def)
  ultimately have "distinct (map (slot_of s) (members r))" by (simp add: distinct_map)
  then show "placed s (members r)" using here place by (fastforce simp: placed_def slot_of_def)
qed

definition with_speakers :: "(nat \<times> int list) list \<Rightarrow> room \<Rightarrow> room" where
  "with_speakers speakers r = r\<lparr>r_active_speakers := int (length speakers)\<rparr>"

text \<open>What a room sends in a tick, and the server after it.\<close>

definition room_datagrams :: "u32 \<Rightarrow> server \<Rightarrow> room \<Rightarrow> (sockaddr_in \<times> nat \<times> audio_packet) list" where
  "room_datagrams now s r =
     map (\<lambda>c. mix_datagram now (r_room_id r) (heard_all s (members r)) (the (client_heap s c))) (members r)"

definition after_mix :: "u32 \<Rightarrow> addr \<Rightarrow> room \<Rightarrow> server \<Rightarrow> server" where
  "after_mix now a r s = s\<lparr>jitter_buffers := popped_all s (members r),
     room_heap := (room_heap s)(a \<mapsto> with_speakers (heard_all s (members r)) r),
     udp_out := udp_out s @ room_datagrams now s r\<rparr>"

lemma mix_room_after:
  assumes "rooms_inv s as" "table_inv (clients s) n fds ofds (client_heap s)"
    "audio_inv (ring s) (jitter_buffers s) (room_speaker_sem s)" "room_heap s a = Some r"
  shows "mix_room now a s = Some (after_mix now a r s)"
proof -
  note M = members_placed [OF assms(1,2,4)]
  have ok: "room_ok r" using rooms_ok_room rooms_invD(2) [OF assms(1)] assms(4) by blast
  then have p: "r_participants r = map Some (members r) @ replicate (50 - length (members r)) None"
      "r_participant_count r = length (members r)" "length (members r) \<le> 50" "r_room_id r < 32"
    using participants_okD [of r] by (simp_all add: room_ok_def)
  let ?sp = "heard_all s (members r)"
  let ?s = "s\<lparr>jitter_buffers := popped_all s (members r), room_heap := (room_heap s)(a \<mapsto> with_speakers ?sp r)\<rparr>"
  have "map ((!) (r_participants r)) [0..<length (members r)] = map Some (members r)"
    by (rule nth_equalityI) (simp_all add: p(1) nth_append)
  then have "collect_speakers [0..<length (members r)] r [] s =
      Some (?sp, s\<lparr>jitter_buffers := popped_all s (members r)\<rparr>)"
    using collect_speakers_heard [of r "[0..<length (members r)]" "members r" s "[]"] M(1) p assms(3)
    by (simp add: audio_inv_def)
  moreover have "send_mixes now (map Some (members r)) ?sp ?s =
      Some (?s\<lparr>udp_out := udp_out s @ room_datagrams now s r\<rparr>)"
    using send_mixes_all [of "members r" ?s a "with_speakers ?sp r" now ?sp] M(2)
    by (simp add: room_datagrams_def with_speakers_def)
  moreover have "take (min 50 (length (members r))) (r_participants r) = map Some (members r)"
    using p by (simp add: min_def)
  ultimately show ?thesis
    using assms(4) p by (simp add: mix_room_def after_mix_def mem_simps with_speakers_def)
qed

text \<open>The invariant looks at the members and the records of the rooms only.\<close>

lemma linked_cong:
  assumes "\<And>a. map_option members (H' a) = map_option members (H a)"
  shows "linked H' C = linked H C"
proof -
  have "linked K C \<longleftrightarrow>
      (\<forall>a ms c. map_option members (K a) = Some ms \<and> c \<in> set ms \<longrightarrow> seated C c = Some a) \<and>
      (\<forall>c a. seated C c = Some a \<longrightarrow> (\<exists>ms. map_option members (K a) = Some ms \<and> c \<in> set ms))" for K
    unfolding linked_seated map_option_eq_Some by blast
  with assms show ?thesis by presburger
qed

lemma mirrors_cong:
  assumes "\<And>a. map_option (\<lambda>r. (r_room_id r, record_of r)) (H' a) = map_option (\<lambda>r. (r_room_id r, record_of r)) (H a)"
  shows "mirrors H' recs = mirrors H recs"
proof -
  have "mirrors K recs \<longleftrightarrow>
      (\<forall>a i x. map_option (\<lambda>r. (r_room_id r, record_of r)) (K a) = Some (i, x) \<longrightarrow> i < length recs \<and> recs ! i = x) \<and>
      (\<forall>i < length recs. rr_is_active (recs ! i) \<noteq> 0 \<longrightarrow>
        (\<exists>a x. map_option (\<lambda>r. (r_room_id r, record_of r)) (K a) = Some (i, x)))" for K
    unfolding mirrors_def map_option_eq_Some by blast
  with assms show ?thesis by presburger
qed

lemma after_mix_inv:
  assumes "held_inv s hs" "rooms_inv s as" "room_heap s a = Some r"
  shows "held_inv (after_mix now a r s) hs" "rooms_inv (after_mix now a r s) as"
proof -
  note inv = held_invD [OF assms(1)] and R = rooms_invD [OF assms(2)]
  let ?t = "after_mix now a r s" and ?r = "with_speakers (heard_all s (members r)) r"
  let ?u = "s\<lparr>room_heap := (room_heap s)(a \<mapsto> ?r), client_heap := client_heap s, db := db s\<rparr>"
  have r: "room_ok ?r = room_ok r" "members ?r = members r" "record_of ?r = record_of r" "r_room_id ?r = r_room_id r"
    by (simp_all add: with_speakers_def room_ok_def participants_ok_def members_def record_of_def)
  have tab: "room_table s a = Some (room_data r)" by (rule room_table_Some [OF assms(3)])
  have u: "list_ok ?u as" "room_table ?u = (room_table s)(a \<mapsto> room_data ?r)"
    using list_ok_update [OF R(1) assms(3), of ?r ?u "db s" "client_heap s"] by (simp_all add: with_speakers_def)
  have "rooms_ok (room_table ?u)"
    unfolding u(2) by (rule rooms_ok_update [OF R(2) tab]) (use rooms_ok_room [OF R(2) assms(3)] r in auto)
  moreover have "linked (room_table ?u) (client_heap s)"
    using R(3) linked_cong [of "room_table ?u" "room_table s"] u(2) tab r(2) by simp
  moreover have "on_disk (room_table ?u) (db s)"
    using R(4) mirrors_cong [of "room_table ?u" "room_table s"] u(2) tab r(3,4) by (simp add: on_disk_def)
  ultimately have "rooms_inv ?u as" using u(1) by (simp add: rooms_inv_def)
  then show rooms: "rooms_inv ?t as" using rooms_inv_cong [of ?t ?u as] by (simp add: after_mix_def)
  have "audio_inv (ring s) (popped_all s (members r)) (room_speaker_sem s)"
    using inv(5) popped_all_ok [of s "members r"] members_placed(1) [OF assms(2) inv(2) assms(3)]
    by (simp add: audio_inv_def)
  then show "held_inv ?t hs" using inv rooms by (auto simp: held_inv_def after_mix_def)
qed

section \<open>All rooms\<close>

fun mixed :: "u32 \<Rightarrow> addr list \<Rightarrow> server \<Rightarrow> server" where
  "mixed now [] s = s"
| "mixed now (a # as) s =
     mixed now as (let r = the (room_heap s a) in if members r = [] then s else after_mix now a r s)"

lemma after_mix_frame [simp]:
  "client_heap (after_mix now a r s) = client_heap s" "clients (after_mix now a r s) = clients s"
  "tasks (after_mix now a r s) = tasks s" "ring (after_mix now a r s) = ring s" "db (after_mix now a r s) = db s"
  "server_on (after_mix now a r s) = server_on s" "tcp_out (after_mix now a r s) = tcp_out s"
  "room_heap (after_mix now a r s) b =
    (if b = a then Some (with_speakers (heard_all s (members r)) r) else room_heap s b)"
  "udp_out (after_mix now a r s) = udp_out s @ room_datagrams now s r"
  by (simp_all add: after_mix_def)

lemma with_speakers_links [simp]:
  "r_next (with_speakers sp r) = r_next r" "r_prev (with_speakers sp r) = r_prev r"
  "members (with_speakers sp r) = members r" "r_room_id (with_speakers sp r) = r_room_id r"
  by (simp_all add: with_speakers_def members_def)

lemma mix_rooms_ends:
  assumes "held_inv s hs" "rooms_inv s all" "seg (room_heap s) q p as m None" "distinct as"
  shows "mix_rooms now p s = Some (mixed now as s) \<and> held_inv (mixed now as s) hs"
  using assms
proof (induction as arbitrary: s q p)
  case Nil
  then show ?case by (subst mix_rooms.simps) simp
next
  case (Cons a as)
  then obtain r where r: "p = Some a" "room_heap s a = Some r" "seg (room_heap s) (Some a) (r_next r) as m None"
    by auto
  have "room_ok r" using rooms_ok_room rooms_invD(2) [OF Cons.prems(2)] r(2) by blast
  then have n: "r_participant_count r = length (members r)" using participants_okD(2) by (simp add: room_ok_def)
  show ?case
  proof (cases "members r = []")
    case True
    with r n Cons.IH [OF Cons.prems(1,2) r(3)] Cons.prems(4) show ?thesis
      by (subst mix_rooms.simps) simp
  next
    case False
    let ?s = "after_mix now a r s"
    have s: "held_inv ?s hs" "rooms_inv ?s all" by (rule after_mix_inv [OF Cons.prems(1,2) r(2)])+
    have mix: "mix_room now a s = Some ?s"
      by (rule mix_room_after [OF Cons.prems(2) held_invD(2,5) [OF Cons.prems(1)] r(2)])
    have "seg (room_heap ?s) (Some a) (r_next r) as m None"
      using r(3) Cons.prems(4) by (subst seg_frame [of as _ "room_heap s"]) auto
    from Cons.IH [OF s this] Cons.prems(4) r n mix False show ?thesis
      by (subst mix_rooms.simps) simp
  qed
qed

section \<open>Draining the ring\<close>

definition delivered :: "audio_packet \<Rightarrow> jitter_buffer list \<Rightarrow> jitter_buffer list" where
  "delivered pkt jbs =
     (let i = unat (ap_sender_id pkt)
      in if i < MAX_CLIENTS then jbs[i := the (jitter_buffer_push pkt (jbs ! i))] else jbs)"

lemma sint_slot: "(sint w < 0 \<or> 50 \<le> sint w) \<longleftrightarrow> \<not> unat w < 50" "unat w < 50 \<Longrightarrow> nat (sint w) = unat w" for w :: u32
proof -
  have u: "uint w = int (unat w)" "uint w < 4294967296" using uint_bounded [of w] by simp_all
  show "(sint w < 0 \<or> 50 \<le> sint w) \<longleftrightarrow> \<not> unat w < 50" using sint_u32 [of w] u by presburger
  have "sint w = int (unat w)" if "unat w < 50" using sint_u32 [of w] u that by presburger
  then show "unat w < 50 \<Longrightarrow> nat (sint w) = unat w" using nat_int by metis
qed

lemma drain_ring_empties:
  assumes "audio_inv (ring s) (jitter_buffers s) sems"
  shows "\<exists>q. drain_ring s = Some (s\<lparr>ring := q,
      jitter_buffers := fold delivered (ring_contents (shm_ring (ring s))) (jitter_buffers s)\<rparr>) \<and>
    ring_contents (shm_ring q) = [] \<and>
    audio_inv q (fold delivered (ring_contents (shm_ring (ring s))) (jitter_buffers s)) sems"
  using assms
proof (induction "ring_contents (shm_ring (ring s))" arbitrary: s)
  case Nil
  then have "ring_buffer_pop (ring s) = Some (None, ring s)"
    using audio_ring.pop_empty [of "ring s"] by (simp add: audio_inv_def)
  with Nil show ?case by (subst drain_ring.simps) (auto intro!: exI [of _ "ring s"])
next
  case (Cons pkt pkts)
  have A: "ipc_inv (ring s)" "packet_ok pkt" "\<forall>x \<in> set pkts. packet_ok x" "length (jitter_buffers s) = 50"
      "\<forall>jb \<in> set (jitter_buffers s). jb_ok jb" "sems = replicate 32 10"
    using Cons.prems unfolding audio_inv_def Cons.hyps(2) [symmetric] by auto
  obtain q where q: "ring_buffer_pop (ring s) = Some (Some pkt, q)" "ipc_inv q" "ring_contents (shm_ring q) = pkts"
    using audio_ring.pop_first [OF A(1) Cons.hyps(2) [symmetric]] by blast
  let ?t = "s\<lparr>ring := q, jitter_buffers := delivered pkt (jitter_buffers s)\<rparr>"
  let ?i = "unat (ap_sender_id pkt)"
  have step: "drain_ring s = drain_ring ?t \<and> length (delivered pkt (jitter_buffers s)) = 50 \<and>
      (\<forall>jb \<in> set (delivered pkt (jitter_buffers s)). jb_ok jb)"
  proof (cases "?i < 50")
    case False
    with q(1) A show ?thesis
      using sint_slot(1) [of "ap_sender_id pkt"] by (subst drain_ring.simps) (simp add: delivered_def Let_def)
  next
    case True
    then have "jb_ok (jitter_buffers s ! ?i)" using A by simp
    then obtain jb where jb: "jitter_buffer_push pkt (jitter_buffers s ! ?i) = Some jb" "jb_ok jb"
      using jitter_push_ok A(2) by blast
    have "drain_ring s = drain_ring ?t"
      using True jb q(1) A(4) sint_slot [of "ap_sender_id pkt"]
      by (subst drain_ring.simps) (simp add: delivered_def Let_def mem_simps)
    with True jb A set_update_ball [OF A(5) jb(2)] show ?thesis by (simp add: delivered_def Let_def)
  qed
  then have "audio_inv (ring ?t) (jitter_buffers ?t) sems" using q A by (simp add: audio_inv_def)
  from Cons.hyps(1) [of ?t, OF _ this] q(3) obtain q' where
    "drain_ring ?t = Some (?t\<lparr>ring := q', jitter_buffers := fold delivered pkts (jitter_buffers ?t)\<rparr>)"
    "ring_contents (shm_ring q') = []" "audio_inv q' (fold delivered pkts (jitter_buffers ?t)) sems"
    by auto
  with step Cons.hyps(2) [symmetric] show ?case by (intro exI [of _ q']) simp
qed

section \<open>The tick\<close>

lemma mixer_tick_runs:
  assumes "held_inv s hs"
  obtains q as where "rooms_inv s as" "ring_contents (shm_ring q) = []"
    "mixer_tick now s = Some (mixed now as (s\<lparr>ring := q,
      jitter_buffers := fold delivered (ring_contents (shm_ring (ring s))) (jitter_buffers s)\<rparr>))"
    "held_inv (mixed now as (s\<lparr>ring := q,
      jitter_buffers := fold delivered (ring_contents (shm_ring (ring s))) (jitter_buffers s)\<rparr>)) hs"
proof -
  let ?J = "fold delivered (ring_contents (shm_ring (ring s))) (jitter_buffers s)"
  note inv = held_invD [OF assms]
  obtain as where as: "rooms_inv s as" using inv(1) by blast
  obtain q where q: "drain_ring s = Some (s\<lparr>ring := q, jitter_buffers := ?J\<rparr>)"
      "ring_contents (shm_ring q) = []" "audio_inv q ?J (room_speaker_sem s)"
    using drain_ring_empties [OF inv(5)] by blast
  let ?t = "s\<lparr>ring := q, jitter_buffers := ?J\<rparr>"
  have t: "rooms_inv ?t as" using as rooms_inv_cong [of ?t s as] by simp
  then have "held_inv ?t hs" using inv q(3) by (auto simp: held_inv_def)
  moreover obtain m where "seg (room_heap ?t) None (room_head ?t) as m None" "distinct as"
    using rooms_invD(1) [OF t] by (auto simp: list_ok_def)
  ultimately have "mix_rooms now (room_head ?t) ?t = Some (mixed now as ?t)" "held_inv (mixed now as ?t) hs"
    using mix_rooms_ends [OF _ t] by blast+
  with that [OF as q(2)] q(1) show ?thesis by (simp add: mixer_tick_def)
qed

end
