(* ===== verification/Console_Display.thy ===== *)
theory Console_Display
  imports Room_List
begin

text \<open>
  \<open>src/src/server/console_display.c\<close>: the status screen that a thread prints every second while the
  server is on. \<open>display_frame\<close> is one iteration of its loop with the time as an argument, and its
  result the text on standard output; \<open>None\<close> is a dangling pointer or a list of rooms without end.
\<close>

section \<open>Definitions\<close>

definition ansi_clear :: string where
  "ansi_clear = [escape] @ ''[2J'' @ [escape] @ ''[H''"

definition room_status :: "room \<Rightarrow> string" where
  "room_status r = ''  ['' @ print_nat (r_room_id r) @ ''] '' @ r_room_name r @ '' - '' @
     print_nat (r_participant_count r) @ '' users, '' @ print_int (r_active_speakers r) @ '' speakers'' @
     (if r_password r \<noteq> [] then '' (locked)'' else []) @ [newline]"

partial_function (option) room_lines :: "(addr \<rightharpoonup> room) \<Rightarrow> addr option \<Rightarrow> string option" where
  [code]: "room_lines h p =
     (case p of
        None \<Rightarrow> Some []
      | Some a \<Rightarrow>
          do { r \<leftarrow> h a;
               rest \<leftarrow> room_lines h (r_next r);
               Some (room_status r @ rest) })"

definition client_status :: "nat \<Rightarrow> client \<Rightarrow> string \<Rightarrow> string" where
  "client_status i c room = ''  ['' @ print_nat i @ ''] '' @
     (if c_user_id c \<noteq> - 1 then c_username c else ''(anon)'') @ '' (role:'' @ print_int (c_role c) @
     '') room:'' @ room @ [newline]"

fun client_lines :: "nat list \<Rightarrow> server \<Rightarrow> string option" where
  "client_lines [] s = Some []"
| "client_lines (i # is) s =
     do { p \<leftarrow> arr_get (clients s) i;
          line \<leftarrow> (case p of
                    None \<Rightarrow> Some []
                  | Some a \<Rightarrow>
                      do { c \<leftarrow> client_heap s a;
                           if c_is_active c then
                             do { room \<leftarrow> (case c_current_room c of
                                            None \<Rightarrow> Some ''none''
                                          | Some b \<Rightarrow> map_option r_room_name (room_heap s b));
                                  Some (client_status i c room) }
                           else Some [] });
          rest \<leftarrow> client_lines is s;
          Some (line @ rest) }"

definition open_or_closed :: "int \<Rightarrow> string" where
  "open_or_closed fd = (if fd \<noteq> - 1 then ''open'' else ''closed'')"

definition rule_line :: string where
  "rule_line = ''----------------------------------'' @ [newline]"

definition display_frame :: "int \<Rightarrow> server \<Rightarrow> string option" where
  "display_frame now s =
     do { rooms \<leftarrow> room_lines (room_heap s) (room_head s);
          cs \<leftarrow> client_lines [0..<MAX_CLIENTS] s;
          Some (ansi_clear @
            ''===== ECHOLINK SERVER STATUS ====='' @ [newline] @
            ''Uptime: '' @ print_int now @ '' ms | Port: '' @ print_int (server_port s) @ '' | Clients: '' @
            print_int (client_count s) @ ''/'' @ print_nat MAX_CLIENTS @ [newline] @
            rule_line @ ''Rooms ('' @ print_int (room_count s) @ '' active):'' @ [newline] @
            rooms @
            (if room_head s = None then ''  (no active rooms)'' @ [newline] else []) @
            rule_line @ ''Connected clients:'' @ [newline] @
            cs @
            rule_line @ ''Database: '' @ open_or_closed (rooms_fd (db s)) @ '' | WAL: '' @
            open_or_closed (wal_fd (db s)) @ '' | users: '' @ open_or_closed (users_fd (db s)) @ [newline] @
            ''Emergency FIFO: /tmp/echolink_emergency'' @ [newline] @
            ''Press Ctrl+C to stop the server'' @ [newline]) }"

text \<open>The loop over the moments at which the thread wakes up, until the server is off.\<close>

fun display_thread_main :: "(int \<times> server) list \<Rightarrow> string option" where
  "display_thread_main [] = Some []"
| "display_thread_main ((now, s) # wakes) =
     (if \<not> server_on s then Some []
      else do { frame \<leftarrow> display_frame now s;
                rest \<leftarrow> display_thread_main wakes;
                Some (frame @ rest) })"

section \<open>Facts\<close>

lemma room_lines_seg:
  "seg h q p as m None \<Longrightarrow> room_lines h p = Some (concat (map (\<lambda>a. room_status (the (h a))) as))"
proof (induction as arbitrary: q p)
  case Nil
  then show ?case by (subst room_lines.simps) simp
next
  case (Cons a as)
  then show ?case by (subst room_lines.simps) auto
qed

end
