(* ===== verification/Server_Main.thy ===== *)
theory Server_Main
  imports Network Audio_Mixer Console_Display
begin

text \<open>
  \<open>src/src/server/main.c\<close>: the start of the server, component after component, the main thread, and
  the end. What the system calls of the initialisation return is a record; an initialisation that
  fails ends the process with an exit code (\<open>Inl\<close>).
\<close>

section \<open>Starting\<close>

record boot =
  b_open_rooms :: int
  b_create_rooms :: int
  b_open_wal :: int
  b_create_wal :: int
  b_open_users :: int
  b_create_users :: int
  b_tcp_socket :: int
  b_bind_ok :: bool
  b_listen_ok :: bool
  b_udp_socket :: int
  b_udp_bind_ok :: bool
  b_epoll_create :: int
  b_add_tcp_ok :: bool
  b_add_udp_ok :: bool
  b_shm_open_ok :: bool
  b_ftruncate_ok :: bool
  b_mmap_ok :: bool
  b_mkfifo_ok :: bool
  b_fifo_open_ok :: bool

definition parse_port :: "string list \<Rightarrow> int" where
  "parse_port argv = (case argv of prog # port # _ \<Rightarrow> atoi port | _ \<Rightarrow> DEFAULT_PORT)"

abbreviation (input) WORKER_THREADS :: nat where "WORKER_THREADS \<equiv> 8"

text \<open>The workers, each with the task it has taken from the queue; at the start they have none.\<close>

definition client_handler_init :: "worker_task option list" where
  "client_handler_init = replicate WORKER_THREADS None"

definition server_boot :: "boot \<Rightarrow> string list \<Rightarrow> file_db \<Rightarrow> (int + server) option" where
  "server_boot b argv files =
     (let s = (server_zero files)\<lparr>server_port := parse_port argv\<rparr>
      in do { r1 \<leftarrow> file_db_init (b_open_rooms b) (b_create_rooms b) (b_open_wal b) (b_create_wal b) (db s);
              (case r1 of
                 Inl code \<Rightarrow> Some (Inl code)
               | Inr d \<Rightarrow>
                   (case auth_init (b_open_users b) (b_create_users b) d of
                      Inl code \<Rightarrow> Some (Inl code)
                    | Inr d \<Rightarrow>
                        (case network_init (b_tcp_socket b) (b_bind_ok b) (b_listen_ok b) (b_udp_socket b)
                            (b_udp_bind_ok b) (b_epoll_create b) (b_add_tcp_ok b) (b_add_udp_ok b)
                            (room_manager_init (s\<lparr>db := d\<rparr>)) of
                           Inl code \<Rightarrow> Some (Inl code)
                         | Inr s \<Rightarrow>
                             (case ipc_manager_init (b_shm_open_ok b) (b_ftruncate_ok b) (b_mmap_ok b)
                                 (b_mkfifo_ok b) (b_fifo_open_ok b) of
                                Inl code \<Rightarrow> Some (Inl code)
                              | Inr (q, fifo) \<Rightarrow> Some (Inr (audio_mixer_init (s\<lparr>ring := q\<rparr>))))))) })"

section \<open>Ending\<close>

fun close_clients :: "nat list \<Rightarrow> server \<Rightarrow> (resource list \<times> server) option" where
  "close_clients [] s = Some ([], s)"
| "close_clients (i # is) s =
     do { p \<leftarrow> arr_get (clients s) i;
          (case p of
             None \<Rightarrow> close_clients is s
           | Some c \<Rightarrow>
               do { cl \<leftarrow> client_heap s c;
                    if c_is_active cl then
                      do { s1 \<leftarrow> free_client c (s\<lparr>open_fds := remove1 (c_fd cl) (open_fds s)\<rparr>);
                           cs \<leftarrow> arr_set (clients s1) i None;
                           (res, s2) \<leftarrow> close_clients is (s1\<lparr>clients := cs\<rparr>);
                           Some (Fd (c_fd cl) # res, s2) }
                    else close_clients is s }) }"

definition fd_resources :: "int list \<Rightarrow> resource list" where
  "fd_resources fds = map Fd (filter (\<lambda>fd. fd \<noteq> - 1) fds)"

text \<open>The ring is mapped when the server was started; \<open>fifo_fd\<close> is the descriptor of the FIFO.\<close>

definition shutdown_server :: "int \<Rightarrow> server \<Rightarrow> (resource list \<times> server) option" where
  "shutdown_server fifo_fd s =
     do { (res, s1) \<leftarrow> close_clients [0..<MAX_CLIENTS] s;
          Some (res @ fd_resources [tcp_listen_fd s1, udp_fd s1, epoll_fd s1] @
            fd_resources [users_fd (db s1), rooms_fd (db s1), wal_fd (db s1)] @
            ipc_manager_cleanup True fifo_fd @
            [Mutex ''clients_mutex'', Mutex ''rooms_mutex'', Mutex ''jitter_mutex''], s1) }"

text \<open>
  The main thread, with what happens to it while it is in its loop: the process has exited during the
  start, it was killed by a signal, the thread is still in its loop, or it has shut down and returned.
  The steps of the other threads on the shared state are in \<open>Server_System\<close>.
\<close>

datatype main_result = Exited int | Killed int | In_Loop server | Returned "resource list" server

definition server_main :: "boot \<Rightarrow> string list \<Rightarrow> file_db \<Rightarrow> loop_input list \<Rightarrow> int \<Rightarrow> main_result option" where
  "server_main b argv files inputs fifo_fd =
     do { r \<leftarrow> server_boot b argv files;
          (case r of
             Inl code \<Rightarrow> Some (Exited code)
           | Inr s \<Rightarrow>
               do { l \<leftarrow> network_event_loop inputs s;
                    (case l of
                       Ended_By sig \<Rightarrow> Some (Killed sig)
                     | Waiting s1 \<Rightarrow> Some (In_Loop s1)
                     | Left s1 \<Rightarrow> map_option (\<lambda>(res, t). Returned res t) (shutdown_server fifo_fd s1)) }) }"

end
