(* ===== verification/Server_System.thy ===== *)
theory Server_System
  imports Network_Invariant Mixer_Invariant Server_Main
begin

text \<open>
  The running server: the network thread, eight workers, the mixer, the FIFO thread and signals take
  steps in any order on the shared state. Between taking a task and running it a worker holds the
  task, and anything may happen meanwhile, such as the disconnection of its client. Every reachable
  state satisfies the invariant, and no step is undefined in it.
\<close>

section \<open>Steps\<close>

datatype action =
    Net epoll_event
  | Take nat
  | Work nat "addr option"
  | Tick u32
  | Fifo "string option"
  | Sig int

type_synonym system = "server \<times> worker_task option list"

fun perform :: "action \<Rightarrow> system \<Rightarrow> system option" where
  "perform (Net ev) (s, ws) = map_option (\<lambda>t. (t, ws)) (handle_event ev s)"
| "perform (Take i) (s, ws) = map_option (\<lambda>(t, s1). (s1, ws[i := t])) (worker_take s)"
| "perform (Work i m) (s, ws) =
     do { w \<leftarrow> arr_get ws i; task \<leftarrow> w;
          map_option (\<lambda>t. (t, ws[i := None])) (run_task m task s) }"
| "perform (Tick now) (s, ws) = (if server_on s then map_option (\<lambda>t. (t, ws)) (mixer_tick now s) else Some (s, ws))"
| "perform (Fifo r) (s, ws) = Some (s\<lparr>server_on := fifo_step r (server_on s)\<rparr>, ws)"
| "perform (Sig sig) (s, ws) = (case deliver_signal sig s of Inl _ \<Rightarrow> None | Inr t \<Rightarrow> Some (t, ws))"

text \<open>
  What the environment guarantees: \<open>accept\<close> returns a descriptor that is not open, \<open>malloc\<close> an address
  that is not in use, \<open>recv\<close> at most one byte less than the buffer has; and the peers send datagrams
  whose \<open>payload_size\<close> fits the payload. The signals are those with a disposition of their own.
\<close>

definition event_ok :: "epoll_event \<Rightarrow> server \<Rightarrow> bool" where
  "event_ok ev s \<longleftrightarrow> (ev_accept ev \<noteq> - 1 \<longrightarrow> ev_accept ev \<notin> set (open_fds s)) \<and>
     (\<forall>n. ev_malloc ev = Some n \<longrightarrow> client_heap s n = None) \<and>
     (\<forall>bs. ev_recv ev = Some bs \<longrightarrow> length bs < MAX_PACKET_SIZE) \<and>
     (\<forall>pkt a n. ev_datagram ev = Some (pkt, a, n) \<longrightarrow> packet_ok pkt)"

fun action_ok :: "action \<Rightarrow> system \<Rightarrow> bool" where
  "action_ok (Net ev) (s, ws) = event_ok ev s"
| "action_ok (Take i) (s, ws) = (i < length ws \<and> ws ! i = None)"
| "action_ok (Work i m) (s, ws) =
     (i < length ws \<and> ws ! i \<noteq> None \<and> (\<forall>n. m = Some n \<longrightarrow> room_heap s n = None))"
| "action_ok (Tick now) (s, ws) = True"
| "action_ok (Fifo r) (s, ws) = True"
| "action_ok (Sig sig) (s, ws) = (sig = SIGINT \<or> sig = SIGPIPE)"

inductive sys_step :: "system \<Rightarrow> system \<Rightarrow> bool" where
  act: "action_ok a S \<Longrightarrow> perform a S = Some T \<Longrightarrow> sys_step S T"

inductive_cases sys_stepE: "sys_step S T"

text \<open>The files the server is started on: nothing left to recover, and no room recorded as active.\<close>

definition fresh_files :: "file_db \<Rightarrow> bool" where
  "fresh_files files \<longleftrightarrow> disk files = [] \<and> calls files = [] \<and> wal_log files = [] \<and>
     (\<forall>rec \<in> set (rooms_of files). rr_is_active rec = 0)"

definition sys_init :: "system \<Rightarrow> bool" where
  "sys_init S \<longleftrightarrow> (\<exists>b argv files. fresh_files files \<and>
     server_boot b argv files = Some (Inr (fst S)) \<and> snd S = client_handler_init)"

section \<open>The invariant\<close>

definition worker_holders :: "worker_task option list \<Rightarrow> addr list" where
  "worker_holders ws = map (\<lambda>w. the (task_c (the w))) (filter (\<lambda>w. w \<noteq> None) ws)"

definition workers_ok :: "worker_task option list \<Rightarrow> bool" where
  "workers_ok ws \<longleftrightarrow> length ws = WORKER_THREADS \<and>
     (\<forall>t. Some t \<in> set ws \<longrightarrow> task_c t \<noteq> None \<and> nul \<notin> set (task_command t))"

definition sys_inv :: "system \<Rightarrow> bool" where
  "sys_inv S \<longleftrightarrow> held_inv (fst S) (worker_holders (snd S)) \<and> workers_ok (snd S)"

lemma held_inv_mset:
  assumes "held_inv s hs" "mset hs' = mset hs"
  shows "held_inv s hs'"
proof -
  have "refs_inv (client_heap s) (hs' @ task_holders (tasks s))"
    using assms(2) mset_eq_setD [OF assms(2)]
    by (intro refs_inv_fewer [OF held_invD(3) [OF assms(1)]]) (auto simp flip: count_mset)
  with held_invD [OF assms(1)] show ?thesis by (simp add: held_inv_def)
qed

lemma worker_holders_update:
  assumes "i < length ws"
  shows "mset (worker_holders (ws[i := w])) + (case ws ! i of None \<Rightarrow> {#} | Some t \<Rightarrow> {#the (task_c t)#}) =
    mset (worker_holders ws) + (case w of None \<Rightarrow> {#} | Some t \<Rightarrow> {#the (task_c t)#})"
  using assms
proof (induction ws arbitrary: i)
  case (Cons v ws)
  show ?case
  proof (cases i)
    case 0
    then show ?thesis by (cases v; cases w) (simp_all add: worker_holders_def)
  next
    case (Suc j)
    with Cons show ?thesis by (cases v) (simp_all add: worker_holders_def)
  qed
qed simp

lemma workers_ok_update:
  "workers_ok ws \<Longrightarrow> (\<And>t. w = Some t \<Longrightarrow> task_c t \<noteq> None \<and> nul \<notin> set (task_command t)) \<Longrightarrow> workers_ok (ws[i := w])"
  using set_update_subset_insert [of ws i w] by (auto simp: workers_ok_def)

lemma event_safe:
  assumes "held_inv s hs" "event_ok ev s"
  shows "safe (handle_event ev s) hs"
proof -
  note E = assms(2) [unfolded event_ok_def]
  have "safe (accept_new_client (ev_accept ev) (ev_malloc ev) s) hs"
    by (rule accept_safe [OF assms(1)]) (use E in auto)
  moreover have "safe (handle_udp_packet (ev_datagram ev) s) hs"
    by (rule udp_safe [OF assms(1)]) (use E in auto)
  moreover have "safe (handle_tcp_command (ev_fd ev) (ev_recv ev) s) hs"
    by (rule tcp_safe [OF assms(1)]) (use E in auto)
  ultimately show ?thesis using assms(1) by (auto simp: handle_event_def safe_def)
qed

lemma held_switch [simp]: "held_inv (s\<lparr>server_on := b\<rparr>) hs = held_inv s hs"
  using rooms_inv_cong [of "s\<lparr>server_on := b\<rparr>" s] by (simp add: held_inv_def)

lemma take_safe:
  assumes "held_inv s (worker_holders ws)" "workers_ok ws" "i < length ws" "ws ! i = None"
  shows "\<exists>T. perform (Take i) (s, ws) = Some T \<and> sys_inv T"
  using assms(1)
proof (cases rule: worker_take_safe)
  case 1
  have "ws[i := None] = ws" using assms(4) by (metis list_update_id)
  with 1 assms(1,2) show ?thesis by (simp add: sys_inv_def)
next
  case (2 t s' c)
  have "mset (worker_holders (ws[i := Some t])) = mset (c # worker_holders ws)"
    using worker_holders_update [OF assms(3), of "Some t"] assms(4) 2(2) by simp
  with 2(4) have "held_inv s' (worker_holders (ws[i := Some t]))" by (rule held_inv_mset)
  moreover have "workers_ok (ws[i := Some t])" by (rule workers_ok_update [OF assms(2)]) (use 2 in auto)
  ultimately show ?thesis using 2(1) by (simp add: sys_inv_def)
qed

lemma work_safe:
  assumes "held_inv s (worker_holders ws)" "workers_ok ws" "i < length ws" "ws ! i = Some t"
    "\<And>n. m = Some n \<Longrightarrow> room_heap s n = None"
  shows "\<exists>T. perform (Work i m) (s, ws) = Some T \<and> sys_inv T"
proof -
  have "Some t \<in> set ws" using assms(3,4) by (metis nth_mem)
  then obtain c where c: "task_c t = Some c" "nul \<notin> set (task_command t)"
    using assms(2) by (auto simp: workers_ok_def)
  have "mset (c # worker_holders (ws[i := None])) = mset (worker_holders ws)"
    using worker_holders_update [OF assms(3), of None] assms(4) c(1) by simp
  then have "held_inv s (c # worker_holders (ws[i := None]))" by (rule held_inv_mset [OF assms(1)])
  then have "safe (run_task m t s) (worker_holders (ws[i := None]))" by (rule run_task_safe [OF _ c assms(5)])
  then obtain s' where "run_task m t s = Some s'" "held_inv s' (worker_holders (ws[i := None]))"
    by (auto simp: safe_def)
  moreover have "workers_ok (ws[i := None])" by (rule workers_ok_update [OF assms(2)]) simp
  ultimately show ?thesis using assms(3,4) by (simp add: sys_inv_def mem_simps)
qed

lemma tick_safe: "held_inv s hs \<Longrightarrow> \<exists>t. mixer_tick now s = Some t \<and> held_inv t hs"
  by (erule mixer_tick_runs [where now = now]) blast

lemma perform_safe:
  assumes "sys_inv S" "action_ok a S"
  shows "\<exists>T. perform a S = Some T \<and> sys_inv T"
proof -
  obtain s ws where S: "S = (s, ws)" by (cases S)
  with assms(1) have inv: "held_inv s (worker_holders ws)" "workers_ok ws" by (simp_all add: sys_inv_def)
  show ?thesis
  proof (cases a)
    case (Net ev)
    with event_safe [OF inv(1)] assms(2) S inv(2) show ?thesis by (fastforce simp: safe_def sys_inv_def)
  next
    case (Take i)
    with take_safe [OF inv] assms(2) S show ?thesis by simp
  next
    case (Work i m)
    with work_safe [OF inv] assms(2) S show ?thesis by auto
  next
    case (Tick now)
    with tick_safe [OF inv(1), of now] inv S show ?thesis by (auto simp: sys_inv_def)
  next
    case (Fifo r)
    with inv S show ?thesis by (simp add: sys_inv_def)
  next
    case (Sig sig)
    with inv S assms(2) show ?thesis by (auto simp: sys_inv_def deliver_signal_def handle_signal_def)
  qed
qed

section \<open>The start\<close>

lemma file_db_init_fresh:
  assumes "file_db_init a b c e d = Some (Inr d')" "disk d = []" "calls d = []" "wal_log d = []"
  shows "db_ready d' \<and> rooms_bin d' = rooms_bin d"
  using assms by (auto simp: file_db_init_def Let_def wal_recover_def db_ready_def split: if_splits)

lemma auth_init_keeps:
  assumes "auth_init a b d = Inr d'" "db_ready d"
  shows "db_ready d' \<and> rooms_bin d' = rooms_bin d"
  using assms by (auto simp: auth_init_def put_user_def db_ready_def sys_write_full split: if_splits)

lemma boot_state:
  assumes "server_boot b argv files = Some (Inr s)"
  obtains d d' where "file_db_init (b_open_rooms b) (b_create_rooms b) (b_open_wal b) (b_create_wal b)
        (db (server_zero files)) = Some (Inr d)"
    "auth_init (b_open_users b) (b_create_users b) d = Inr d'" "db s = d'"
    "room_heap s = Map.empty" "room_head s = None" "room_count s = 0" "client_heap s = Map.empty"
    "clients s = replicate MAX_CLIENTS None" "client_count s = 0" "fd_to_slot s = replicate FD_MAP_SIZE (- 1)"
    "open_fds s = []" "tasks s = task_queue_init" "ring s = ring_zero" "jitter_buffers s = replicate MAX_CLIENTS jitter_zero"
    "room_speaker_sem s = replicate MAX_ROOMS 10" "server_on s"
    "tcp_listen_fd s = b_tcp_socket b" "udp_fd s = b_udp_socket b"
proof -
  from assms obtain d where d: "file_db_init (b_open_rooms b) (b_create_rooms b) (b_open_wal b) (b_create_wal b)
        (db (server_zero files)) = Some (Inr d)"
    by (auto simp: server_boot_def Let_def elim!: bind_eq_SomeE split: sum.splits)
  with assms obtain d' where "auth_init (b_open_users b) (b_create_users b) d = Inr d'"
    by (auto simp: server_boot_def Let_def split: sum.splits)
  with d that assms show ?thesis
    by (auto simp: server_boot_def Let_def network_init_def ipc_manager_init_def room_manager_init_def
        audio_mixer_init_def server_zero_def split: sum.splits if_splits)
qed

lemma empty_table_inv: "table_inv (replicate MAX_CLIENTS None) 0 (replicate FD_MAP_SIZE (- 1)) [] Map.empty"
  by (simp add: table_inv_def)

lemma boot_inv:
  assumes "server_boot b argv files = Some (Inr s)" "fresh_files files"
  shows "held_inv s []"
  using assms(1)
proof (rule boot_state)
  fix d d' assume d: "file_db_init (b_open_rooms b) (b_create_rooms b) (b_open_wal b) (b_create_wal b)
        (db (server_zero files)) = Some (Inr d)" "auth_init (b_open_users b) (b_create_users b) d = Inr d'" "db s = d'"
    and rooms: "room_heap s = Map.empty" "room_head s = None" "room_count s = 0"
    and cl: "client_heap s = Map.empty" "clients s = replicate MAX_CLIENTS None" "client_count s = 0"
      "fd_to_slot s = replicate FD_MAP_SIZE (- 1)" "open_fds s = []"
    and rest: "tasks s = task_queue_init" "ring s = ring_zero" "jitter_buffers s = replicate MAX_CLIENTS jitter_zero"
      "room_speaker_sem s = replicate MAX_ROOMS 10"
  have "db_ready d'" "rooms_bin d' = rooms_bin files"
    using file_db_init_fresh [OF d(1)] auth_init_keeps [OF d(2)] assms(2)
    by (simp_all add: fresh_files_def server_zero_def)
  moreover have H: "room_table s = Map.empty" using rooms(1) by (simp add: room_table_def fun_eq_iff)
  ultimately have "on_disk (room_table s) (db s)"
    using d(3) assms(2) by (simp add: on_disk_def mirrors_def fresh_files_def)
  moreover have "list_ok s []" using rooms by (simp add: list_ok_def)
  moreover have "rooms_ok (room_table s)" "linked (room_table s) (client_heap s)"
    using H cl(1) by (simp_all add: rooms_ok_def linked_def)
  ultimately have "rooms_inv s []" by (simp add: rooms_inv_def)
  moreover have "refs_inv (client_heap s) ([] @ task_holders (tasks s))" "tasks_ok (tasks s)"
    using cl(1) rest(1) by (simp_all add: refs_inv_def task_holders_def tasks_ok_def)
  moreover have "audio_inv (ring s) (jitter_buffers s) (room_speaker_sem s)"
    using rest(2-4) ring_zero_inv by (simp add: audio_inv_def)
  ultimately show ?thesis using empty_table_inv cl by (auto simp: held_inv_def)
qed

lemma init_inv: "sys_init S \<Longrightarrow> sys_inv S"
  using boot_inv by (auto simp: sys_init_def sys_inv_def client_handler_init_def worker_holders_def workers_ok_def)

interpretation voice_server: invariant_system sys_init sys_step sys_inv
proof
  show "sys_inv S" if "sys_init S" for S by (rule init_inv [OF that])
  show "sys_inv T" if "sys_inv S" "sys_step S T" for S T
    using that(2) perform_safe [OF that(1)] by (elim sys_stepE) fastforce
qed

abbreviation sys_reachable :: "system \<Rightarrow> bool" where
  "sys_reachable \<equiv> reachable sys_init sys_step"

lemma reachable_held: "sys_reachable (s, ws) \<Longrightarrow> held_inv s (worker_holders ws)"
  using voice_server.reachable_inv [of "(s, ws)"] by (simp add: sys_inv_def)

end
