(* ===== verification/Example_Run.thy ===== *)
theory Example_Run
  imports Server_System
begin

text \<open>
  A short run of the server, used by the witnesses: it boots on empty files, a client connects, a room
  is opened and the client joins it.
\<close>

section \<open>Booting\<close>

definition demo_boot :: boot where
  "demo_boot = \<lparr>b_open_rooms = 10, b_create_rooms = - 1, b_open_wal = 11, b_create_wal = - 1,
     b_open_users = - 1, b_create_users = 12, b_tcp_socket = 3, b_bind_ok = True, b_listen_ok = True,
     b_udp_socket = 4, b_udp_bind_ok = True, b_epoll_create = 5, b_add_tcp_ok = True, b_add_udp_ok = True,
     b_shm_open_ok = True, b_ftruncate_ok = True, b_mmap_ok = True, b_mkfifo_ok = True, b_fifo_open_ok = True\<rparr>"

definition first_server :: server where
  "first_server = (case server_boot demo_boot [] example_db of Some (Inr s) \<Rightarrow> s | _ \<Rightarrow> server_zero example_db)"

lemma boot_demo: "server_boot demo_boot [] example_db = Some (Inr first_server)"
  by (simp add: first_server_def server_boot_def demo_boot_def file_db_init_def wal_recover_def server_zero_def
      example_db_def auth_init_def network_init_def ipc_manager_init_def)

lemma fresh_example: "fresh_files example_db"
  by (simp add: fresh_files_def example_db_def file_records_def)

lemma first_server_facts:
  "held_inv first_server []" "sys_init (first_server, client_handler_init)" "server_on first_server"
  "room_heap first_server = Map.empty" "client_heap first_server = Map.empty" "room_count first_server = 0"
  "clients first_server = replicate 50 None" "client_count first_server = 0" "room_head first_server = None"
  "fd_to_slot first_server = replicate 4096 (- 1)" "open_fds first_server = []" "tcp_listen_fd first_server = 3"
  "udp_fd first_server = 4" "tasks first_server = task_queue_init" "ring first_server = ring_zero"
proof -
  show "held_inv first_server []" by (rule boot_inv [OF boot_demo fresh_example])
  show "sys_init (first_server, client_handler_init)" using boot_demo fresh_example by (auto simp: sys_init_def)
qed (rule boot_state [OF boot_demo]; simp add: demo_boot_def)+

lemma first_db: "db first_server = example_db\<lparr>rooms_fd := 10, wal_fd := 11, wal_pos := 0, users_fd := 12,
    users_bin := enc_user admin_record\<rparr>"
proof -
  have "length (enc_user admin_record) = 124"
    by (rule user_file.enc_length) (simp add: user_record_ok_def admin_record_def in_i32_def fits_def)
  then show ?thesis
    by (simp add: first_server_def server_boot_def demo_boot_def file_db_init_def wal_recover_def server_zero_def
        example_db_def auth_init_def network_init_def ipc_manager_init_def put_user_def sys_write_def
        audio_mixer_init_def room_manager_init_def overwrite_def)
qed

section \<open>A client\<close>

definition accept_event :: epoll_event where
  "accept_event = \<lparr>ev_fd = 3, ev_readable = True, ev_accept = 7, ev_malloc = Some 100, ev_recv = None,
     ev_datagram = None\<rparr>"

definition demo_server :: server where
  "demo_server = first_server\<lparr>client_heap := [100 \<mapsto> new_client 7 0], clients := (replicate 50 None)[0 := Some 100],
     client_count := 1, fd_to_slot := (replicate 4096 (- 1))[7 := 0], open_fds := [7]\<rparr>"

lemma first_free_replicate: "0 < n \<Longrightarrow> first_free_slot i (replicate n None) = Some i"
  by (cases n) simp_all

lemma accept_demo: "handle_event accept_event first_server = Some demo_server"
  using first_server_facts
  by (simp add: handle_event_def accept_event_def accept_new_client_def first_free_replicate mem_simps in_fd_map_def
      demo_server_def)

lemma demo_step: "action_ok (Net accept_event) (first_server, client_handler_init)"
  using first_server_facts by (simp add: event_ok_def accept_event_def)

lemma demo_reachable: "sys_reachable (first_server, client_handler_init)" "sys_reachable (demo_server, client_handler_init)"
proof -
  show first: "sys_reachable (first_server, client_handler_init)" by (rule reach_init) (rule first_server_facts)
  have "sys_step (first_server, client_handler_init) (demo_server, client_handler_init)"
    by (rule act [OF demo_step]) (simp add: accept_demo)
  with first show "sys_reachable (demo_server, client_handler_init)" by (rule reach_step)
qed

lemma no_holders [simp]: "worker_holders client_handler_init = []"
  by (simp add: worker_holders_def client_handler_init_def)

lemma demo_facts:
  "held_inv demo_server []" "client_heap demo_server = [100 \<mapsto> new_client 7 0]" "room_heap demo_server = Map.empty"
  "room_head demo_server = None" "room_count demo_server = 0" "db demo_server = db first_server"
  "clients demo_server ! 0 = Some 100" "ring demo_server = ring_zero" "tasks demo_server = task_queue_init"
  "open_fds demo_server = [7]" "tcp_listen_fd demo_server = 3" "udp_fd demo_server = 4"
  using reachable_held [OF demo_reachable(2)] first_server_facts by (simp_all add: demo_server_def)

lemma new_client_facts [simp]:
  "c_fd (new_client fd i) = fd" "c_slot (new_client fd i) = i" "c_user_id (new_client fd i) = - 1"
  "c_current_room (new_client fd i) = None" "c_is_active (new_client fd i)" "\<not> c_is_mute (new_client fd i)"
  "c_ref_count (new_client fd i) = 1"
  by (simp_all add: new_client_def)

lemma demo_rooms: "rooms_inv demo_server []"
proof -
  obtain as where as: "rooms_inv demo_server as" using held_invD(1) [OF demo_facts(1)] by blast
  then have "set as = {}" using rooms_invD(1) [OF as] demo_facts(3) by (simp add: list_ok_def)
  with as show ?thesis by simp
qed

lemma demo_login: "auth_authenticate ''admin'' ''admin123'' (db demo_server) = Some (Some ROLE_ADMIN)"
proof -
  have ok: "user_record_ok admin_record" by (simp add: user_record_ok_def admin_record_def in_i32_def fits_def)
  have db: "users_bin (db demo_server) = enc_user admin_record" "users_fd (db demo_server) = 12"
      "disk (db demo_server) = []" "calls (db demo_server) = []"
    by (simp_all add: demo_facts first_db example_db_def)
  have rs: "users_of (db demo_server) = [admin_record]"
    using user_file.records_append [OF ok, of "[]"] db(1) by (simp add: file_records_def)
  have ready: "users_ready (db demo_server)"
    using rs ok db user_file.enc_length [OF ok] by (simp add: users_ready_def)
  have "lookup_user ''admin'' (db demo_server) = Some admin_record"
    using rs db(2) by (simp add: lookup_user_def user_scan_def admin_record_def)
  then show ?thesis
    by (simp add: auth_authenticate_lookup [OF ready]) (simp add: admin_record_def role_number_def)
qed

lemma demo_args: "scan_words 31 63 (Some ''admin admin123'') = (''admin'', ''admin123'')"
  by code_simp

section \<open>A room\<close>

definition room_server :: server where
  "room_server = snd (the (room_create (Some 200) ''lobby'' [] 100 demo_server))"

lemma room_create_id:
  "room_create m name password c s = Some (int k, t) \<Longrightarrow> k = db_next_free_room_id (db s)"
  by (auto simp: room_create_def Let_def elim!: bind_eq_SomeE split: if_splits option.splits)

lemma room_demo:
  "room_create (Some 200) ''lobby'' [] 100 demo_server = Some (0, room_server)"
  "rooms_inv room_server [200]" "room_table room_server = [200 \<mapsto> room_data (new_room 0 ''lobby'' [])]"
  "client_heap room_server = client_heap demo_server" "held_inv room_server []"
  "\<exists>p h n d. room_server = demo_server\<lparr>room_head := p, room_heap := h, room_count := n, db := d\<rparr>"
proof -
  obtain k h p d s' where s': "room_create (Some 200) ''lobby'' [] 100 demo_server = Some (int k, s')" "k < 32"
      "s' = demo_server\<lparr>room_head := p, room_heap := h, room_count := room_count demo_server + 1, db := d\<rparr>"
      "rooms_inv s' ([] @ [200])" "same_users (db demo_server) d"
      "room_table s' = (room_table demo_server)(200 \<mapsto> room_data (new_room k ''lobby'' []))"
    using room_create_new [OF demo_rooms, of "''lobby''" "[]" 200 100] demo_facts by (auto simp: fits_def)
  have is_s: "room_server = s'" using s'(1) by (simp add: room_server_def)
  have heap: "client_heap room_server = client_heap demo_server" unfolding is_s s'(3) by simp
  show "held_inv room_server []"
    by (rule held_room_change [OF demo_facts(1) s'(4) [folded is_s]]) (simp_all add: is_s s'(3))
  have none: "room_table demo_server = Map.empty" using demo_facts(3) by (simp add: room_table_def fun_eq_iff)
  have "db_next_free_room_id (db demo_server) = 0"
    by (simp add: demo_facts first_db db_next_free_room_id_def example_db_def file_records_def)
  then have "k = 0" using room_create_id [OF s'(1)] by simp
  then show "room_create (Some 200) ''lobby'' [] 100 demo_server = Some (0, room_server)"
    "rooms_inv room_server [200]" "room_table room_server = [200 \<mapsto> room_data (new_room 0 ''lobby'' [])]"
    "client_heap room_server = client_heap demo_server"
    using s'(1,4,6) is_s none by (simp_all add: heap)
  show "\<exists>p h n d. room_server = demo_server\<lparr>room_head := p, room_heap := h, room_count := n, db := d\<rparr>"
    using is_s s'(3) by blast
qed

section \<open>A participant\<close>

definition joined_server :: server where
  "joined_server = snd (the (room_join 0 [] 100 room_server))"

lemma joined_demo:
  "\<exists>cl. client_heap joined_server 100 = Some cl \<and> c_is_active cl \<and> c_current_room cl = Some 200 \<and> c_slot cl = 0"
  "rooms_inv joined_server [200]" "room_join 0 [] 100 room_server = Some (0, joined_server)"
  "\<exists>r. room_table joined_server 200 = Some r \<and> members r = [100]" "held_inv joined_server []"
  "client_heap joined_server = [100 \<mapsto> (new_client 7 0)\<lparr>c_current_room := Some 200\<rparr>]"
  "\<exists>r. room_heap joined_server 200 = Some r \<and> members r = [100] \<and> r_password r = []"
  "clients joined_server = clients demo_server" "client_count joined_server = client_count demo_server"
  "fd_to_slot joined_server = fd_to_slot demo_server" "open_fds joined_server = open_fds demo_server"
  "tcp_listen_fd joined_server = tcp_listen_fd demo_server" "udp_fd joined_server = udp_fd demo_server"
  "ring joined_server = ring demo_server" "jitter_buffers joined_server = jitter_buffers demo_server"
  "server_on joined_server = server_on demo_server"
proof -
  have cl: "client_heap room_server 100 = Some (new_client 7 0)" using room_demo(4) demo_facts(2) by simp
  obtain r where r: "room_heap room_server 200 = Some r" "room_data r = room_data (new_room 0 ''lobby'' [])"
    using room_demo(3) by (auto simp: room_table_def fun_eq_iff split: if_splits)
  have f: "r_room_id r = 0" "r_password r = []" "members r = []"
    using r(2) new_room_facts [of 0 "''lobby''" "[]"]
    by (metis room_data_fields(1), metis room_data_fields(3), metis room_data_ok(1))
  obtain h d r1 s' where s': "room_join (r_room_id r) [] 100 room_server = Some (0, s')"
      "s' = room_server\<lparr>room_heap := h, db := d,
        client_heap := (client_heap room_server)(100 \<mapsto> (new_client 7 0)\<lparr>c_current_room := Some 200\<rparr>)\<rparr>"
      "rooms_inv s' [200]" "room_table s' = (room_table room_server)(200 \<mapsto> r1)" "members r1 = members r @ [100]"
      "r_password r1 = r_password r"
    using room_join_enter [OF room_demo(2) cl _ _ r(1), of "[]"] f by auto
  have is_s: "joined_server = s'" using s'(1) f by (simp add: joined_server_def)
  have "same_shapes (client_heap room_server) (client_heap s')"
    unfolding s'(2) using cl by (simp add: same_shapes_def shape_def)
  then show "held_inv joined_server []"
    unfolding is_s by (rule held_room_change [OF room_demo(5) s'(3)]) (simp_all add: s'(2))
  have "client_heap s' 100 = Some ((new_client 7 0)\<lparr>c_current_room := Some 200\<rparr>)" unfolding s'(2) by simp
  then show "\<exists>cl. client_heap joined_server 100 = Some cl \<and> c_is_active cl \<and> c_current_room cl = Some 200 \<and> c_slot cl = 0"
    unfolding is_s by simp
  show "rooms_inv joined_server [200]" "room_join 0 [] 100 room_server = Some (0, joined_server)"
    and tab: "\<exists>r. room_table joined_server 200 = Some r \<and> members r = [100]"
    using s'(1,3,4,5) f is_s by simp_all
  show "client_heap joined_server = [100 \<mapsto> (new_client 7 0)\<lparr>c_current_room := Some 200\<rparr>]"
    unfolding is_s s'(2) using room_demo(4) demo_facts(2) by simp
  obtain p' h' n' d' where room: "room_server = demo_server\<lparr>room_head := p', room_heap := h', room_count := n', db := d'\<rparr>"
    using room_demo(6) by blast
  show "clients joined_server = clients demo_server" "client_count joined_server = client_count demo_server"
    "fd_to_slot joined_server = fd_to_slot demo_server" "open_fds joined_server = open_fds demo_server"
    "tcp_listen_fd joined_server = tcp_listen_fd demo_server" "udp_fd joined_server = udp_fd demo_server"
    "ring joined_server = ring demo_server" "jitter_buffers joined_server = jitter_buffers demo_server"
    "server_on joined_server = server_on demo_server"
    unfolding is_s s'(2) room by simp_all
  have "room_table joined_server 200 = Some r1" using s'(4) is_s by simp
  then obtain r2 where "room_heap joined_server 200 = Some r2" "room_data r2 = r1" by (auto simp: room_table_def)
  then show "\<exists>r. room_heap joined_server 200 = Some r \<and> members r = [100] \<and> r_password r = []"
    using s'(5,6) f by auto
qed

end
