(* ===== verification/Room_Properties.thy ===== *)
theory Room_Properties
  imports Example_Run Wal_Recovery
begin

text \<open>
  What the operations on rooms promise, with the room file: creating, joining and leaving, on every
  branch. The rooms are seen as \<open>room_table\<close>, the map from addresses to rooms without their links.
\<close>

section \<open>Facts\<close>

lemma rooms_limit:
  assumes "rooms_inv s as"
  shows "length as \<le> MAX_ROOMS"
proof -
  note R = rooms_invD [OF assms]
  let ?id = "\<lambda>a. r_room_id (the (room_table s a))"
  have room: "\<exists>r. room_table s a = Some r" if "a \<in> set as" for a
    using that list_ok_mem [OF R(1)] by (auto simp: room_table_def)
  have "inj_on ?id (set as)"
  proof (rule inj_onI)
    fix a b assume ab: "a \<in> set as" "b \<in> set as" "?id a = ?id b"
    then obtain r r' where "room_table s a = Some r" "room_table s b = Some r'" using room by blast
    with ab(3) R(2) show "a = b" unfolding rooms_ok_def by (metis option.sel)
  qed
  moreover have "?id ` set as \<subseteq> {..<32}"
  proof
    fix i assume "i \<in> ?id ` set as"
    then obtain a r where "room_table s a = Some r" "i = r_room_id r" using room by fastforce
    with R(2) show "i \<in> {..<32}" by (auto simp: rooms_ok_def room_ok_def)
  qed
  ultimately have "card (set as) \<le> card {..<32 :: nat}" by (intro card_inj_on_le) auto
  then show ?thesis using R(1) by (simp add: list_ok_def distinct_card)
qed

lemma room_find_by_name_spec:
  assumes "rooms_inv s as"
  shows "\<exists>f. room_find_by_name name s = Some f \<and> (f = None \<longleftrightarrow> (\<nexists>a r. room_heap s a = Some r \<and> r_room_name r = name))"
  unfolding room_find_by_name_def using rooms_invD(1) [OF assms]
  by (cases rule: find_room_cases [where P = "\<lambda>r. r_room_name r = name"]) auto

text \<open>The id of a new room, seen from the rooms in memory: the least that no room has.\<close>

lemma next_id_least:
  assumes "mirrors (room_table s) (rooms_of (db s))" "rooms_fd (db s) \<noteq> - 1"
  defines "k \<equiv> db_next_free_room_id (db s)"
  shows "\<nexists>a r. room_heap s a = Some r \<and> r_room_id r = k"
    "j < k \<Longrightarrow> \<exists>a r. room_heap s a = Some r \<and> r_room_id r = j" "k \<le> length (rooms_of (db s))"
proof -
  have k: "k = next_free 0 (rooms_of (db s))" using assms(2) by (simp add: k_def db_next_free_room_id_def)
  note free = next_free_props [of 0 "rooms_of (db s)", folded k]
  have table: "(\<exists>a r. room_table s a = Some r \<and> r_room_id r = j) \<longleftrightarrow> (\<exists>a r. room_heap s a = Some r \<and> r_room_id r = j)" for j
  proof -
    have "(\<exists>r. room_table s a = Some r \<and> r_room_id r = j) \<longleftrightarrow> (\<exists>r. room_heap s a = Some r \<and> r_room_id r = j)" for a
      by (cases "room_heap s a") (simp_all add: room_table_def)
    then show ?thesis by blast
  qed
  show "k \<le> length (rooms_of (db s))" using free by simp
  have "\<nexists>a r. room_table s a = Some r \<and> r_room_id r = k"
    using assms(1) free unfolding mirrors_def record_of_def by fastforce
  then show "\<nexists>a r. room_heap s a = Some r \<and> r_room_id r = k" unfolding table .
  show "\<exists>a r. room_heap s a = Some r \<and> r_room_id r = j" if "j < k"
    using assms(1) free that unfolding mirrors_def table [symmetric] by auto
qed

lemma room_create_enters:
  assumes "rooms_inv s as" "fits MAX_ROOM_NAME_LEN name" "fits MAX_PASSWORD_LEN password"
    "client_heap s c \<noteq> None" "room_heap s n = None"
    "\<nexists>a r. room_heap s a = Some r \<and> r_room_name r = name" "length as \<noteq> MAX_ROOMS"
  shows "\<exists>k t. room_create (Some n) name password c s = Some (int k, t) \<and>
    (\<nexists>a r. room_heap s a = Some r \<and> r_room_id r = k) \<and> (\<forall>j < k. \<exists>a r. room_heap s a = Some r \<and> r_room_id r = j) \<and>
    k < MAX_ROOMS \<and> rooms_inv t (as @ [n]) \<and>
    room_table t = (room_table s)(n \<mapsto> room_data (new_room k name password)) \<and>
    db_read_room k (db t) = Some (new_room_record k name password)"
proof -
  have "\<forall>a r. room_heap s a = Some r \<longrightarrow> r_room_name r \<noteq> name" "length as < 32"
    using assms(6,7) rooms_limit [OF assms(1)] by auto
  from room_create_new [OF assms(1-3,5,4) this] obtain k t
    where t: "room_create (Some n) name password c s = Some (int k, t)" "k < 32" "rooms_inv t (as @ [n])"
      "room_table t = (room_table s)(n \<mapsto> room_data (new_room k name password))" by blast
  have "db_read_room k (db t) = Some (new_room_record k name password)"
    using on_disk_read(2) [OF rooms_invD(4) [OF t(3)], of n "room_data (new_room k name password)"] t(4)
    by (simp add: new_room_facts)
  moreover have "mirrors (room_table s) (rooms_of (db s))" "rooms_fd (db s) \<noteq> - 1"
    using rooms_invD(4) [OF assms(1)] by (simp_all add: on_disk_def db_ready_def)
  from next_id_least [OF this] have "\<nexists>a r. room_heap s a = Some r \<and> r_room_id r = k"
      "\<forall>j < k. \<exists>a r. room_heap s a = Some r \<and> r_room_id r = j"
    using room_create_id [OF t(1)] by simp_all
  ultimately show ?thesis using t by blast
qed

section \<open>Properties\<close>

text \<open>
  C11: creating a room while the room file can be written. A name in use is refused (-1), and so is a room
  beyond the limit of 32 (-2) or without memory (-3), and then nothing changes. Otherwise the room is
  entered at the end of the list with the least id that no room has, which is below 32, without
  participants, and the room file has its record; no other room changes and the invariant of the rooms
  is kept.
\<close>

theorem room_create_spec:
  assumes "rooms_inv s as" "fits MAX_ROOM_NAME_LEN name" "fits MAX_PASSWORD_LEN password"
    "client_heap s c \<noteq> None" "\<And>n. m = Some n \<Longrightarrow> room_heap s n = None"
  shows "if \<exists>a r. room_heap s a = Some r \<and> r_room_name r = name then room_create m name password c s = Some (- 1, s)
    else if length as = MAX_ROOMS then room_create m name password c s = Some (- 2, s)
    else case m of
      None \<Rightarrow> room_create m name password c s = Some (- 3, s)
    | Some n \<Rightarrow> (\<exists>k t. room_create m name password c s = Some (int k, t) \<and>
        (\<nexists>a r. room_heap s a = Some r \<and> r_room_id r = k) \<and> (\<forall>j < k. \<exists>a r. room_heap s a = Some r \<and> r_room_id r = j) \<and>
        k < MAX_ROOMS \<and> rooms_inv t (as @ [n]) \<and>
        room_table t = (room_table s)(n \<mapsto> room_data (new_room k name password)) \<and>
        db_read_room k (db t) = Some (new_room_record k name password))"
proof -
  have count: "room_count s = int (length as)" using rooms_invD(1) [OF assms(1)] by (simp add: list_ok_def)
  obtain f where f: "room_find_by_name name s = Some f"
      "f = None \<longleftrightarrow> (\<nexists>a r. room_heap s a = Some r \<and> r_room_name r = name)"
    using room_find_by_name_spec [OF assms(1), of name] by blast
  show ?thesis
  proof (cases "f = None \<and> length as \<noteq> 32")
    case True
    then have free: "\<nexists>a r. room_heap s a = Some r \<and> r_room_name r = name" "length as \<noteq> 32" using f(2) by auto
    show ?thesis
    proof (cases m)
      case None
      have "room_create None name password c s = Some (- 3, s)"
        using f(1) True count rooms_limit [OF assms(1)] by (simp add: room_create_def)
      with None free show ?thesis by simp
    next
      case (Some n)
      from room_create_enters [OF assms(1-4) assms(5) [OF Some] free] show ?thesis
        by (simp only: if_not_P [OF free(1)] if_not_P [OF free(2)] Some option.case)
    qed
  next
    case False
    then show ?thesis using f count by (auto simp: room_create_def)
  qed
qed

text \<open>
  Creating a room whose record cannot be written (the write stops after \<open>n\<close> bytes) is refused with -4:
  no room is entered, and after the rollback every record of the room file is as before. The conditions
  on the log are those of a rollback that works: fewer than 128 complete transactions, none about this id,
  and a former record of this id, if there is one, with a non-empty name and password.
\<close>

theorem room_create_write_fails:
  assumes "rooms_inv (s\<lparr>db := (db s)\<lparr>disk := []\<rparr>\<rparr>) as" "write_fails n (db s)"
    "fits MAX_ROOM_NAME_LEN name" "fits MAX_PASSWORD_LEN password" "newline \<notin> set name" "newline \<notin> set password"
    "\<nexists>a r. room_heap s a = Some r \<and> r_room_name r = name" "length as < MAX_ROOMS"
    "wal_log (db s) = log_text (log_lines txns)" "\<forall>t \<in> set txns. txn_ok t" "length txns < 128"
    "db_next_free_room_id (db s) \<notin> fst ` set txns"
    "\<forall>r. db_read_room_raw (db_next_free_room_id (db s)) (db s) = Some r \<longrightarrow> restorable r"
  shows "\<exists>d. room_create (Some m) name password c s = Some (- 4, s\<lparr>db := d\<rparr>) \<and>
    (\<forall>j. db_read_room j d = db_read_room j (db s))"
proof -
  let ?k = "db_next_free_room_id (db s)" let ?rec = "new_room_record ?k name password"
  note R = rooms_invD [OF assms(1)]
  have list: "list_ok s as" using R(1) by (simp add: list_ok_def room_table_def)
  have "room_table (s\<lparr>db := (db s)\<lparr>disk := []\<rparr>\<rparr>) = room_table s" by (simp add: room_table_def fun_eq_iff)
  then have disk: "mirrors (room_table s) (rooms_of (db s))" "rooms_fd (db s) \<noteq> - 1"
    using R(4) by (simp_all add: on_disk_def db_ready_def)
  have k: "?k < 32" "?k \<le> length (rooms_of (db s))"
  proof -
    have "dom (room_table s) = set as" using list by (auto simp: dom_room_table list_ok_def)
    then have "?k \<le> length as"
      using next_free_bound [OF disk(1), of as ?k] disk(2) by (simp add: db_next_free_room_id_def)
    with assms(8) show "?k < 32" by simp
    show "?k \<le> length (rooms_of (db s))" by (rule next_id_least(3) [OF disk])
  qed
  have "room_record_ok (record_of (new_room ?k name password))" by (rule record_of_ok [OF new_room_ok [OF assms(3,4) k(1)]])
  then have rec: "room_record_ok ?rec" by (simp add: new_room_facts)
  have line: "line_ok (new_line ?rec)" using assms(3-6) by (simp add: line_ok_record new_room_record_def fits_def)
  obtain d where d: "db_write_room ?k ?rec (db s) = Some (False, d)" "\<forall>j. db_read_room j d = db_read_room j (db s)"
    using failed_write_undone [OF assms(2,9-11) rec line assms(13,12) k(2)] k(1) by (auto simp: in_i32_def)
  have "room_find_by_name name s = Some None"
    unfolding room_find_by_name_def using list
    by (cases rule: find_room_cases [where P = "\<lambda>r. r_room_name r = name"]) (use assms(7) in auto)
  moreover have "room_count s = int (length as)" using list by (simp add: list_ok_def)
  ultimately have "room_create (Some m) name password c s = Some (- 4, s\<lparr>db := d\<rparr>)"
    using d(1) assms(3,4,8) by (simp add: room_create_def fits_def)
  with d(2) show ?thesis by blast
qed

text \<open>
  C10: joining a room. The client first leaves the room it is in. Then: no room with this id, -2; a
  wrong password, -3; a room with 50 participants, -4, and in these cases nothing else changes, so the
  client is in no room. Otherwise the client is the last participant of the room and the room its
  current room, no other room changes, and the invariant is kept, with the room file.
\<close>

theorem room_join_spec:
  assumes "rooms_inv s as" "client_heap s c = Some cl" "c_is_active cl"
  shows "\<exists>s0 as0 i t. (if c_current_room cl = None then s0 = s \<and> as0 = as else room_leave c s = Some (0, s0)) \<and>
    rooms_inv s0 as0 \<and> room_join room_id password c s = Some (i, t) \<and>
    join_result s0 as0 room_id password c (cl\<lparr>c_current_room := None\<rparr>) i t"
proof (cases "c_current_room cl")
  case None
  then have eq: "cl\<lparr>c_current_room := None\<rparr> = cl" by simp
  show ?thesis unfolding eq using room_join_free [OF assms None, of room_id password] assms(1) None by auto
next
  case (Some a)
  obtain s0 as0 where s0: "room_leave c s = Some (0, s0)" "rooms_inv s0 as0"
      "client_heap s0 c = Some (cl\<lparr>c_current_room := None\<rparr>)"
    using room_leave_ok [OF assms Some] by fastforce
  have "room_join room_id password c s = room_join room_id password c s0"
    by (rule room_join_leaves [OF assms(2) _ s0(1,3)]) (use Some in auto)
  moreover obtain i t where "room_join room_id password c s0 = Some (i, t)"
      "join_result s0 as0 room_id password c (cl\<lparr>c_current_room := None\<rparr>) i t"
    using room_join_free [OF s0(2,3), of room_id password] assms(3) by auto
  ultimately show ?thesis using s0 Some by auto
qed

text \<open>
  C12: leaving a room. The client is taken out of the participants, whose order stays, and has no
  current room; a room that is now empty is deleted from memory and from the room file, and otherwise
  its record has the new number of users. No other room changes.
\<close>

theorem room_leave_spec:
  assumes "rooms_inv s as" "client_heap s c = Some cl" "c_is_active cl" "c_current_room cl = Some a"
  shows "\<exists>t as' r r1. room_leave c s = Some (0, t) \<and> rooms_inv t as' \<and>
    client_heap t = (client_heap s)(c \<mapsto> cl\<lparr>c_current_room := None\<rparr>) \<and>
    room_table s a = Some r \<and> c \<in> set (members r) \<and> members r1 = remove1 c (members r) \<and>
    room_table t = (room_table s)(a := if members r1 = [] then None else Some r1) \<and>
    db_read_room (r_room_id r) (db t) = (if members r1 = [] then None else Some (record_of r1))"
proof -
  obtain h p n d t as' r r1 where t: "room_leave c s = Some (0, t)"
    "t = s\<lparr>room_head := p, room_heap := h, room_count := n,
      client_heap := (client_heap s)(c \<mapsto> cl\<lparr>c_current_room := None\<rparr>), db := d\<rparr>" "rooms_inv t as'"
    "room_table s a = Some r" "c \<in> set (members r)" "members r1 = remove1 c (members r)"
    "r_room_id r1 = r_room_id r" "room_table t = (room_table s)(a := if members r1 = [] then None else Some r1)"
    using room_leave_ok [OF assms] by (elim exE conjE) (rule that)
  have heap: "client_heap t = (client_heap s)(c \<mapsto> cl\<lparr>c_current_room := None\<rparr>)" unfolding t(2) by simp
  have disk: "on_disk (room_table t) (db t)" by (rule rooms_invD(4) [OF t(3)])
  have "db_read_room (r_room_id r) (db t) = (if members r1 = [] then None else Some (record_of r1))"
  proof (cases "members r1 = []")
    case False
    with on_disk_read(2) [OF disk, of a r1] t(7,8) show ?thesis by simp
  next
    case True
    have "room_table t b = Some q \<Longrightarrow> r_room_id q \<noteq> r_room_id r" for b q
      using t(8) True rooms_invD(2) [OF assms(1)] t(4) unfolding rooms_ok_def
      by (auto split: if_splits)
    then have "rr_is_active (rooms_of (db t) ! r_room_id r) = 0" if "r_room_id r < length (rooms_of (db t))"
      using disk that unfolding on_disk_def mirrors_def by blast
    with True disk show ?thesis
      by (auto simp: db_read_room_conv on_disk_def db_ready_def simp del: length_file_records)
  qed
  with t(1,3-6,8) heap show ?thesis by blast
qed

section \<open>Witnesses\<close>

theorem room_create_spec_witness:
  "\<exists>k t. room_create (Some 200) ''lobby'' [] 100 demo_server = Some (int k, t) \<and>
    db_read_room k (db t) = Some (new_room_record k ''lobby'' [])"
  using room_create_spec [OF demo_rooms, of "''lobby''" "[]" 100 "Some 200"] demo_facts by (auto simp: fits_def)

theorem room_create_write_fails_witness:
  "\<exists>s d. room_create (Some 200) ''lobby'' [] 100 s = Some (- 4, s\<lparr>db := d\<rparr>)"
proof -
  let ?s = "demo_server\<lparr>db := (db demo_server)\<lparr>disk := [512, 512, 512, 40]\<rparr>\<rparr>"
  have "\<exists>d. room_create (Some 200) ''lobby'' [] 100 ?s = Some (- 4, ?s\<lparr>db := d\<rparr>) \<and> (\<forall>j. db_read_room j d = db_read_room j (db ?s))"
  proof (rule room_create_write_fails [where txns = "[]" and as = "[]" and n = 40])
    have "?s\<lparr>db := (db ?s)\<lparr>disk := []\<rparr>\<rparr> = demo_server" by (simp add: demo_facts first_db example_db_def)
    then show "rooms_inv (?s\<lparr>db := (db ?s)\<lparr>disk := []\<rparr>\<rparr>) []" using demo_rooms by simp
    show "write_fails 40 (db ?s)" by (simp add: write_fails_def demo_facts first_db example_db_def)
  qed (simp_all add: fits_def demo_facts first_db example_db_def log_lines_def db_read_room_raw_conv file_records_def)
  then show ?thesis by blast
qed

theorem room_join_spec_witness:
  "\<exists>s0 as0 i t. s0 = room_server \<and> room_join 0 [] 100 room_server = Some (i, t) \<and>
    join_result s0 as0 0 [] 100 ((new_client 7 0)\<lparr>c_current_room := None\<rparr>) i t"
  using room_join_spec [OF room_demo(2), of 100 "new_client 7 0" 0 "[]"] room_demo(4) demo_facts(2) by auto

theorem room_leave_spec_witness:
  "\<exists>t cl. room_leave 100 joined_server = Some (0, t) \<and> client_heap t 100 = Some cl \<and> c_current_room cl = None"
proof -
  obtain cl where cl: "client_heap joined_server 100 = Some cl" "c_is_active cl" "c_current_room cl = Some 200"
    using joined_demo(1) by blast
  show ?thesis using room_leave_spec [OF joined_demo(2) cl] by auto
qed

end
