(* ===== verification/Command_Properties.thy ===== *)
theory Command_Properties
  imports Example_Run
begin

text \<open>
  Who may do what: a client that has not logged in, or whose role lacks the permission, gets an error
  and changes nothing.
\<close>

section \<open>Properties\<close>

definition only_responds :: "int \<Rightarrow> response_packet \<Rightarrow> server \<Rightarrow> server \<Rightarrow> bool" where
  "only_responds fd resp s t \<longleftrightarrow> t = s\<lparr>tcp_out := tcp_out s @ [(fd, resp)]\<rparr>"

lemma send_error_responds:
  assumes "client_heap s c = Some cl"
  shows "\<exists>t resp. send_error c status msg s = Some t \<and> only_responds (c_fd cl) resp s t \<and> resp_status resp = status"
proof -
  let ?resp = "\<lparr>resp_opcode = 0, resp_status = status, resp_message = snprintf 256 msg, resp_data = []\<rparr>"
  have "send_error c status msg s = Some (s\<lparr>tcp_out := tcp_out s @ [(c_fd cl, ?resp)]\<rparr>)"
    using assms by (simp add: send_error_def send_response_def)
  moreover have "only_responds (c_fd cl) ?resp s (s\<lparr>tcp_out := tcp_out s @ [(c_fd cl, ?resp)]\<rparr>)"
    by (simp add: only_responds_def)
  moreover have "resp_status ?resp = status" by simp
  ultimately show ?thesis by blast
qed

lemma dispatch_moderation:
  "strcasecmp_eq cmd ''CREATE'' \<Longrightarrow> dispatch m c cmd args s = handle_create_room m c args s"
  "strcasecmp_eq cmd ''KICK'' \<Longrightarrow> dispatch m c cmd args s = handle_kick c args s \<and> \<not> strcasecmp_eq cmd ''PROMOTE''"
  "strcasecmp_eq cmd ''MUTE'' \<Longrightarrow> dispatch m c cmd args s = handle_mute c args s \<and> \<not> strcasecmp_eq cmd ''PROMOTE''"
  "strcasecmp_eq cmd ''PROMOTE'' \<Longrightarrow> dispatch m c cmd args s = handle_promote c args s"
  "strcasecmp_eq cmd ''CREATE'' \<Longrightarrow> \<not> strcasecmp_eq cmd ''PROMOTE''"
  by (simp_all add: dispatch_def strcasecmp_eq_def tolower_def char_code_def)

text \<open>
  C25: before the login a client can only log in, register or ask for its status. Any other command is
  answered with an error (401, or 404 for an unknown command) to that client alone, and the state of
  the server is unchanged.
\<close>

theorem guest_changes_nothing:
  assumes "client_heap s c = Some cl" "c_user_id cl = - 1"
    "\<not> strcasecmp_eq cmd ''LOGIN''" "\<not> strcasecmp_eq cmd ''REGISTER''" "\<not> strcasecmp_eq cmd ''STATUS''"
  shows "\<exists>t resp. dispatch m c cmd args s = Some t \<and> only_responds (c_fd cl) resp s t \<and>
    resp_status resp \<in> {STATUS_ERR_AUTH, STATUS_ERR_NOT_FOUND}"
proof -
  define r where "r = dispatch m c cmd args s"
  have "(\<exists>msg. r = send_error c STATUS_ERR_AUTH msg s) \<or> r = send_error c STATUS_ERR_NOT_FOUND ''Unknown command'' s"
    using assms
    by (auto simp: r_def dispatch_def handle_logout_def handle_create_room_def handle_join_room_def
        handle_leave_room_def handle_list_rooms_def handle_kick_def handle_mute_def handle_promote_def)
  then show ?thesis using send_error_responds [OF assms(1)] unfolding r_def by (metis insertCI)
qed

text \<open>
  C24: the moderation commands need a role. Logged in as somebody who is neither administrator nor
  moderator, CREATE, KICK and MUTE are answered with 403, and so is PROMOTE for everybody but an
  administrator, whatever the arguments, and nothing changes.
\<close>

theorem permission_enforced:
  assumes "client_heap s c = Some cl" "c_user_id cl \<noteq> - 1"
    "c_role cl \<noteq> ROLE_ADMIN" "c_role cl \<noteq> ROLE_MODERATOR \<or> strcasecmp_eq cmd ''PROMOTE''"
    "strcasecmp_eq cmd ''CREATE'' \<or> strcasecmp_eq cmd ''KICK'' \<or> strcasecmp_eq cmd ''MUTE'' \<or>
     strcasecmp_eq cmd ''PROMOTE''"
  shows "\<exists>t resp. dispatch m c cmd args s = Some t \<and> only_responds (c_fd cl) resp s t \<and>
    resp_status resp = STATUS_ERR_FORBIDDEN"
proof -
  have deny: "\<not> auth_check_permission (c_role cl) CMD_PROMOTE"
    "\<not> strcasecmp_eq cmd ''PROMOTE'' \<Longrightarrow> \<not> auth_check_permission (c_role cl) CMD_CREATE \<and>
      \<not> auth_check_permission (c_role cl) CMD_KICK \<and> \<not> auth_check_permission (c_role cl) CMD_MUTE"
    using assms(3,4) by (simp_all add: auth_check_permission_def)
  have "\<exists>msg. dispatch m c cmd args s = send_error c STATUS_ERR_FORBIDDEN msg s"
    using assms(5)
  proof (elim disjE)
    assume cmd: "strcasecmp_eq cmd ''CREATE''"
    with deny assms(1,2) dispatch_moderation(1,5) show ?thesis by (auto simp: handle_create_room_def)
  next
    assume cmd: "strcasecmp_eq cmd ''KICK''"
    with deny assms(1,2) dispatch_moderation(2) show ?thesis by (auto simp: handle_kick_def)
  next
    assume cmd: "strcasecmp_eq cmd ''MUTE''"
    with deny assms(1,2) dispatch_moderation(3) show ?thesis by (auto simp: handle_mute_def)
  next
    assume cmd: "strcasecmp_eq cmd ''PROMOTE''"
    with deny assms(1,2) dispatch_moderation(4) show ?thesis by (auto simp: handle_promote_def)
  qed
  then show ?thesis using send_error_responds [OF assms(1)] by metis
qed

section \<open>Witnesses\<close>

lemma typed_commands:
  "strcasecmp_eq ''kick'' ''KICK''" "\<not> strcasecmp_eq ''Join'' ''LOGIN''" "\<not> strcasecmp_eq ''Join'' ''REGISTER''"
  "\<not> strcasecmp_eq ''Join'' ''STATUS''"
  by code_simp+

theorem guest_changes_nothing_witness:
  "\<exists>t resp. dispatch None 100 ''Join'' (Some ''lobby'') demo_server = Some t \<and>
    only_responds (c_fd (new_client 7 0)) resp demo_server t \<and>
    resp_status resp \<in> {STATUS_ERR_AUTH, STATUS_ERR_NOT_FOUND}"
  by (rule guest_changes_nothing) (simp_all add: demo_facts typed_commands)

definition user_server :: server where
  "user_server = demo_server\<lparr>client_heap := [100 \<mapsto> (new_client 7 0)\<lparr>c_user_id := 0, c_role := ROLE_USER\<rparr>]\<rparr>"

theorem permission_enforced_witness:
  "\<exists>t resp. dispatch None 100 ''kick'' (Some ''bob'') user_server = Some t \<and>
    only_responds (c_fd ((new_client 7 0)\<lparr>c_user_id := 0, c_role := ROLE_USER\<rparr>)) resp user_server t \<and>
    resp_status resp = STATUS_ERR_FORBIDDEN"
  by (rule permission_enforced) (simp_all add: user_server_def typed_commands)

end
