(* ===== verification/Lifecycle_Properties.thy ===== *)
theory Lifecycle_Properties
  imports Example_Run Wal_Recovery
begin

text \<open>
  The start and the end of the server: which system calls it needs, when the main thread leaves its
  loop, that the end gives back the memory and the sockets of every client, and that the status
  screen can always be drawn.
\<close>

section \<open>Starting\<close>

definition required_ok :: "boot \<Rightarrow> bool" where
  "required_ok b \<longleftrightarrow> (b_open_rooms b \<noteq> - 1 \<or> b_create_rooms b \<noteq> - 1) \<and> (b_open_wal b \<noteq> - 1 \<or> b_create_wal b \<noteq> - 1) \<and>
     (b_open_users b \<noteq> - 1 \<or> b_create_users b \<noteq> - 1) \<and> b_tcp_socket b \<noteq> - 1 \<and> b_bind_ok b \<and> b_listen_ok b \<and>
     b_udp_socket b \<noteq> - 1 \<and> b_udp_bind_ok b \<and> b_epoll_create b \<noteq> - 1 \<and> b_add_tcp_ok b \<and> b_add_udp_ok b \<and>
     b_shm_open_ok b \<and> b_ftruncate_ok b \<and> b_mmap_ok b"

text \<open>The files as \<open>wal_recover\<close> finds them in \<open>file_db_init\<close>.\<close>

definition opened :: "boot \<Rightarrow> file_db \<Rightarrow> file_db" where
  "opened b files = (files\<lparr>rooms_fd := - 1, wal_fd := - 1, users_fd := - 1\<rparr>)
     \<lparr>rooms_fd := (if b_open_rooms b = - 1 then b_create_rooms b else b_open_rooms b),
      wal_fd := (if b_open_wal b = - 1 then b_create_wal b else b_open_wal b), wal_pos := 0\<rparr>"

lemma init_results:
  "wal_recover (d\<lparr>rooms_fd := (if a = - 1 then b else a), wal_fd := (if x = - 1 then y else x), wal_pos := 0\<rparr>) \<noteq> None \<Longrightarrow>
    \<exists>d'. file_db_init a b x y d = Some (if (a \<noteq> - 1 \<or> b \<noteq> - 1) \<and> (x \<noteq> - 1 \<or> y \<noteq> - 1) then Inr d' else Inl 1)"
  "\<exists>d'. auth_init a b d = (if a \<noteq> - 1 \<or> b \<noteq> - 1 then Inr d' else Inl 1)"
  "\<exists>s'. network_init ts bo lo us ubo ec ato auo s = (if ts \<noteq> - 1 \<and> bo \<and> lo \<and> us \<noteq> - 1 \<and> ubo \<and> ec \<noteq> - 1 \<and> ato \<and> auo
    then Inr s' else Inl 1) \<and> server_port s' = server_port s"
  "\<exists>q f. ipc_manager_init so fo mo ko oo = (if so \<and> fo \<and> mo then Inr (q, f) else Inl 1)"
proof -
  show "\<exists>d'. file_db_init a b x y d = Some (if (a \<noteq> - 1 \<or> b \<noteq> - 1) \<and> (x \<noteq> - 1 \<or> y \<noteq> - 1) then Inr d' else Inl 1)"
    if "wal_recover (d\<lparr>rooms_fd := (if a = - 1 then b else a), wal_fd := (if x = - 1 then y else x), wal_pos := 0\<rparr>) \<noteq> None"
    using that unfolding file_db_init_def Let_def by (auto split: if_splits)
  show "\<exists>d'. auth_init a b d = (if a \<noteq> - 1 \<or> b \<noteq> - 1 then Inr d' else Inl 1)"
    by (auto simp: auth_init_def)
  show "\<exists>s'. network_init ts bo lo us ubo ec ato auo s = (if ts \<noteq> - 1 \<and> bo \<and> lo \<and> us \<noteq> - 1 \<and> ubo \<and> ec \<noteq> - 1 \<and> ato \<and> auo
    then Inr s' else Inl 1) \<and> server_port s' = server_port s"
    by (cases "ts \<noteq> - 1 \<and> bo \<and> lo \<and> us \<noteq> - 1 \<and> ubo \<and> ec \<noteq> - 1 \<and> ato \<and> auo") (auto simp: network_init_def)
  show "\<exists>q f. ipc_manager_init so fo mo ko oo = (if so \<and> fo \<and> mo then Inr (q, f) else Inl 1)"
    by (auto simp: ipc_manager_init_def)
qed

lemma boot_result:
  assumes "wal_recover (opened b files) \<noteq> None"
  shows "\<exists>s. server_boot b argv files = Some (if required_ok b then Inr s else Inl 1) \<and> server_port s = parse_port argv"
proof -
  let ?s = "(server_zero files)\<lparr>server_port := parse_port argv\<rparr>"
  define A where "A \<longleftrightarrow> (b_open_rooms b \<noteq> - 1 \<or> b_create_rooms b \<noteq> - 1) \<and> (b_open_wal b \<noteq> - 1 \<or> b_create_wal b \<noteq> - 1)"
  define B where "B \<longleftrightarrow> b_open_users b \<noteq> - 1 \<or> b_create_users b \<noteq> - 1"
  define N where "N \<longleftrightarrow> b_tcp_socket b \<noteq> - 1 \<and> b_bind_ok b \<and> b_listen_ok b \<and> b_udp_socket b \<noteq> - 1 \<and>
    b_udp_bind_ok b \<and> b_epoll_create b \<noteq> - 1 \<and> b_add_tcp_ok b \<and> b_add_udp_ok b"
  define I where "I \<longleftrightarrow> b_shm_open_ok b \<and> b_ftruncate_ok b \<and> b_mmap_ok b"
  have files: "wal_recover ((db (server_zero files))\<lparr>rooms_fd := (if b_open_rooms b = - 1 then b_create_rooms b else b_open_rooms b),
      wal_fd := (if b_open_wal b = - 1 then b_create_wal b else b_open_wal b), wal_pos := 0\<rparr>) \<noteq> None"
    using assms unfolding opened_def by (simp add: server_zero_def)
  obtain d where d: "file_db_init (b_open_rooms b) (b_create_rooms b) (b_open_wal b) (b_create_wal b)
      (db (server_zero files)) = Some (if A then Inr d else Inl 1)"
    using init_results(1) [OF files] unfolding A_def by blast
  obtain d' where d': "auth_init (b_open_users b) (b_create_users b) d = (if B then Inr d' else Inl 1)"
    using init_results(2) unfolding B_def by blast
  obtain s where s: "network_init (b_tcp_socket b) (b_bind_ok b) (b_listen_ok b) (b_udp_socket b) (b_udp_bind_ok b)
      (b_epoll_create b) (b_add_tcp_ok b) (b_add_udp_ok b) (room_manager_init (?s\<lparr>db := d'\<rparr>)) =
      (if N then Inr s else Inl 1)" "server_port s = server_port (room_manager_init (?s\<lparr>db := d'\<rparr>))"
    using init_results(3) unfolding N_def by blast
  obtain q f where q: "ipc_manager_init (b_shm_open_ok b) (b_ftruncate_ok b) (b_mmap_ok b) (b_mkfifo_ok b)
      (b_fifo_open_ok b) = (if I then Inr (q, f) else Inl 1)"
    using init_results(4) unfolding I_def by blast
  have "required_ok b \<longleftrightarrow> A \<and> B \<and> N \<and> I" by (auto simp: required_ok_def A_def B_def N_def I_def)
  then have "server_boot b argv files = Some (if required_ok b then Inr (audio_mixer_init (s\<lparr>ring := q\<rparr>)) else Inl 1)"
    by (cases A; cases B; cases N; cases I) (simp_all add: server_boot_def Let_def d d' s(1) q)
  moreover have "server_port (audio_mixer_init (s\<lparr>ring := q\<rparr>)) = parse_port argv"
    using s(2) by (simp add: audio_mixer_init_def room_manager_init_def)
  ultimately show ?thesis by blast
qed

lemma fresh_recover: "fresh_files files \<Longrightarrow> wal_recover (opened b files) \<noteq> None"
  by (simp add: fresh_files_def opened_def wal_recover_def)

text \<open>
  C30: the start of the server, on any files whose log recovery can read. It succeeds exactly when all
  required calls do (the emergency FIFO is not required), with nobody connected, no room in memory, the
  port of the command line, and the server switched on; if a required call fails the process exits with
  code 1. When moreover the log is empty, no record of the room file is active and the coming writes
  succeed (\<open>fresh_files\<close>), the invariant of the server holds; with active records it does not, since the
  start does not load them.
\<close>

theorem server_boot_outcome:
  assumes "wal_recover (opened b files) \<noteq> None"
  shows "if required_ok b then \<exists>s. server_boot b argv files = Some (Inr s) \<and> server_on s \<and> server_port s = parse_port argv \<and>
      clients s = replicate MAX_CLIENTS None \<and> room_heap s = Map.empty \<and> (fresh_files files \<longrightarrow> server_inv s)
    else server_boot b argv files = Some (Inl 1)"
proof -
  obtain s where s: "server_boot b argv files = Some (if required_ok b then Inr s else Inl 1)" "server_port s = parse_port argv"
    using boot_result [OF assms] by blast
  moreover have "server_on s" "clients s = replicate MAX_CLIENTS None" "room_heap s = Map.empty" "fresh_files files \<longrightarrow> server_inv s"
    if "required_ok b"
  proof -
    have boot: "server_boot b argv files = Some (Inr s)" using s(1) that by simp
    show "fresh_files files \<longrightarrow> server_inv s" using boot_inv [OF boot] by (simp add: server_inv_def)
    show "server_on s" by (rule boot_state [OF boot])
    show "clients s = replicate MAX_CLIENTS None" by (rule boot_state [OF boot])
    show "room_heap s = Map.empty" by (rule boot_state [OF boot])
  qed
  ultimately show ?thesis by simp
qed

section \<open>Ending\<close>

lemma close_clients_frees:
  assumes "distinct is" "\<forall>i \<in> set is. i < length (clients s)"
    "\<forall>i \<in> set is. \<forall>c. clients s ! i = Some c \<longrightarrow> (\<exists>cl. client_heap s c = Some cl \<and> c_is_active cl \<and> c_slot cl = i)"
  shows "\<exists>res t. close_clients is s = Some (res, t) \<and>
    res = map (\<lambda>c. Fd (c_fd (the (client_heap s c)))) (concat (map (\<lambda>i. case clients s ! i of None \<Rightarrow> [] | Some c \<Rightarrow> [c]) is)) \<and>
    (\<forall>c. client_heap t c = (if \<exists>i \<in> set is. clients s ! i = Some c then None else client_heap s c)) \<and>
    (\<forall>i. i < length (clients s) \<longrightarrow> clients t ! i = (if i \<in> set is then None else clients s ! i)) \<and>
    length (clients t) = length (clients s) \<and> db t = db s"
  using assms
proof (induction "is" arbitrary: s)
  case Nil
  then show ?case by simp
next
  case (Cons i "is")
  note len = Cons.prems(2)
  have i: "i < length (clients s)" "i \<notin> set is" using len Cons.prems(1) by simp_all
  show ?case
  proof (cases "clients s ! i")
    case None
    obtain res t where t: "close_clients is s = Some (res, t)"
      "res = map (\<lambda>c. Fd (c_fd (the (client_heap s c)))) (concat (map (\<lambda>i. case clients s ! i of None \<Rightarrow> [] | Some c \<Rightarrow> [c]) is))"
      "\<forall>c. client_heap t c = (if \<exists>i \<in> set is. clients s ! i = Some c then None else client_heap s c)"
      "\<forall>i. i < length (clients s) \<longrightarrow> clients t ! i = (if i \<in> set is then None else clients s ! i)"
      "length (clients t) = length (clients s)" "db t = db s"
      using Cons.IH [of s] Cons.prems by auto
    show ?thesis using t None i by (intro exI [of _ res] exI [of _ t]) (auto simp: mem_simps)
  next
    case (Some c)
    obtain cl where cl: "client_heap s c = Some cl" "c_is_active cl" "c_slot cl = i" using Cons.prems(3) Some by auto
    let ?s = "s\<lparr>open_fds := remove1 (c_fd cl) (open_fds s), client_heap := (client_heap s)(c := None), clients := (clients s)[i := None]\<rparr>"
    have other: "d \<noteq> c" if "j \<in> set is" "clients s ! j = Some d" for j d
      using that Cons.prems(3) cl i(2) by fastforce
    have same: "(clients s)[i := None] ! j = clients s ! j" if "j \<in> set is" for j
      using that i(2) by (cases "j = i") auto
    have step: "close_clients (i # is) s = map_option (\<lambda>(res, t). (Fd (c_fd cl) # res, t)) (close_clients is ?s)"
      using Some cl i by (simp add: mem_simps) (cases "close_clients is ?s"; auto)
    have "\<forall>j \<in> set is. \<forall>d. clients ?s ! j = Some d \<longrightarrow> (\<exists>dl. client_heap ?s d = Some dl \<and> c_is_active dl \<and> c_slot dl = j)"
      using Cons.prems(3) other by (auto simp: same)
    with Cons.IH [of ?s] Cons.prems obtain res t where t: "close_clients is ?s = Some (res, t)"
      "res = map (\<lambda>c. Fd (c_fd (the (client_heap ?s c)))) (concat (map (\<lambda>i. case clients ?s ! i of None \<Rightarrow> [] | Some c \<Rightarrow> [c]) is))"
      "\<forall>d. client_heap t d = (if \<exists>i \<in> set is. clients ?s ! i = Some d then None else client_heap ?s d)"
      "\<forall>j. j < length (clients ?s) \<longrightarrow> clients t ! j = (if j \<in> set is then None else clients ?s ! j)"
      "length (clients t) = length (clients ?s)" "db t = db ?s"
      by auto
    have ids: "map (\<lambda>i. case clients ?s ! i of None \<Rightarrow> [] | Some c \<Rightarrow> [c]) is =
        map (\<lambda>i. case clients s ! i of None \<Rightarrow> [] | Some c \<Rightarrow> [c]) is"
      by (simp add: same cong: map_cong)
    have "res = map (\<lambda>c. Fd (c_fd (the (client_heap s c)))) (concat (map (\<lambda>i. case clients s ! i of None \<Rightarrow> [] | Some c \<Rightarrow> [c]) is))"
      unfolding t(2) ids using other by (intro map_cong refl) (auto split: option.split_asm dest: sym [of "Some _"])
    moreover have "client_heap t d = (if \<exists>j \<in> set (i # is). clients s ! j = Some d then None else client_heap s d)" for d
      using t(3) Some by (auto simp: same)
    moreover have "clients t ! j = (if j \<in> set (i # is) then None else clients s ! j)" if "j < length (clients s)" for j
      using t(4) that by (auto simp: nth_list_update)
    ultimately show ?thesis using step t(1,5,6) Some cl(1) by (intro exI [of _ "Fd (c_fd cl) # res"] exI [of _ t]) auto
  qed
qed

definition connected_list :: "server \<Rightarrow> addr list" where
  "connected_list s = concat (map (\<lambda>i. case clients s ! i of None \<Rightarrow> [] | Some c \<Rightarrow> [c]) [0..<MAX_CLIENTS])"

lemma connected_list_facts:
  assumes "table_inv (clients s) n fds ofds (client_heap s)"
  shows "set (connected_list s) = {c. \<exists>cl. client_heap s c = Some cl \<and> c_is_active cl}"
    "distinct (map (\<lambda>c. c_fd (the (client_heap s c))) (connected_list s))"
proof -
  note T = table_invD [OF assms]
  have mem: "c \<in> set (connected_list s) \<longleftrightarrow> (\<exists>i < 50. clients s ! i = Some c)" for c
    by (force simp: connected_list_def split: option.splits)
  show set: "set (connected_list s) = {c. \<exists>cl. client_heap s c = Some cl \<and> c_is_active cl}"
    using T(4,5) mem by blast
  have "distinct (concat (map (\<lambda>i. case clients s ! i of None \<Rightarrow> [] | Some c \<Rightarrow> [c]) is))"
    if "distinct is" "\<forall>i \<in> set is. i < 50" for "is"
    using that
  proof (induction "is")
    case (Cons i "is")
    have "c \<notin> set (concat (map (\<lambda>i. case clients s ! i of None \<Rightarrow> [] | Some c \<Rightarrow> [c]) is))" if "clients s ! i = Some c" for c
    proof
      assume "c \<in> set (concat (map (\<lambda>i. case clients s ! i of None \<Rightarrow> [] | Some c \<Rightarrow> [c]) is))"
      then obtain j where "j \<in> set is" "clients s ! j = Some c" by (auto split: option.splits)
      with that Cons.prems T(4) have "i = j" by (metis list.set_intros option.inject)
      with \<open>j \<in> set is\<close> Cons.prems(1) show False by simp
    qed
    with Cons show ?case by (auto split: option.split)
  qed simp
  then have "distinct (connected_list s)" unfolding connected_list_def by simp
  moreover have "inj_on (\<lambda>c. c_fd (the (client_heap s c))) (set (connected_list s))"
    unfolding set using T(7) by (intro inj_onI) fastforce
  ultimately show "distinct (map (\<lambda>c. c_fd (the (client_heap s c))) (connected_list s))" by (simp add: distinct_map)
qed

lemma shutdown_result:
  assumes "held_inv s hs"
  shows "\<exists>t fds. shutdown_server fifo_fd s = Some (map Fd fds @ fd_resources [tcp_listen_fd t, udp_fd t, epoll_fd t] @
      fd_resources [users_fd (db s), rooms_fd (db s), wal_fd (db s)] @ ipc_manager_cleanup True fifo_fd @
      [Mutex ''clients_mutex'', Mutex ''rooms_mutex'', Mutex ''jitter_mutex''], t) \<and>
    distinct fds \<and> set fds = {fd. \<exists>c cl. client_heap s c = Some cl \<and> c_is_active cl \<and> c_fd cl = fd} \<and>
    clients t = replicate MAX_CLIENTS None \<and>
    (\<forall>c cl. client_heap s c = Some cl \<longrightarrow> client_heap t c = (if c_is_active cl then None else Some cl))"
proof -
  note T = table_invD [OF held_invD(2) [OF assms]]
  let ?fds = "map (\<lambda>c. c_fd (the (client_heap s c))) (connected_list s)"
  obtain res t where t: "close_clients [0..<50] s = Some (res, t)"
      "res = map (\<lambda>c. Fd (c_fd (the (client_heap s c)))) (connected_list s)"
      "\<forall>c. client_heap t c = (if \<exists>i \<in> set [0..<50]. clients s ! i = Some c then None else client_heap s c)"
      "\<forall>i. i < length (clients s) \<longrightarrow> clients t ! i = (if i \<in> set [0..<50] then None else clients s ! i)"
      "length (clients t) = length (clients s)" "db t = db s"
    using close_clients_frees [of "[0..<50]" s] T(1,4) unfolding connected_list_def by auto
  have "clients t = replicate 50 None" using t(4,5) T(1) by (intro nth_equalityI) simp_all
  moreover have "client_heap t c = (if c_is_active cl then None else Some cl)" if "client_heap s c = Some cl" for c cl
    using t(3) that T(4,5) by (metis (no_types, lifting) atLeastLessThan_iff option.inject set_upt zero_le)
  moreover have "distinct ?fds" "set ?fds = {fd. \<exists>c cl. client_heap s c = Some cl \<and> c_is_active cl \<and> c_fd cl = fd}"
    using connected_list_facts [OF held_invD(2) [OF assms]] by (auto simp: image_iff) force+
  moreover have "shutdown_server fifo_fd s = Some (map Fd ?fds @ fd_resources [tcp_listen_fd t, udp_fd t, epoll_fd t] @
      fd_resources [users_fd (db s), rooms_fd (db s), wal_fd (db s)] @ ipc_manager_cleanup True fifo_fd @
      [Mutex ''clients_mutex'', Mutex ''rooms_mutex'', Mutex ''jitter_mutex''], t)"
    using t(1,2,6) by (simp add: shutdown_server_def comp_def)
  ultimately show ?thesis by (intro exI [of _ t] exI [of _ ?fds]) blast
qed

text \<open>
  C31: the end of the server. It closes the socket of every connected client exactly once and frees the
  client, empties the client table, and then closes the server's own sockets, the three files and
  what the IPC manager holds, in this order.
\<close>

theorem shutdown_frees_clients:
  assumes "held_inv s hs"
  shows "\<exists>t fds. shutdown_server fifo_fd s = Some (map Fd fds @ fd_resources [tcp_listen_fd t, udp_fd t, epoll_fd t] @
      fd_resources [users_fd (db s), rooms_fd (db s), wal_fd (db s)] @ ipc_manager_cleanup True fifo_fd @
      [Mutex ''clients_mutex'', Mutex ''rooms_mutex'', Mutex ''jitter_mutex''], t) \<and>
    distinct fds \<and> set fds = {fd. \<exists>c cl. client_heap s c = Some cl \<and> c_is_active cl \<and> c_fd cl = fd} \<and>
    clients t = replicate MAX_CLIENTS None \<and>
    (\<forall>c cl. client_heap s c = Some cl \<longrightarrow> client_heap t c = (if c_is_active cl then None else Some cl))"
  by (rule shutdown_result [OF assms])

section \<open>The main thread\<close>

text \<open>No event of the network switches the server off.\<close>

lemma memory_keeps_on:
  "upd_room a f s = Some t \<Longrightarrow> server_on t = server_on s" "free_room a s = Some t \<Longrightarrow> server_on t = server_on s"
  "upd_client c g s = Some t \<Longrightarrow> server_on t = server_on s" "drop_ref c s = Some t \<Longrightarrow> server_on t = server_on s"
  by (auto simp: upd_room_def free_room_def upd_client_def drop_ref_def free_client_def elim!: bind_eq_SomeE
      split: option.splits if_splits)

lemma rooms_keep_on:
  "unlink_room r s = Some t \<Longrightarrow> server_on t = server_on s" "room_delete i s = Some (ok, t) \<Longrightarrow> server_on t = server_on s"
  "write_user_count i n s = Some t \<Longrightarrow> server_on t = server_on s" "settle_room i n s = Some t \<Longrightarrow> server_on t = server_on s"
  "remove_client_from_room a c s = Some t \<Longrightarrow> server_on t = server_on s"
proof -
  show unlink: "server_on t = server_on s" if "unlink_room r s = Some t" for r s t
    using that by (auto simp: unlink_room_def elim!: bind_eq_SomeE split: option.splits dest!: memory_keeps_on)
  show delete: "server_on t = server_on s" if "room_delete i s = Some (ok, t)" for i s ok t
    using that by (auto simp: room_delete_def elim!: bind_eq_SomeE split: option.splits dest!: memory_keeps_on unlink)
  show count: "server_on t = server_on s" if "write_user_count i n s = Some t" for i n s t
    using that by (auto simp: write_user_count_def elim!: bind_eq_SomeE split: option.splits)
  show settle: "server_on t = server_on s" if "settle_room i n s = Some t" for i n s t
    using that by (auto simp: settle_room_def elim!: bind_eq_SomeE split: if_splits dest!: count delete)
  show "server_on t = server_on s" if "remove_client_from_room a c s = Some t"
    using that by (auto simp: remove_client_from_room_def elim!: bind_eq_SomeE split: prod.splits dest!: memory_keeps_on settle)
qed

lemma event_keeps_on: "handle_event ev s = Some t \<Longrightarrow> server_on t = server_on s"
proof -
  have disconnect: "server_on t = server_on s" if "disconnect_client fd s = Some t" for fd s t
    using that by (auto simp: disconnect_client_def Let_def elim!: bind_eq_SomeE split: option.splits if_splits prod.splits
        dest!: memory_keeps_on rooms_keep_on)
  have command: "server_on t = server_on s" if "process_client_command c cmd s = Some t" for c cmd s t
    using that by (auto simp: process_client_command_def send_error_def send_response_def elim!: bind_eq_SomeE
        split: if_splits prod.splits dest!: memory_keeps_on)
  have "server_on t = server_on s" if "accept_new_client fd m s = Some t"
    for fd m using that by (auto simp: accept_new_client_def elim!: bind_eq_SomeE split: if_splits option.splits)
  moreover have "server_on t = server_on s" if "handle_udp_packet d s = Some t" for d
    using that by (auto simp: handle_udp_packet_def elim!: bind_eq_SomeE split: if_splits option.splits prod.splits
        dest!: memory_keeps_on)
  moreover have "server_on t = server_on s" if "handle_tcp_command fd r s = Some t" for fd r
    using that by (auto simp: handle_tcp_command_def elim!: bind_eq_SomeE split: option.splits list.splits prod.splits
        dest!: memory_keeps_on command disconnect)
  ultimately show "handle_event ev s = Some t \<Longrightarrow> server_on t = server_on s"
    by (auto simp: handle_event_def split: if_splits)
qed

text \<open>The contract of the environment along the inputs of the main thread.\<close>

fun events_ok :: "epoll_event list \<Rightarrow> server \<Rightarrow> bool" where
  "events_ok [] s \<longleftrightarrow> True"
| "events_ok (ev # evs) s \<longleftrightarrow> event_ok ev s \<and> (case handle_event ev s of None \<Rightarrow> True | Some t \<Rightarrow> events_ok evs t)"

fun inputs_ok :: "loop_input list \<Rightarrow> server \<Rightarrow> bool" where
  "inputs_ok [] s \<longleftrightarrow> True"
| "inputs_ok (w # ws) s \<longleftrightarrow>
     (case w of
        Interrupted sig \<Rightarrow> (sig = SIGINT \<or> sig = SIGPIPE) \<and> inputs_ok ws s
      | Events evs \<Rightarrow> events_ok evs s \<and> (case handle_events evs s of None \<Rightarrow> True | Some t \<Rightarrow> inputs_ok ws t)
      | _ \<Rightarrow> inputs_ok ws s)"

text \<open>What makes the main thread leave its loop.\<close>

definition stops :: "loop_input \<Rightarrow> bool" where
  "stops w \<longleftrightarrow> (case w of Interrupted sig \<Rightarrow> sig = SIGINT | Wait_Failed \<Rightarrow> True | Events _ \<Rightarrow> False
     | Fifo_Command r \<Rightarrow> \<not> fifo_step r True)"

lemma handle_events_safe:
  assumes "held_inv s hs" "events_ok evs s"
  shows "\<exists>t. handle_events evs s = Some t \<and> held_inv t hs \<and> server_on t = server_on s"
  using assms
proof (induction evs arbitrary: s)
  case (Cons ev evs)
  then have "safe (handle_event ev s) hs" by (intro event_safe) simp_all
  then obtain t where t: "handle_event ev s = Some t" "held_inv t hs" by (auto simp: safe_def)
  with Cons event_keeps_on [OF t(1)] show ?case by auto
qed simp

lemma event_loop_off: "\<not> server_on s \<Longrightarrow> network_event_loop ws s = Some (Left s)"
  by (cases ws) simp_all

lemma event_loop_result:
  assumes "held_inv s hs" "server_on s" "inputs_ok ws s"
  shows "\<exists>t. held_inv t hs \<and>
    (if \<exists>w \<in> set ws. stops w then network_event_loop ws s = Some (Left t)
     else network_event_loop ws s = Some (Waiting t) \<and> server_on t)"
  using assms
proof (induction ws arbitrary: s)
  case (Cons w ws)
  show ?case
  proof (cases "stops w")
    case True
    let ?off = "s\<lparr>server_on := False\<rparr>"
    have "network_event_loop (w # ws) s = Some (Left s) \<or> network_event_loop (w # ws) s = Some (Left ?off)"
      using True Cons.prems(2) event_loop_off [of ?off ws]
      by (cases w) (auto simp: stops_def deliver_signal_def handle_signal_def)
    moreover have "held_inv s hs" "held_inv ?off hs" using Cons.prems(1) by simp_all
    ultimately show ?thesis using True by auto
  next
    case False
    have "\<exists>t. network_event_loop (w # ws) s = network_event_loop ws t \<and> held_inv t hs \<and> server_on t \<and> inputs_ok ws t"
    proof (cases w)
      case (Interrupted sig)
      with False Cons.prems show ?thesis by (auto simp: stops_def deliver_signal_def)
    next
      case Wait_Failed
      with False show ?thesis by (simp add: stops_def)
    next
      case (Events evs)
      with Cons.prems obtain t where "handle_events evs s = Some t" "held_inv t hs" "server_on t"
        using handle_events_safe [OF Cons.prems(1), of evs] by auto
      with Events Cons.prems show ?thesis by auto
    next
      case (Fifo_Command r)
      have "network_event_loop ws (s\<lparr>server_on := True\<rparr>) = network_event_loop ws s"
        using Cons.prems(2) by (intro arg_cong [where f = "network_event_loop ws"]) (cases s, simp)
      with Fifo_Command False Cons.prems show ?thesis by (intro exI [of _ s]) (auto simp: stops_def)
    qed
    with Cons.IH False show ?thesis by fastforce
  qed
qed simp

lemma event_loop_prefix: "stops w \<Longrightarrow> network_event_loop (ws @ w # rest) s = network_event_loop (ws @ [w]) s"
proof (induction ws arbitrary: s)
  case Nil
  show ?case
  proof (cases "server_on s")
    case True
    then show ?thesis
      using Nil event_loop_off [of "s\<lparr>server_on := False\<rparr>"]
      by (cases w) (auto simp: stops_def deliver_signal_def handle_signal_def)
  qed simp
next
  case (Cons v ws)
  then show ?case by (cases v) (auto split: sum.split intro!: Option.bind_cong)
qed


section \<open>The status screen\<close>

lemma client_lines_total:
  assumes "held_inv s hs" "\<forall>i \<in> set is. i < MAX_CLIENTS"
  shows "\<exists>txt. client_lines is s = Some txt"
  using assms(2)
proof (induction "is")
  case (Cons i "is")
  note T = table_invD [OF held_invD(2) [OF assms(1)]]
  obtain as where as: "rooms_inv s as" using held_invD(1) [OF assms(1)] by blast
  obtain rest where rest: "client_lines is s = Some rest" using Cons by auto
  show ?case
  proof (cases "clients s ! i")
    case None
    with rest Cons.prems T(1) show ?thesis by (simp add: mem_simps)
  next
    case (Some c)
    then obtain cl where cl: "client_heap s c = Some cl" "c_is_active cl" using T(4) [of i c] Cons.prems by auto
    have "room_heap s a \<noteq> None" if "c_current_room cl = Some a" for a
      using linked_current [OF rooms_invD(3) [OF as] cl that] by (auto simp: room_table_def)
    with Some cl rest Cons.prems T(1) show ?thesis
      by (cases "c_current_room cl") (auto simp: mem_simps)
  qed
qed simp

lemma sublist_behind: "sublist xs ys \<Longrightarrow> sublist xs (ps @ ys)"
  using sublist_append_leftI [of ys ps] sublist_order.order_trans by blast

text \<open>
  C34: the status screen can always be drawn: in a consistent server its traversals end and read no
  freed memory, and the rooms are shown one behind the other, in the order of the list.
\<close>

theorem status_screen_total:
  assumes "held_inv s hs"
  shows "\<exists>as frame. rooms_inv s as \<and> display_frame now s = Some frame \<and>
    sublist (concat (map (\<lambda>a. room_status (the (room_heap s a))) as)) frame"
proof -
  obtain as where as: "rooms_inv s as" using held_invD(1) [OF assms] by blast
  then obtain m where "seg (room_heap s) None (room_head s) as m None"
    using rooms_invD(1) [OF as] by (auto simp: list_ok_def)
  note rooms = room_lines_seg [OF this]
  obtain cs where cs: "client_lines [0..<50] s = Some cs" using client_lines_total [OF assms] by fastforce
  show ?thesis
    unfolding display_frame_def rooms cs bind.bind_lunit option.inject
    by (intro exI [of _ as] exI conjI as) (rule refl, intro sublist_append_rightI sublist_behind)
qed

section \<open>Witnesses\<close>

theorem server_boot_outcome_witness:
  "(\<exists>s. server_boot demo_boot [''server'', ''9000''] example_db = Some (Inr s) \<and> server_inv s \<and> server_port s = 9000) \<and>
    (\<exists>s. server_boot demo_boot [] example_full = Some (Inr s) \<and> server_on s)"
proof -
  have ok: "required_ok demo_boot" by (simp add: required_ok_def demo_boot_def)
  have "parse_port [''server'', ''9000''] = 9000" by code_simp
  moreover have "wal_recover (opened demo_boot example_full) \<noteq> None"
    using wal_recover_committed_log [of "opened demo_boot example_full" "[(0, None, example_record)]"]
    by (fastforce simp: opened_def demo_boot_def example_full_def example_db_def)
  ultimately show ?thesis
    using server_boot_outcome [OF fresh_recover [OF fresh_example], of demo_boot "[''server'', ''9000'']"]
      server_boot_outcome [of demo_boot example_full "[]"] ok fresh_example by auto
qed

theorem shutdown_frees_clients_witness:
  "\<exists>t res. shutdown_server 9 demo_server = Some (res, t) \<and> clients t = replicate 50 None \<and> client_heap t 100 = None"
  using shutdown_frees_clients [OF demo_facts(1), of 9] demo_facts(2) by auto


theorem status_screen_total_witness:
  "\<exists>as frame. rooms_inv joined_server as \<and> display_frame 5 joined_server = Some frame \<and>
    sublist (concat (map (\<lambda>a. room_status (the (room_heap joined_server a))) as)) frame"
  by (rule status_screen_total [OF joined_demo(5)])

end
