(* ===== verification/Voice_Client.thy ===== *)
theory Voice_Client
  imports Protocol
begin

text \<open>
  \<open>src/src/client/client.c\<close>: the terminal client. The state are its static variables and the two flags
  of \<open>main\<close>, together with what it has sent over TCP and UDP, written to the player and printed. The
  results of \<open>fgets\<close>, \<open>send\<close>, \<open>recv\<close> and \<open>fread\<close> are arguments. The microphone and the player are the
  programs \<open>arecord\<close> and \<open>aplay\<close>, which are not part of the sources.
\<close>

section \<open>State\<close>

record voice_client =
  v_client_slot :: int
  v_current_room_id :: int
  v_running :: bool
  v_audio_seq :: int
  v_mic_muted :: bool
  v_audio_started :: bool \<comment> \<open>the receiver thread runs\<close>
  v_sender_started :: bool \<comment> \<open>the sender thread runs\<close>
  v_tcp_sent :: "string list"
  v_udp_sent :: "(nat \<times> audio_packet) list" \<comment> \<open>the datagrams, with their length\<close>
  v_played :: "byte list" \<comment> \<open>the bytes written to the player\<close>
  v_recv_count :: int
  v_screen :: string

definition client_zero :: voice_client where
  "client_zero = \<lparr>v_client_slot = - 1, v_current_room_id = - 1, v_running = True, v_audio_seq = 0,
     v_mic_muted = True, v_audio_started = False, v_sender_started = False, v_tcp_sent = [],
     v_udp_sent = [], v_played = [], v_recv_count = 0, v_screen = []\<rparr>"

definition show_text :: "string \<Rightarrow> voice_client \<Rightarrow> voice_client" where
  "show_text t v = v\<lparr>v_screen := v_screen v @ t\<rparr>"

definition help_text :: string where
  "help_text = [newline] @ [escape] @ ''[1;36m=============================================================='' @ [escape] @ ''[0m'' @ [newline] @
     [escape] @ ''[1;32m                    EchoLink Client Commands                    '' @ [escape] @ ''[0m'' @ [newline] @
     [escape] @ ''[1;36m=============================================================='' @ [escape] @ ''[0m'' @ [newline] @
     [escape] @ ''[1;33m[ Authentication ]'' @ [escape] @ ''[0m'' @ [newline] @
     ''  '' @ [escape] @ ''[1mREGISTER <user> <pass>'' @ [escape] @ ''[0m - Create a new account'' @ [newline] @
     ''  '' @ [escape] @ ''[1mLOGIN <user> <pass>'' @ [escape] @ ''[0m    - Log into your account'' @ [newline] @
     ''  '' @ [escape] @ ''[1mLOGOUT'' @ [escape] @ ''[0m                 - Log out of your account'' @ [newline] @
     [newline] @ [escape] @ ''[1;33m[ Rooms & Voice ]'' @ [escape] @ ''[0m'' @ [newline] @
     ''  '' @ [escape] @ ''[1mCREATE <room> <pass>'' @ [escape] @ ''[0m   - Create a new voice room'' @ [newline] @
     ''  '' @ [escape] @ ''[1mJOIN <room> <pass>'' @ [escape] @ ''[0m     - Join an existing room'' @ [newline] @
     ''  '' @ [escape] @ ''[1mSTART'' @ [escape] @ ''[0m                  - Connect to the audio stream (Mic is OFF)'' @ [newline] @
     ''  '' @ [escape] @ ''[1mUNMUTE'' @ [escape] @ ''[0m                 - Turn your microphone ON'' @ [newline] @
     ''  '' @ [escape] @ ''[1mMUTE'' @ [escape] @ ''[0m                   - Turn your microphone OFF'' @ [newline] @
     ''  '' @ [escape] @ ''[1mLEAVE'' @ [escape] @ ''[0m                  - Leave the current room'' @ [newline] @
     [newline] @ [escape] @ ''[1;33m[ Information ]'' @ [escape] @ ''[0m'' @ [newline] @
     ''  '' @ [escape] @ ''[1mLIST'' @ [escape] @ ''[0m                   - List all active rooms'' @ [newline] @
     ''  '' @ [escape] @ ''[1mSTATUS'' @ [escape] @ ''[0m                 - See your current role and room status'' @ [newline] @
     [newline] @ [escape] @ ''[1;33m[ Administration ]'' @ [escape] @ ''[0m'' @ [newline] @
     ''  '' @ [escape] @ ''[1mPROMOTE <user> <ROLE>'' @ [escape] @ ''[0m  - Change user role (Roles: ADMIN, MODERATOR)'' @ [newline] @
     ''  '' @ [escape] @ ''[1mKICK <user>'' @ [escape] @ ''[0m            - Kick a user from your room'' @ [newline] @
     [newline] @ [escape] @ ''[1;33m[ System ]'' @ [escape] @ ''[0m'' @ [newline] @
     ''  '' @ [escape] @ ''[1mHELP'' @ [escape] @ ''[0m                   - Show this help menu'' @ [newline] @
     ''  '' @ [escape] @ ''[1mQUIT / EXIT'' @ [escape] @ ''[0m            - Close the EchoLink client'' @ [newline] @
     [escape] @ ''[1;36m=============================================================='' @ [escape] @ ''[0m'' @ [newline] @ [newline]"

definition print_help :: "voice_client \<Rightarrow> voice_client" where
  "print_help v = show_text help_text v"

section \<open>Commands and responses\<close>

definition send_command :: "bool \<Rightarrow> string \<Rightarrow> voice_client \<Rightarrow> voice_client" where
  "send_command send_ok command v =
     (if send_ok then v\<lparr>v_tcp_sent := v_tcp_sent v @ [snprintf MAX_PACKET_SIZE command]\<rparr>
      else v\<lparr>v_running := False\<rparr>)"

definition colored :: "string \<Rightarrow> string \<Rightarrow> string" where
  "colored code t = [escape] @ ''['' @ code @ ''m'' @ t @ [escape] @ ''[0m''"

text \<open>\<open>None\<close>: \<open>recv\<close> failed or the server has closed the connection.\<close>

definition receive_response :: "response_packet option \<Rightarrow> voice_client \<Rightarrow> voice_client" where
  "receive_response recv_result v =
     (case recv_result of
        None \<Rightarrow> show_text (''Disconnected from server.'' @ [newline]) (v\<lparr>v_running := False\<rparr>)
      | Some resp \<Rightarrow>
          let v1 = (if resp_status resp = 200 \<and> strstr (resp_message resp) ''Login successful'' \<and> resp_data resp \<noteq> []
                    then show_text (colored ''1;36'' ''[SYS]'' @ '' Audio channel synced. Client ID: '' @
                           print_int (atoi (resp_data resp)) @ [newline])
                           (v\<lparr>v_client_slot := atoi (resp_data resp)\<rparr>)
                    else v);
              v2 = (if resp_status resp = 200
                    then show_text (colored ''1;32'' ''[SUCCESS]'' @ '' '' @ resp_message resp @ [newline]) v1
                    else show_text (colored ''1;31'' (''[ERROR '' @ print_int (resp_status resp) @ '']'') @ '' '' @
                           resp_message resp @ [newline]) v1)
          in if resp_data resp \<noteq> [] then show_text (colored ''0;36'' (resp_data resp) @ [newline]) v2 else v2)"

section \<open>Audio\<close>

definition hello_packet :: "int \<Rightarrow> audio_packet" where
  "hello_packet slot = \<lparr>ap_room_id = 0, ap_sender_id = of_int slot, ap_seq_num = 0, ap_timestamp = 0,
     ap_payload_size = 0, ap_payload = replicate AUDIO_PAYLOAD_SIZE 0\<rparr>"

abbreviation (input) AUDIO_PACKET_SIZE :: nat where "AUDIO_PACKET_SIZE \<equiv> 2068"
abbreviation (input) PCM_SIZE :: nat where "PCM_SIZE \<equiv> 640"

text \<open>
  The inner loop of the sender over the results of \<open>fread\<close>, with what has been read so far. It ends with
  the list of results when \<open>running\<close> is cleared between two reads.
\<close>

fun fill_pcm :: "byte list list \<Rightarrow> byte list \<Rightarrow> byte list" where
  "fill_pcm [] pcm = pcm"
| "fill_pcm (r # rs) pcm =
     (if length pcm < PCM_SIZE then
        (if r = [] then pcm else fill_pcm rs (pcm @ take (PCM_SIZE - length pcm) r))
      else pcm)"

text \<open>
  One iteration of the sender. \<open>stack\<close> is what the payload array of \<open>pkt\<close> held before; \<open>audio_seq++\<close> on
  the largest \<open>int\<close> is undefined.
\<close>

definition audio_sender_step :: "byte list list \<Rightarrow> byte list \<Rightarrow> voice_client \<Rightarrow> voice_client option" where
  "audio_sender_step freads stack v =
     (let pcm = fill_pcm freads []
      in if length pcm = PCM_SIZE \<and> \<not> v_mic_muted v then
           if v_audio_seq v = 2147483647 then None
           else Some (v\<lparr>v_audio_seq := v_audio_seq v + 1,
             v_udp_sent := v_udp_sent v @ [(AUDIO_PACKET_SIZE - AUDIO_PAYLOAD_SIZE + PCM_SIZE,
               \<lparr>ap_room_id = of_int (v_current_room_id v), ap_sender_id = of_int (v_client_slot v),
                ap_seq_num = of_int (v_audio_seq v), ap_timestamp = 0, ap_payload_size = 640,
                ap_payload = overwrite 0 0 pcm stack\<rparr>)]\<rparr>)
         else Some v)"

text \<open>
  The thread: the list holds, for each iteration, the results of \<open>fread\<close> and the old contents of the
  payload array; \<open>popen_ok\<close> tells whether the recorder could be started.
\<close>

fun sender_loop :: "(byte list list \<times> byte list) list \<Rightarrow> voice_client \<Rightarrow> voice_client option" where
  "sender_loop [] v = Some v"
| "sender_loop ((freads, stack) # its) v =
     (if \<not> v_running v then Some v
      else Option.bind (audio_sender_step freads stack v) (sender_loop its))"

definition audio_sender_thread :: "bool \<Rightarrow> (byte list list \<times> byte list) list \<Rightarrow> voice_client \<Rightarrow> voice_client option" where
  "audio_sender_thread popen_ok its v =
     (if \<not> popen_ok then Some (show_text (''Failed to start arecord'' @ [newline]) v) else sender_loop its v)"

text \<open>The start of the receiver: ten periods of silence.\<close>

definition receiver_prefill :: "voice_client \<Rightarrow> voice_client" where
  "receiver_prefill v = v\<lparr>v_played := v_played v @ replicate (10 * PCM_SIZE) 0\<rparr>"

text \<open>One iteration of the receiver: the length that \<open>recv\<close> returned (negative when it failed) and the struct.\<close>

definition audio_receiver_step :: "int \<Rightarrow> audio_packet \<Rightarrow> voice_client \<Rightarrow> voice_client" where
  "audio_receiver_step n pkt v =
     (if int (AUDIO_PACKET_SIZE - AUDIO_PAYLOAD_SIZE) \<le> n \<and> 0 < unat (ap_payload_size pkt) \<and>
         unat (ap_payload_size pkt) \<le> AUDIO_PAYLOAD_SIZE
      then let v1 = v\<lparr>v_played := v_played v @ take (unat (ap_payload_size pkt)) (ap_payload pkt),
                      v_recv_count := v_recv_count v + 1\<rparr>
           in if v_recv_count v1 mod 100 = 0
              then show_text (''[DEBUG] Received '' @ print_int (v_recv_count v1) @ '' audio packets (Size: '' @
                     print_nat (unat (ap_payload_size pkt)) @ '').'' @ [newline]) v1
              else v1
      else v)"

text \<open>The thread, over the results of \<open>recv\<close>.\<close>

fun receiver_loop :: "(int \<times> audio_packet) list \<Rightarrow> voice_client \<Rightarrow> voice_client" where
  "receiver_loop [] v = v"
| "receiver_loop ((n, pkt) # recvs) v =
     (if \<not> v_running v then v else receiver_loop recvs (audio_receiver_step n pkt v))"

definition audio_receiver_thread :: "bool \<Rightarrow> (int \<times> audio_packet) list \<Rightarrow> voice_client \<Rightarrow> voice_client" where
  "audio_receiver_thread popen_ok recvs v =
     (if \<not> popen_ok then show_text (''Failed to start aplay'' @ [newline]) v
      else receiver_loop recvs (receiver_prefill (v\<lparr>v_recv_count := 0\<rparr>)))"

section \<open>The command loop\<close>

text \<open>The dash of the messages, three bytes in UTF-8.\<close>

definition dash :: string where
  "dash = [CHR 0xE2, CHR 0x80, CHR 0x94]"

definition mic_on_text :: string where
  "mic_on_text = colored ''1;32'' ''[MIC]'' @ '' Mic is now ON '' @ dash @ '' you are speaking.'' @ [newline]"

definition start_audio :: "voice_client \<Rightarrow> voice_client" where
  "start_audio v =
     (if \<not> v_audio_started v then
        show_text (''[START] Listening for audio. Mic is OFF.'' @ [newline] @
            ''        Type UNMUTE to turn mic ON and speak.'' @ [newline])
          (v\<lparr>v_audio_started := True,
             v_udp_sent := v_udp_sent v @ [(AUDIO_PACKET_SIZE, hello_packet (v_client_slot v))]\<rparr>)
      else show_text (''[INFO] Audio already started.'' @ [newline]) v)"

definition unmute :: "voice_client \<Rightarrow> voice_client" where
  "unmute v =
     (if \<not> v_audio_started v then show_text (''[INFO] Type START first.'' @ [newline]) v
      else if \<not> v_sender_started v
      then show_text mic_on_text (v\<lparr>v_sender_started := True, v_mic_muted := False\<rparr>)
      else show_text mic_on_text (v\<lparr>v_mic_muted := False\<rparr>))"

definition mute :: "voice_client \<Rightarrow> voice_client" where
  "mute v = show_text (colored ''1;33'' ''[MIC]'' @ '' Mic is now OFF '' @ dash @ '' listening only.'' @ [newline])
     (v\<lparr>v_mic_muted := True\<rparr>)"

text \<open>
  The body of the loop for the text of \<open>fgets\<close>; the flag tells whether the loop goes on (\<open>break\<close> ends
  it).
\<close>

definition handle_line :: "string \<Rightarrow> bool \<Rightarrow> response_packet option \<Rightarrow> voice_client \<Rightarrow> bool \<times> voice_client" where
  "handle_line input send_ok recv_result v =
     (let line = takeWhile (\<lambda>c. c \<noteq> newline) (c_string input)
      in if line = [] then (True, v)
         else if strcasecmp_eq line ''QUIT'' \<or> strcasecmp_eq line ''EXIT'' then (False, send_command send_ok ''LOGOUT'' v)
         else if strcasecmp_eq line ''HELP'' then (True, print_help v)
         else if strcasecmp_eq line ''START'' then (True, start_audio v)
         else if strcasecmp_eq line ''UNMUTE'' then (True, unmute v)
         else if strcasecmp_eq line ''MUTE'' then (True, mute v)
         else (True, receive_response recv_result (send_command send_ok line v)))"

fun command_loop :: "(string \<times> bool \<times> response_packet option) list \<Rightarrow> voice_client \<Rightarrow> voice_client" where
  "command_loop [] v = v"
| "command_loop ((input, send_ok, recv_result) # ins) v =
     (if \<not> v_running v then v
      else let (go, v1) = handle_line input send_ok recv_result v in if go then command_loop ins v1 else v1)"

text \<open>
  The program: the exit code and, where it got as far as the loop, the state at its end. The three
  flags are the outcomes of the two \<open>socket\<close> calls and of \<open>connect\<close>.
\<close>

definition client_main :: "string list \<Rightarrow> bool \<Rightarrow> bool \<Rightarrow> bool \<Rightarrow>
    (string \<times> bool \<times> response_packet option) list \<Rightarrow> int \<times> voice_client option" where
  "client_main argv tcp_ok connect_ok udp_ok inputs =
     (case argv of
        prog # server_ip # port # _ \<Rightarrow>
          if \<not> tcp_ok then (1, None)
          else if \<not> connect_ok then (1, None)
          else if \<not> udp_ok then (1, None)
          else
            let place = server_ip @ '':'' @ print_int (atoi port);
                v = print_help (show_text (''Connected to server '' @ place @ [newline] @
                      colored ''1;36'' (''EchoLink Client successfully connected to '' @ place) @ [newline]) client_zero);
                v1 = command_loop inputs v
            in (0, Some (v1\<lparr>v_running := False\<rparr>))
      | _ \<Rightarrow> (1, None))"

end
