(* ===== verification/Client_Facts.thy ===== *)
theory Client_Facts
  imports Voice_Client Jitter_Buffer
begin

text \<open>
  The client on its own: the microphone stays off until it is asked for, and what the sender puts on
  the wire are well-formed packets with consecutive sequence numbers.
\<close>

section \<open>The microphone\<close>

lemma show_text_keeps [simp]:
  "v_mic_muted (show_text t v) = v_mic_muted v" "v_sender_started (show_text t v) = v_sender_started v"
  "v_audio_started (show_text t v) = v_audio_started v" "v_running (show_text t v) = v_running v"
  "v_client_slot (show_text t v) = v_client_slot v" "v_udp_sent (show_text t v) = v_udp_sent v"
  "v_tcp_sent (show_text t v) = v_tcp_sent v" "v_audio_seq (show_text t v) = v_audio_seq v"
  "v_played (show_text t v) = v_played v" "v_recv_count (show_text t v) = v_recv_count v"
  by (simp_all add: show_text_def)

lemma send_command_keeps [simp]:
  "v_mic_muted (send_command ok t v) = v_mic_muted v" "v_sender_started (send_command ok t v) = v_sender_started v"
  "v_udp_sent (send_command ok t v) = v_udp_sent v" "v_audio_started (send_command ok t v) = v_audio_started v"
  by (simp_all add: send_command_def)

lemma receive_response_keeps [simp]:
  "v_mic_muted (receive_response r v) = v_mic_muted v" "v_sender_started (receive_response r v) = v_sender_started v"
  "v_udp_sent (receive_response r v) = v_udp_sent v" "v_audio_started (receive_response r v) = v_audio_started v"
  by (simp_all add: receive_response_def Let_def split: option.split)

definition typed :: "string \<Rightarrow> string" where
  "typed input = takeWhile (\<lambda>c. c \<noteq> newline) (c_string input)"

lemma handle_line_mic:
  assumes "\<not> strcasecmp_eq (typed input) ''UNMUTE''" "v_mic_muted v"
  shows "v_mic_muted (snd (handle_line input ok r v))"
    "v_sender_started (snd (handle_line input ok r v)) = v_sender_started v"
  using assms by (simp_all add: handle_line_def typed_def Let_def start_audio_def mute_def print_help_def)

lemma command_loop_mic:
  assumes "\<forall>(input, ok, r) \<in> set ins. \<not> strcasecmp_eq (typed input) ''UNMUTE''" "v_mic_muted v"
  shows "v_mic_muted (command_loop ins v) \<and> v_sender_started (command_loop ins v) = v_sender_started v"
  using assms
proof (induction ins arbitrary: v)
  case (Cons i ins)
  obtain input ok r where i: "i = (input, ok, r)" by (cases i)
  obtain go v1 where h: "handle_line input ok r v = (go, v1)" by fastforce
  have "v_mic_muted v1" "v_sender_started v1 = v_sender_started v"
    using handle_line_mic [of input v ok r] Cons.prems h i by auto
  with Cons.IH [of v1] Cons.prems h i show ?case by auto
qed simp

text \<open>
  C23: the microphone is off until the user types UNMUTE. Whatever else is typed and whatever the
  server answers, the client does not start the sender and stays muted, and an iteration of the
  sender in a muted client sends nothing and uses no sequence number.
\<close>

theorem client_silent_until_unmute:
  assumes "\<forall>(input, ok, r) \<in> set ins. \<not> strcasecmp_eq (typed input) ''UNMUTE''"
  shows "v_mic_muted (command_loop ins client_zero) \<and> \<not> v_sender_started (command_loop ins client_zero) \<and>
    audio_sender_step freads stack (command_loop ins client_zero) = Some (command_loop ins client_zero)"
  using command_loop_mic [OF assms, of client_zero] by (simp add: client_zero_def audio_sender_step_def Let_def)

section \<open>What is sent\<close>

lemma fill_pcm_le: "length pcm \<le> 640 \<Longrightarrow> length (fill_pcm rs pcm) \<le> 640"
  by (induction rs pcm rule: fill_pcm.induct) auto

definition full_reads :: "(byte list list \<times> byte list) list \<Rightarrow> byte list list" where
  "full_reads its = filter (\<lambda>pcm. length pcm = 640) (map (\<lambda>it. fill_pcm (fst it) []) its)"

lemma full_reads_length: "\<forall>bs \<in> set (full_reads its). length bs = 640"
  by (simp add: full_reads_def)

lemma full_reads_le: "length (full_reads its) \<le> length its"
  unfolding full_reads_def by (rule order_trans [OF length_filter_le]) simp

lemma seq_offset_next: "seq_offset (of_int k) (of_int (k + int i)) = i" if "i < 2 ^ 32" for i
proof -
  have "of_int (k + int i) - of_int k = (of_nat i :: u32)" by simp
  with that show ?thesis by (simp add: seq_offset_def unsigned_of_nat take_bit_nat_eq_self)
qed

lemma sender_loop_sends:
  assumes "\<not> v_mic_muted v" "v_audio_seq v + int (length its) \<le> 2147483647" "0 \<le> v_audio_seq v"
    "\<forall>it \<in> set its. length (snd it) = AUDIO_PAYLOAD_SIZE" "v_running v"
  shows "\<exists>v' pkts. sender_loop its v = Some v' \<and> \<not> v_mic_muted v' \<and> v_client_slot v' = v_client_slot v \<and>
    v_udp_sent v' = v_udp_sent v @ map (Pair 660) pkts \<and>
    v_audio_seq v' = v_audio_seq v + int (length pkts) \<and>
    map (\<lambda>p. take 640 (ap_payload p)) pkts = full_reads its \<and>
    (\<forall>p \<in> set pkts. packet_ok p \<and> ap_payload_size p = 640 \<and> ap_sender_id p = of_int (v_client_slot v)) \<and>
    map ap_seq_num pkts = map (\<lambda>i. of_int (v_audio_seq v + int i)) [0..<length pkts]"
  using assms
proof (induction its arbitrary: v)
  case Nil
  then show ?case by (intro exI [of _ v] exI [of _ "[]"]) (simp add: full_reads_def)
next
  case (Cons it its)
  obtain freads stack where it: "it = (freads, stack)" by (cases it)
  let ?pcm = "fill_pcm freads []"
  show ?case
  proof (cases "length ?pcm = 640")
    case False
    then have "audio_sender_step freads stack v = Some v" by (simp add: audio_sender_step_def Let_def)
    moreover have "full_reads (it # its) = full_reads its" using False it by (simp add: full_reads_def)
    ultimately show ?thesis using Cons.IH [of v] Cons.prems it by simp
  next
    case True
    let ?p = "\<lparr>ap_room_id = of_int (v_current_room_id v), ap_sender_id = of_int (v_client_slot v),
      ap_seq_num = of_int (v_audio_seq v), ap_timestamp = 0, ap_payload_size = 640,
      ap_payload = overwrite 0 0 ?pcm stack\<rparr>"
    let ?v = "v\<lparr>v_audio_seq := v_audio_seq v + 1, v_udp_sent := v_udp_sent v @ [(660, ?p)]\<rparr>"
    have step: "audio_sender_step freads stack v = Some ?v"
      using True Cons.prems by (simp add: audio_sender_step_def Let_def)
    have "?pcm \<noteq> []" using True by auto
    then have p: "packet_ok ?p" "take 640 (ap_payload ?p) = ?pcm"
      using True Cons.prems(4) it by (auto simp: packet_ok_def overwrite_def)
    obtain v' pkts where IH: "sender_loop its ?v = Some v'" "\<not> v_mic_muted v'" "v_client_slot v' = v_client_slot v"
        "v_udp_sent v' = v_udp_sent ?v @ map (Pair 660) pkts" "v_audio_seq v' = v_audio_seq ?v + int (length pkts)"
        "map (\<lambda>p. take 640 (ap_payload p)) pkts = full_reads its"
        "\<forall>p \<in> set pkts. packet_ok p \<and> ap_payload_size p = 640 \<and> ap_sender_id p = of_int (v_client_slot v)"
        "map ap_seq_num pkts = map (\<lambda>i. of_int (v_audio_seq ?v + int i)) [0..<length pkts]"
      using Cons.IH [of ?v] Cons.prems by auto
    have seqs: "map ap_seq_num (?p # pkts) = map (\<lambda>i. of_int (v_audio_seq v + int i)) [0..<length (?p # pkts)]"
      using IH(8) by (simp add: upt_conv_Cons map_Suc_upt [symmetric] comp_def algebra_simps del: upt_Suc)
    show ?thesis
      using step it IH p True seqs Cons.prems(5) by (intro exI [of _ v'] exI [of _ "?p # pkts"]) (simp add: full_reads_def)
  qed
qed

section \<open>Witness\<close>

theorem client_silent_until_unmute_witness:
  "\<not> v_sender_started (command_loop [(''START'', True, None), (''LIST'', True, None)] client_zero)"
proof -
  have "\<not> strcasecmp_eq (typed ''START'') ''UNMUTE''" "\<not> strcasecmp_eq (typed ''LIST'') ''UNMUTE''" by code_simp+
  then show ?thesis
    using client_silent_until_unmute [of "[(''START'', True, None), (''LIST'', True, None)]"] by simp
qed

end
