(* ===== verification/End_To_End.thy ===== *)
theory End_To_End
  imports Example_Run Client_Facts
begin

text \<open>
  The client and the server together: the login tells the client its slot and START registers its
  address; what is recorded at one end comes out of the jitter buffer at the other in order; and the
  client plays exactly the mix it was sent.
\<close>

section \<open>Facts\<close>

lemma atoi_print_nat: "n < 50 \<Longrightarrow> atoi (print_nat n) = int n"
  using atoi_print [of "int n"] by (simp add: print_int_def in_i32_def)

lemma strstr_refl: "strstr x x"
  by (cases x) simp_all

lemma udp_hello:
  assumes "clients s ! i = Some c" "i < 50" "length (clients s) = 50" "client_heap s c = Some cl"
  shows "handle_udp_packet (Some (hello_packet (int i), a, n)) s =
    Some (s\<lparr>client_heap := (client_heap s)(c \<mapsto> cl\<lparr>c_udp_addr := a, c_udp_addr_len := n\<rparr>)\<rparr>)"
proof -
  have "unat (ap_sender_id (hello_packet (int i))) = i"
    using assms(2) by (simp add: hello_packet_def unsigned_of_nat take_bit_nat_eq_self)
  with assms show ?thesis by (simp add: handle_udp_packet_def mem_simps) (simp add: hello_packet_def)
qed

lemma sorted_unique:
  assumes "sorted (map k xs)" "sorted (map k ys)" "mset xs = mset ys" "distinct (map k ys)"
  shows "xs = ys"
proof (rule map_sorted_distinct_set_unique)
  have set: "set xs = set ys" using assms(3) by (rule mset_eq_setD)
  then show "inj_on k (set xs \<union> set ys)" using assms(4) by (simp add: distinct_map)
  have "mset (map k xs) = mset (map k ys)" using assms(3) by simp
  then show "distinct (map k xs)" using assms(4) by (metis distinct_count_atmost_1 mset_eq_setD)
  show "set xs = set ys" by (rule set)
qed (use assms in auto)

lemma sorted_subseq:
  assumes "sorted (map k xs)" "mset xs \<subseteq># mset ys" "sorted (map k ys)" "distinct (map k ys)"
  shows "subseq xs ys"
  using assms
proof (induction ys arbitrary: xs)
  case (Cons y ys)
  show ?case
  proof (cases xs)
    case (Cons x xs')
    show ?thesis
    proof (cases "x = y")
      case True
      with Cons.prems Cons.IH [of xs'] Cons show ?thesis by simp
    next
      case False
      have x: "x \<in> set ys" using Cons.prems(2) Cons False by (auto dest: mset_subset_eq_insertD)
      have "k y < k x" using x Cons.prems(3,4) by (auto simp: order.strict_iff_order)
      then have "y \<notin> set xs" using Cons.prems(1) Cons by auto
      then have "mset xs \<subseteq># mset ys" using Cons.prems(2) by (metis add_mset_remove_trivial diff_single_trivial in_multiset_in_set mset.simps(2) subset_eq_diff_conv add_mset_add_single)
      with Cons.prems Cons.IH [of xs] show ?thesis by auto
    qed
  qed simp
qed simp

section \<open>Properties\<close>

text \<open>
  C22: after a successful LOGIN the client knows its slot, and START makes the server send its audio
  to it: the response carries the slot, the client reads it back, and the datagram of START sets the
  address of this very client.
\<close>

theorem login_start_registers:
  assumes "held_inv s hs" "client_heap s c = Some cl" "c_is_active cl" "c_user_id cl = - 1"
    "scan_words 31 63 args = (username, password)" "username \<noteq> []" "password \<noteq> []"
    "auth_authenticate username password (db s) = Some (Some role)" "\<not> v_audio_started v"
  shows "\<exists>t resp pkt n t' cl'. handle_login c args s = Some t \<and> tcp_out t = tcp_out s @ [(c_fd cl, resp)] \<and>
    v_client_slot (receive_response (Some resp) v) = int (c_slot cl) \<and>
    v_udp_sent (start_audio (receive_response (Some resp) v)) = v_udp_sent v @ [(n, pkt)] \<and>
    handle_udp_packet (Some (pkt, a, len)) t = Some t' \<and>
    client_heap t' c = Some cl' \<and> c_udp_addr cl' = a \<and> c_udp_addr_len cl' = len \<and> c_user_id cl' = 0 \<and> c_role cl' = role"
proof -
  note T = table_invD [OF held_invD(2) [OF assms(1)]]
  have slot: "c_slot cl < 50" "clients s ! c_slot cl = Some c" "length (clients s) = 50"
    using T(5) [OF assms(2,3)] T(1) by auto
  have data: "snprintf 4096 (print_nat (c_slot cl)) = print_nat (c_slot cl)"
    using length_print_nat [of "c_slot cl" 1] slot(1) by (simp add: snprintf_def)
  let ?cl = "cl\<lparr>c_user_id := 0, c_username := take 31 username, c_role := role\<rparr>"
  let ?resp = "\<lparr>resp_opcode = 0, resp_status = 200, resp_message = ''Login successful'', resp_data = print_nat (c_slot cl)\<rparr>"
  let ?t = "s\<lparr>client_heap := (client_heap s)(c \<mapsto> ?cl), tcp_out := tcp_out s @ [(c_fd cl, ?resp)]\<rparr>"
  have login: "handle_login c args s = Some ?t"
    using assms(2,4-8) data by (simp add: handle_login_def mem_simps send_ok_def send_response_def snprintf_def)
  have v: "v_client_slot (receive_response (Some ?resp) v) = int (c_slot cl)"
    using slot(1) strstr_refl [of "''Login successful''"] by (simp add: receive_response_def atoi_print_nat Let_def)
  then have start: "v_udp_sent (start_audio (receive_response (Some ?resp) v)) =
      v_udp_sent v @ [(2068, hello_packet (int (c_slot cl)))]"
    using assms(9) by (simp add: start_audio_def)
  have "handle_udp_packet (Some (hello_packet (int (c_slot cl)), a, len)) ?t =
      Some (?t\<lparr>client_heap := (client_heap ?t)(c \<mapsto> ?cl\<lparr>c_udp_addr := a, c_udp_addr_len := len\<rparr>)\<rparr>)"
    by (rule udp_hello) (use slot in simp_all)
  with login v start show ?thesis by (intro exI conjI) (assumption | simp)+
qed

text \<open>
  START before LOGIN registers nothing: the client then sends a slot of -1, which the server does
  not know, and nothing changes there; and a second START sends nothing, so the server has no
  address for this client until it speaks.
\<close>

theorem start_before_login_unregistered:
  "handle_udp_packet (Some (hello_packet (v_client_slot client_zero), a, n)) s = Some s \<and>
    v_udp_sent (start_audio (start_audio v)) = v_udp_sent (start_audio v)"
proof
  have "unat (- 1 :: u32) = 4294967295" by (simp add: unsigned_minus_1_eq_mask mask_eq_exp_minus_1)
  then show "handle_udp_packet (Some (hello_packet (v_client_slot client_zero), a, n)) s = Some s"
    by (simp add: handle_udp_packet_def hello_packet_def client_zero_def)
  show "v_udp_sent (start_audio (start_audio v)) = v_udp_sent (start_audio v)"
    by (simp add: start_audio_def)
qed

lemma sent_packets_order:
  assumes "map ap_seq_num pkts = map (\<lambda>i. of_int (k + int i)) [0..<length pkts]" "length pkts \<le> 2147483648"
  shows "map (\<lambda>x. seq_offset (of_int k) (fst x)) (map packet_view pkts) = [0..<length pkts]"
proof -
  have "map (\<lambda>x. seq_offset (of_int k) (fst x)) (map packet_view pkts) =
      map (seq_offset (of_int k)) (map ap_seq_num pkts)" by (simp add: packet_view_def)
  also have "\<dots> = map (\<lambda>i. seq_offset (of_int k) (of_int (k + int i))) [0..<length pkts]"
    by (simp only: assms(1) map_map comp_def)
  also have "\<dots> = [0..<length pkts]"
    using assms(2) by (intro map_idI seq_offset_next) simp
  finally show ?thesis .
qed

lemma reordered_speech:
  assumes "jb_ok jb0" "jb_packets jb0 = {#}" "jb_buffering jb0 \<Longrightarrow> 5 \<le> length pkts" "length pkts \<le> JITTER_BUFFER_SIZE"
    "map ap_seq_num pkts = map (\<lambda>i. of_int (k + int i)) [0..<length pkts]"
    "mset (map packet_view arrived) = mset (map packet_view pkts)" "\<forall>p \<in> set arrived. packet_ok p"
  shows "\<exists>jb es jb'. push_all arrived jb0 = Some jb \<and> pop_many (length arrived) jb = (map Some es, jb') \<and>
    map jpacket es = map packet_view pkts"
proof -
  let ?base = "of_int k :: u32" let ?pos = "\<lambda>x. seq_offset ?base (fst x)"
  have order: "map ?pos (map packet_view pkts) = [0..<length pkts]" using sent_packets_order [OF assms(5)] assms(4) by simp
  have len: "length arrived = length pkts" using arg_cong [OF assms(6), of size] by simp
  have "in_window ?base (fst x)" if "x \<in> set (map packet_view pkts)" for x
  proof -
    have "?pos x \<in> set (map ?pos (map packet_view pkts))" using that by (metis imageI list.set_map)
    then show ?thesis unfolding order using assms(4) by (simp add: in_window_def)
  qed
  then have "\<forall>p \<in> set arrived. packet_ok p \<and> in_window ?base (fst (packet_view p))"
    using assms(7) mset_eq_setD [OF assms(6)] by (metis imageI list.set_map)
  then obtain jb es jb' where jb: "push_all arrived jb0 = Some jb" "pop_many (length arrived) jb = (map Some es, jb')"
      "sorted (map (\<lambda>e. ?pos (jpacket e)) es)" "mset (map jpacket es) = mset (map packet_view arrived)"
    using jitter.reorders [OF assms(1,2), of arrived ?base] assms(3,4) len by auto
  have "map jpacket es = map packet_view pkts"
  proof (rule sorted_unique [where k = ?pos])
    show "sorted (map ?pos (map jpacket es))" using jb(3) by (simp add: comp_def)
    show "sorted (map ?pos (map packet_view pkts))" "distinct (map ?pos (map packet_view pkts))"
      by (simp_all only: order sorted_upt distinct_upt)
    show "mset (map jpacket es) = mset (map packet_view pkts)" using jb(4) assms(6) by simp
  qed
  with jb(1,2) show ?thesis by blast
qed

lemma timely_speech:
  assumes "map ap_seq_num pkts = map (\<lambda>i. of_int (k + int i)) [0..<length pkts]" "length pkts \<le> 2147483648"
    "mset (map packet_view (arrivals ops)) \<subseteq># mset (map packet_view pkts)" "\<forall>p \<in> set (arrivals ops). packet_ok p"
    "jitter_in_time (of_int k) ops jitter_zero"
  shows "\<exists>es jb. buffer_run jitter_buffer_push jitter_buffer_pop ops jitter_zero = Some (es, jb) \<and>
    mset (map jpacket es) + jb_packets jb = mset (map packet_view (arrivals ops)) \<and> subseq (map jpacket es) (map packet_view pkts)"
proof -
  let ?base = "of_int k :: u32" let ?pos = "\<lambda>x. seq_offset ?base (fst x)"
  have order: "map ?pos (map packet_view pkts) = [0..<length pkts]" by (rule sent_packets_order [OF assms(1,2)])
  have "in_window ?base (fst x)" if "x \<in># mset (map packet_view pkts)" for x
  proof -
    have "?pos x \<in> set (map ?pos (map packet_view pkts))" using that by (metis imageI list.set_map set_mset_mset)
    then show ?thesis unfolding order using assms(2) by (simp add: in_window_def)
  qed
  then have "\<forall>p \<in> set (arrivals ops). packet_ok p \<and> in_window ?base (fst (packet_view p))"
    using assms(4) mset_subset_eqD [OF assms(3)] by auto
  moreover have "in_time JITTER_BUFFER_SIZE (\<lambda>jb. size (jb_packets jb)) (\<lambda>p. ?pos (packet_view p)) (\<lambda>e. ?pos (jpacket e))
      jitter_buffer_push jitter_buffer_pop 0 ops jitter_zero"
    using assms(5) by (simp add: packet_view_def jpacket_def)
  ultimately obtain es jb where run: "buffer_run jitter_buffer_push jitter_buffer_pop ops jitter_zero = Some (es, jb)"
      "sorted (map (\<lambda>e. ?pos (jpacket e)) es)" "mset (map jpacket es) + jb_packets jb = mset (map packet_view (arrivals ops))"
    using jitter.run_in_time [of jitter_zero ?base 0 ops] by auto
  have "mset (map jpacket es) \<subseteq># mset (map packet_view pkts)"
    by (rule subset_mset.order_trans [OF _ assms(3)]) (simp only: run(3) [symmetric] mset_subset_eq_add_left)
  moreover have "sorted (map ?pos (map packet_view pkts))" "distinct (map ?pos (map packet_view pkts))"
    by (simp_all only: order sorted_upt distinct_upt)
  moreover have "sorted (map ?pos (map jpacket es))" using run(2) by (simp add: comp_def)
  ultimately have "subseq (map jpacket es) (map packet_view pkts)" by (intro sorted_subseq [where k = ?pos])
  with run show ?thesis by blast
qed

text \<open>
  C7: speech comes out of the jitter buffer in the order of recording as long as no packet is late. An
  unmuted client sends one well-formed packet, marked with its slot and numbered in order, for every full
  period it has read. Let any of them reach the fresh jitter buffer of the server, each at most once and
  in any order, between any requests to play, such that none arrives after a later one was played or when
  twenty are waiting. Then no operation fails, and the periods that are played are a subsequence of the
  recorded ones; when as many were played as were sent they are exactly the recorded ones. (A packet that
  arrives after its successor was played is not dropped but played behind it: the server does not compare
  it with what was played.)
\<close>

theorem speech_in_order:
  assumes "\<not> v_mic_muted v" "0 \<le> v_audio_seq v" "v_audio_seq v + int (length its) \<le> 2147483647"
    "\<forall>it \<in> set its. length (snd it) = AUDIO_PAYLOAD_SIZE" "v_running v"
  shows "\<exists>v' pkts. audio_sender_thread True its v = Some v' \<and> v_udp_sent v' = v_udp_sent v @ map (Pair 660) pkts \<and>
    map (\<lambda>p. take 640 (ap_payload p)) pkts = full_reads its \<and>
    map ap_seq_num pkts = map (\<lambda>i. of_int (v_audio_seq v + int i)) [0..<length pkts] \<and>
    (\<forall>p \<in> set pkts. packet_ok p \<and> ap_sender_id p = of_int (v_client_slot v)) \<and>
    (\<forall>ops. mset (map packet_view (arrivals ops)) \<subseteq># mset (map packet_view pkts) \<and> (\<forall>p \<in> set (arrivals ops). packet_ok p) \<and>
        jitter_in_time (of_int (v_audio_seq v)) ops jitter_zero \<longrightarrow>
      (\<exists>es jb. buffer_run jitter_buffer_push jitter_buffer_pop ops jitter_zero = Some (es, jb) \<and>
        subseq (map (\<lambda>e. take (unat (je_payload_size e)) (je_payload e)) es) (full_reads its) \<and>
        (length es = length pkts \<longrightarrow> map (\<lambda>e. take (unat (je_payload_size e)) (je_payload e)) es = full_reads its)))"
proof -
  obtain v' pkts where run: "audio_sender_thread True its v = Some v'" "v_udp_sent v' = v_udp_sent v @ map (Pair 660) pkts"
      "map (\<lambda>p. take 640 (ap_payload p)) pkts = full_reads its"
      "\<forall>p \<in> set pkts. packet_ok p \<and> ap_payload_size p = 640 \<and> ap_sender_id p = of_int (v_client_slot v)"
      "map ap_seq_num pkts = map (\<lambda>i. of_int (v_audio_seq v + int i)) [0..<length pkts]"
    using sender_loop_sends [OF assms(1,3,2,4,5)] by (auto simp: audio_sender_thread_def)
  have n: "length pkts \<le> 2147483648" using arg_cong [OF run(3), of length] assms(2,3) full_reads_le [of its] by simp
  have reads: "map (\<lambda>x. snd (snd x)) (map packet_view pkts) = full_reads its"
    unfolding run(3) [symmetric] using run(4) by (simp add: packet_view_def)
  have "\<exists>es jb. buffer_run jitter_buffer_push jitter_buffer_pop ops jitter_zero = Some (es, jb) \<and>
      subseq (map (\<lambda>e. take (unat (je_payload_size e)) (je_payload e)) es) (full_reads its) \<and>
      (length es = length pkts \<longrightarrow> map (\<lambda>e. take (unat (je_payload_size e)) (je_payload e)) es = full_reads its)"
    if ops: "mset (map packet_view (arrivals ops)) \<subseteq># mset (map packet_view pkts)" "\<forall>p \<in> set (arrivals ops). packet_ok p"
      "jitter_in_time (of_int (v_audio_seq v)) ops jitter_zero" for ops
  proof -
    obtain es jb where es: "buffer_run jitter_buffer_push jitter_buffer_pop ops jitter_zero = Some (es, jb)"
        "subseq (map jpacket es) (map packet_view pkts)"
      using timely_speech [OF run(5) n ops] by blast
    have played: "map (\<lambda>e. take (unat (je_payload_size e)) (je_payload e)) es = map (\<lambda>x. snd (snd x)) (map jpacket es)"
      by (simp add: jpacket_def)
    have "map jpacket es = map packet_view pkts" if "length es = length pkts"
      using that es(2) by (metis length_map subseq_same_length)
    then have "map (\<lambda>x. snd (snd x)) (map jpacket es) = full_reads its" if "length es = length pkts" using that reads by (simp only:)
    moreover have "subseq (map (\<lambda>x. snd (snd x)) (map jpacket es)) (full_reads its)"
      using subseq_map [OF es(2), of "\<lambda>x. snd (snd x)"] by (simp only: reads)
    ultimately show ?thesis using es(1) by (intro exI [of _ es] exI [of _ jb] conjI impI) (simp_all only: played)
  qed
  with run show ?thesis by blast
qed

text \<open>
  The client plays what the server mixed: given a datagram that the mixer sent, it writes 640 bytes
  to the player, which decode to the mix for its slot.
\<close>

theorem client_plays_mix:
  assumes "\<forall>p \<in> set speakers. length (snd p) \<le> 320" "mix_datagram now room_id speakers cl = (a, n, pkt)"
  shows "\<exists>bs. v_played (audio_receiver_step (int n) pkt v) = v_played v @ bs \<and> length bs = 640 \<and>
    pcm_of_bytes bs = mix_for (c_slot cl) speakers"
proof -
  let ?mix = "mix_for (c_slot cl) speakers"
  have mix: "?mix = map (mix_sample (others (c_slot cl) speakers)) [0..<320]" by (rule mix_for_sample [OF assms(1)])
  then have len: "length (bytes_of_pcm ?mix) = 640" by (simp add: length_bytes_of_pcm)
  then have "bytes_of_pcm ?mix \<noteq> []" by auto
  with assms(2) len have "n = 660" "ap_payload_size pkt = 640" "take 640 (ap_payload pkt) = bytes_of_pcm ?mix"
    by (auto simp: mix_datagram_def overwrite_def)
  then have "v_played (audio_receiver_step (int n) pkt v) = v_played v @ bytes_of_pcm ?mix"
    by (simp add: audio_receiver_step_def Let_def)
  moreover have "pcm_of_bytes (bytes_of_pcm ?mix) = ?mix" by (rule pcm_bytes_pcm) (simp add: mix mix_sample_range)
  ultimately show ?thesis using len by blast
qed

section \<open>Witnesses\<close>

theorem login_start_registers_witness:
  "\<exists>t resp pkt n t' cl'. handle_login 100 (Some ''admin admin123'') demo_server = Some t \<and>
    tcp_out t = tcp_out demo_server @ [(7, resp)] \<and> v_client_slot (receive_response (Some resp) client_zero) = 0 \<and>
    v_udp_sent (start_audio (receive_response (Some resp) client_zero)) = [(n, pkt)] \<and>
    handle_udp_packet (Some (pkt, \<lparr>sin_addr = 1, sin_port = 2\<rparr>, 16)) t = Some t' \<and>
    client_heap t' 100 = Some cl' \<and> c_udp_addr cl' = \<lparr>sin_addr = 1, sin_port = 2\<rparr>"
  using login_start_registers [OF demo_facts(1), of 100 "new_client 7 0" "Some ''admin admin123''" "''admin''" "''admin123''"
      ROLE_ADMIN client_zero "\<lparr>sin_addr = 1, sin_port = 2\<rparr>" 16] demo_facts(2) demo_login demo_args
  by (simp add: client_zero_def) blast

theorem client_plays_mix_witness:
  "\<exists>bs. v_played (audio_receiver_step (int (fst (snd (mix_datagram 0 1 [(3, [5, - 6])] (new_client 7 0)))))
      (snd (snd (mix_datagram 0 1 [(3, [5, - 6])] (new_client 7 0)))) client_zero) = v_played client_zero @ bs \<and>
    length bs = 640 \<and> pcm_of_bytes bs = mix_for (c_slot (new_client 7 0)) [(3, [5, - 6])]"
  by (rule client_plays_mix [where now = 0 and room_id = 1 and
        a = "fst (mix_datagram 0 1 [(3, [5, - 6])] (new_client 7 0))"]) simp_all

text \<open>Two periods whose packets arrive in the wrong order.\<close>

definition two_reads :: "(byte list list \<times> byte list) list" where
  "two_reads = [([replicate 640 7], replicate 2048 0), ([replicate 640 9], replicate 2048 0)]"

theorem speech_in_order_witness:
  "\<exists>v' pkts es jb. audio_sender_thread True two_reads (client_zero\<lparr>v_mic_muted := False\<rparr>) = Some v' \<and>
    buffer_run jitter_buffer_push jitter_buffer_pop (map Arrive (rev pkts) @ replicate 2 Play) jitter_zero = Some (es, jb) \<and>
    map (\<lambda>e. take (unat (je_payload_size e)) (je_payload e)) es = [replicate 640 7, replicate 640 9]"
proof -
  let ?v = "client_zero\<lparr>v_mic_muted := False\<rparr>"
  have full: "full_reads two_reads = [replicate 640 7, replicate 640 9]" 
    by (simp add: two_reads_def full_reads_def)
  obtain v' pkts where run: "audio_sender_thread True two_reads ?v = Some v'"
      "map (\<lambda>p. take 640 (ap_payload p)) pkts = full_reads two_reads" "\<forall>p \<in> set pkts. packet_ok p"
      "map ap_seq_num pkts = map (\<lambda>i. of_int (v_audio_seq ?v + int i)) [0..<length pkts]"
      "\<forall>ops. mset (map packet_view (arrivals ops)) \<subseteq># mset (map packet_view pkts) \<and> (\<forall>p \<in> set (arrivals ops). packet_ok p) \<and>
        jitter_in_time (of_int (v_audio_seq ?v)) ops jitter_zero \<longrightarrow>
      (\<exists>es jb. buffer_run jitter_buffer_push jitter_buffer_pop ops jitter_zero = Some (es, jb) \<and>
        subseq (map (\<lambda>e. take (unat (je_payload_size e)) (je_payload e)) es) (full_reads two_reads) \<and>
        (length es = length pkts \<longrightarrow> map (\<lambda>e. take (unat (je_payload_size e)) (je_payload e)) es = full_reads two_reads))"
    using speech_in_order [of ?v two_reads] by (force simp: client_zero_def two_reads_def)
  have n: "length pkts = 2" using arg_cong [OF run(2), of length] full by simp
  obtain b1 es b2 where b: "push_all (rev pkts) jitter_zero = Some b1" "pop_many (length (rev pkts)) b1 = (map Some es, b2)"
      "map jpacket es = map packet_view pkts"
    using reordered_speech [of jitter_zero pkts "v_audio_seq ?v" "rev pkts"] run(3,4) n by auto
  have "buffer_run jitter_buffer_push jitter_buffer_pop (map Arrive (rev pkts) @ replicate 2 Play) jitter_zero = Some (es, b2)"
    using buffer_run_batch [OF b(1,2)] n by simp
  moreover have "length es = length pkts" using arg_cong [OF b(3), of length] by simp
  moreover have "jitter_in_time (of_int (v_audio_seq ?v)) (map Arrive (rev pkts) @ replicate 2 Play) jitter_zero"
    using jitter.batch_in_time [of jitter_zero "rev pkts" "of_int (v_audio_seq ?v)" 2] run(3) n
    by (simp add: packet_view_def jpacket_def del: of_int_eq_iff)
  ultimately show ?thesis
    using run(1,3) run(5) [rule_format, of "map Arrive (rev pkts) @ replicate 2 Play"] full by (intro exI conjI) auto
qed

end
