(* ===== verification/Mixer_Properties.thy ===== *)
theory Mixer_Properties
  imports Example_Run
begin

text \<open>
  What a tick of the mixer does, in a server that satisfies the invariant: the ring is emptied, every
  talking participant is heard, and every participant of every room gets one datagram.
\<close>

section \<open>The datagrams of a tick\<close>

definition participants :: "addr list \<Rightarrow> server \<Rightarrow> addr list" where
  "participants as s = concat (map (\<lambda>a. members (the (room_heap s a))) as)"

lemma participants_after_mix:
  assumes "a \<notin> set as"
  shows "participants as (after_mix now a r s) = participants as s"
  unfolding participants_def using assms by (intro arg_cong [of _ _ concat] map_cong) auto

lemma mixed_datagrams:
  assumes "distinct as"
  shows "\<exists>outs. udp_out (mixed now as s) = udp_out s @ outs \<and> client_heap (mixed now as s) = client_heap s \<and>
    ring (mixed now as s) = ring s \<and>
    map (\<lambda>d. (fst d, fst (snd d))) outs = map (\<lambda>c. (c_udp_addr (the (client_heap s c)), 660)) (participants as s)"
  using assms
proof (induction as arbitrary: s)
  case Nil
  then show ?case by (simp add: participants_def)
next
  case (Cons a as)
  let ?r = "the (room_heap s a)"
  let ?s = "if members ?r = [] then s else after_mix now a ?r s"
  obtain outs where outs: "udp_out (mixed now as ?s) = udp_out ?s @ outs" "client_heap (mixed now as ?s) = client_heap ?s"
      "ring (mixed now as ?s) = ring ?s"
      "map (\<lambda>d. (fst d, fst (snd d))) outs = map (\<lambda>c. (c_udp_addr (the (client_heap ?s c)), 660)) (participants as ?s)"
    using Cons.IH [of ?s] Cons.prems by auto
  have rest: "participants as ?s = participants as s" using participants_after_mix Cons.prems by simp
  have split: "participants (a # as) s = members ?r @ participants as s" by (simp add: participants_def)
  have mixed: "mixed now (a # as) s = mixed now as ?s" by (simp add: Let_def)
  show ?case
  proof (cases "members ?r = []")
    case True
    with outs rest split mixed show ?thesis by simp
  next
    case False
    have "map (\<lambda>d. (fst d, fst (snd d))) (room_datagrams now s ?r) =
        map (\<lambda>c. (c_udp_addr (the (client_heap s c)), 660)) (members ?r)"
      by (simp add: room_datagrams_def mix_datagram_def)
    with False outs rest split mixed show ?thesis
      by (intro exI [of _ "room_datagrams now s ?r @ outs"]) simp
  qed
qed

lemma participants_are_seated:
  assumes "rooms_inv s as"
  shows "distinct (participants as s)"
    "set (participants as s) = {c. \<exists>cl a. client_heap s c = Some cl \<and> c_is_active cl \<and> c_current_room cl = Some a}"
proof -
  note R = rooms_invD [OF assms]
  have room: "\<exists>r. room_heap s a = Some r \<and> room_ok r" if "a \<in> set as" for a
    using that list_ok_mem [OF R(1)] rooms_ok_room [OF R(2)] by blast
  have seat: "c \<in> set (members (the (room_heap s a))) \<longleftrightarrow>
      (\<exists>cl. client_heap s c = Some cl \<and> c_is_active cl \<and> c_current_room cl = Some a)" if a: "a \<in> set as" for a c
  proof -
    obtain r where r: "room_heap s a = Some r" using room [OF a] by blast
    show ?thesis
      using R(3) room_table_Some [OF r] r unfolding linked_def by (metis option.inject option.sel room_data_ok(1))
  qed
  have home: "a \<in> set as" if "client_heap s c = Some cl" "c_is_active cl" "c_current_room cl = Some a" for c cl a
    using linked_current [OF R(3) that] list_ok_mem [OF R(1)] by (auto simp: room_table_def)
  show "set (participants as s) = {c. \<exists>cl a. client_heap s c = Some cl \<and> c_is_active cl \<and> c_current_room cl = Some a}"
    unfolding participants_def using seat home by fastforce
  have "distinct (members (the (room_heap s a)))" if "a \<in> set as" for a
    using room [OF that] participants_okD(4) by (auto simp: room_ok_def)
  moreover have "set (members (the (room_heap s a))) \<inter> set (members (the (room_heap s b))) = {}"
    if "a \<in> set as" "b \<in> set as" "a \<noteq> b" for a b
    using seat that by fastforce
  moreover have "distinct as" using R(1) by (simp add: list_ok_def)
  ultimately show "distinct (participants as s)"
    unfolding participants_def
  proof (induction as)
    case (Cons a as)
    then show ?case by fastforce
  qed simp
qed

section \<open>The clock\<close>

lemma advance_tick_exact:
  assumes "0 \<le> snd t" "snd t < 1000000000"
  shows "fst (advance_tick t) * 1000000000 + snd (advance_tick t) = fst t * 1000000000 + snd t + 20000000 \<and>
    0 \<le> snd (advance_tick t) \<and> snd (advance_tick t) < 1000000000"
  using assms by (auto simp: advance_tick_def Let_def split: prod.splits)

text \<open>The wake-up times do not drift: after any number of rounds exactly 20 milliseconds each have passed.\<close>

lemma clock_does_not_drift:
  assumes "0 \<le> snd t" "snd t < 1000000000"
  shows "fst ((advance_tick ^^ n) t) * 1000000000 + snd ((advance_tick ^^ n) t) =
    fst t * 1000000000 + snd t + int n * 20000000 \<and>
    0 \<le> snd ((advance_tick ^^ n) t) \<and> snd ((advance_tick ^^ n) t) < 1000000000"
proof (induction n)
  case (Suc n)
  with advance_tick_exact [of "(advance_tick ^^ n) t"] show ?case by (simp add: algebra_simps)
qed (use assms in simp)

lemma mixer_thread_safe:
  "held_inv s hs \<Longrightarrow> \<exists>t. mixer_thread_main ticks s = Some t \<and> held_inv t hs"
proof (induction ticks arbitrary: s)
  case (Cons now ticks)
  from tick_safe [OF Cons.prems, of now] Cons show ?case by auto
qed simp

section \<open>Properties\<close>

text \<open>
  C6: a tick of the mixer always ends, keeps the invariant of the server, empties the ring, and sends
  every participant of a room exactly one datagram of 660 bytes to the address it was last heard
  from; nobody else is sent anything.
\<close>

theorem mixer_tick_delivers:
  assumes "held_inv s hs"
  shows "\<exists>t cs outs. mixer_tick now s = Some t \<and> held_inv t hs \<and> ring_contents (shm_ring (ring t)) = [] \<and>
    distinct cs \<and>
    set cs = {c. \<exists>cl a. client_heap s c = Some cl \<and> c_is_active cl \<and> c_current_room cl = Some a} \<and>
    udp_out t = udp_out s @ outs \<and>
    map (\<lambda>d. (fst d, fst (snd d))) outs = map (\<lambda>c. (c_udp_addr (the (client_heap s c)), 660)) cs"
  using assms
proof (rule mixer_tick_runs [where now = now])
  fix q :: ipc and as assume as: "rooms_inv s as" and q: "ring_contents (shm_ring q) = []"
  let ?J = "fold delivered (ring_contents (shm_ring (ring s))) (jitter_buffers s)"
  let ?s = "s\<lparr>ring := q, jitter_buffers := ?J\<rparr>"
  assume t: "mixer_tick now s = Some (mixed now as ?s)" "held_inv (mixed now as ?s) hs"
  have "distinct as" using rooms_invD(1) [OF as] by (simp add: list_ok_def)
  then obtain outs where "udp_out (mixed now as ?s) = udp_out ?s @ outs" "ring (mixed now as ?s) = ring ?s"
      "map (\<lambda>d. (fst d, fst (snd d))) outs = map (\<lambda>c. (c_udp_addr (the (client_heap ?s c)), 660)) (participants as ?s)"
    using mixed_datagrams by blast
  moreover have "participants as ?s = participants as s" by (simp add: participants_def)
  ultimately show ?thesis
    using t q participants_are_seated [OF as]
    by (intro exI [of _ "mixed now as ?s"] exI [of _ "participants as s"] exI [of _ outs]) simp
qed

text \<open>
  C17: mixing a room. Each participant that is not muted contributes the packet its jitter buffer
  yields, however many they are; each participant is sent the mix of the others' samples, and what
  the 640 bytes of the payload decode to is that mix. The semaphore of the room is as before.
\<close>

theorem mix_room_spec:
  assumes "held_inv s hs" "room_heap s a = Some r"
  shows "\<exists>t. mix_room now a s = Some t \<and> room_speaker_sem t = room_speaker_sem s \<and>
    udp_out t = udp_out s @ room_datagrams now s r \<and>
    map (\<lambda>d. pcm_of_bytes (take 640 (ap_payload (snd (snd d))))) (room_datagrams now s r) =
      map (\<lambda>c. mix_for (slot_of s c) (heard_all s (members r))) (members r)"
proof -
  obtain as where as: "rooms_inv s as" using held_invD(1) [OF assms(1)] by blast
  let ?sp = "heard_all s (members r)"
  have "length (snd p) \<le> 320" if "p \<in> set ?sp" for p
    using that length_entry_pcm by (fastforce simp: heard_all_def heard_def split: if_split_asm option.splits)
  then have len: "mix_for l ?sp = map (mix_sample (others l ?sp)) [0..<320]" for l
    by (intro mix_for_sample) blast
  have "pcm_of_bytes (take 640 (overwrite 0 0 (take 640 (bytes_of_pcm (mix_for l ?sp))) (replicate 2048 0))) = mix_for l ?sp" for l
  proof -
    have n: "length (bytes_of_pcm (mix_for l ?sp)) = 640" by (simp add: length_bytes_of_pcm len)
    then have "bytes_of_pcm (mix_for l ?sp) \<noteq> []" by auto
    with n have "take 640 (overwrite 0 0 (take 640 (bytes_of_pcm (mix_for l ?sp))) (replicate 2048 0)) =
        bytes_of_pcm (mix_for l ?sp)" by (simp add: overwrite_def)
    moreover have "pcm_of_bytes (bytes_of_pcm (mix_for l ?sp)) = mix_for l ?sp"
      by (rule pcm_bytes_pcm) (simp add: len mix_sample_range)
    ultimately show ?thesis by simp
  qed
  then have "map (\<lambda>d. pcm_of_bytes (take 640 (ap_payload (snd (snd d))))) (room_datagrams now s r) =
      map (\<lambda>c. mix_for (slot_of s c) ?sp) (members r)"
    by (simp add: room_datagrams_def mix_datagram_def slot_of_def)
  with mix_room_after [OF as held_invD(2,5) [OF assms(1)] assms(2)] show ?thesis
    by (simp add: after_mix_def)
qed

text \<open>
  C18: draining the ring ends, leaves it empty, and is the same as delivering the packets one after the
  other, in the order of their arrival, each to the jitter buffer of its sender's slot; a packet
  with a sender outside the table is dropped.
\<close>

theorem drain_ring_delivers:
  assumes "audio_inv (ring s) (jitter_buffers s) sems"
  shows "\<exists>t. drain_ring s = Some t \<and> ring_contents (shm_ring (ring t)) = [] \<and>
    jitter_buffers t = fold delivered (ring_contents (shm_ring (ring s))) (jitter_buffers s) \<and>
    audio_inv (ring t) (jitter_buffers t) sems"
  using drain_ring_empties [OF assms] by force

text \<open>
  C35: the size field of a datagram is not checked. A datagram from any host that claims more than
  2048 bytes for a slot of the table is put into the ring, and the next tick of the mixer copies
  beyond the payload arrays: its behaviour is undefined.
\<close>

theorem oversized_datagram_undefined:
  assumes "held_inv s hs" "ring_contents (shm_ring (ring s)) = []"
    "unat (ap_sender_id pkt) < MAX_CLIENTS" "AUDIO_PAYLOAD_SIZE < unat (ap_payload_size pkt)"
  shows "\<exists>t. handle_udp_packet (Some (pkt, a, n)) s = Some t \<and> mixer_tick now t = None"
proof -
  note inv = held_invD [OF assms(1)]
  let ?i = "unat (ap_sender_id pkt)"
  have i: "?i < 50" "length (clients s) = 50" "length (jitter_buffers s) = 50"
    using assms(3) table_invD(1) [OF inv(2)] inv(5) by (simp_all add: audio_inv_def)
  have "\<exists>C. (case clients s ! ?i of None \<Rightarrow> Some s
      | Some c \<Rightarrow> upd_client c (\<lambda>cl. cl\<lparr>c_udp_addr := a, c_udp_addr_len := n\<rparr>) s) = Some (s\<lparr>client_heap := C\<rparr>)"
  proof (cases "clients s ! ?i")
    case None
    then show ?thesis by (intro exI [of _ "client_heap s"]) simp
  next
    case (Some c)
    with table_invD(4) [OF inv(2) i(1)] show ?thesis by (auto simp: mem_simps)
  qed
  then obtain C where C: "(case clients s ! ?i of None \<Rightarrow> Some s
      | Some c \<Rightarrow> upd_client c (\<lambda>cl. cl\<lparr>c_udp_addr := a, c_udp_addr_len := n\<rparr>) s) = Some (s\<lparr>client_heap := C\<rparr>)" by blast
  obtain q where q: "ring_buffer_push pkt (ring s) = Some (True, q)" "ipc_inv q" "ring_contents (shm_ring q) = [pkt]"
    using audio_ring.push_space [of "ring s" pkt] assms(2) inv(5) by (auto simp: audio_inv_def)
  let ?t = "s\<lparr>client_heap := C, ring := q\<rparr>"
  have "0 < unat (ap_payload_size pkt)" using assms(4) by linarith
  then have "handle_udp_packet (Some (pkt, a, n)) s = Some ?t"
    using C q(1) i by (simp add: handle_udp_packet_def mem_simps)
  moreover obtain q' where "ring_buffer_pop q = Some (Some pkt, q')"
    using audio_ring.pop_first [OF q(2,3)] by blast
  then have "drain_ring ?t = None"
    using i assms(4) sint_slot [of "ap_sender_id pkt"]
    by (subst drain_ring.simps) (simp add: jitter_buffer_push_def Let_def mem_simps split: option.split)
  ultimately show ?thesis by (simp add: mixer_tick_def)
qed

section \<open>Witnesses\<close>

theorem mixer_tick_delivers_witness:
  "\<exists>t cs outs. mixer_tick 5 joined_server = Some t \<and> 100 \<in> set cs \<and> udp_out t = udp_out joined_server @ outs \<and>
    map (\<lambda>d. (fst d, fst (snd d))) outs = map (\<lambda>c. (c_udp_addr (the (client_heap joined_server c)), 660)) cs"
  using mixer_tick_delivers [OF joined_demo(5), of 5] joined_demo(1) by blast

theorem mix_room_spec_witness:
  "\<exists>r t. room_heap joined_server 200 = Some r \<and> mix_room 5 200 joined_server = Some t \<and>
    udp_out t = udp_out joined_server @ room_datagrams 5 joined_server r"
proof -
  obtain r where r: "room_heap joined_server 200 = Some r" using joined_demo(4) by (auto simp: room_table_def)
  with mix_room_spec [OF joined_demo(5) r, of 5] show ?thesis by blast
qed

theorem drain_ring_delivers_witness:
  "\<exists>s t. ring_contents (shm_ring (ring s)) = [numbered_packet 7] \<and> drain_ring s = Some t \<and>
    ring_contents (shm_ring (ring t)) = [] \<and> jitter_buffers t = delivered (numbered_packet 7) (jitter_buffers s)"
proof -
  obtain q where q: "ipc_inv q" "ring_contents (shm_ring q) = [numbered_packet 7]"
    using audio_ring.push_space [of ring_zero "numbered_packet 7"] ring_zero_inv by auto
  let ?s = "demo_server\<lparr>ring := q\<rparr>"
  have "audio_inv (ring ?s) (jitter_buffers ?s) (room_speaker_sem ?s)"
    using held_invD(5) [OF demo_facts(1)] q by (simp add: audio_inv_def)
  from drain_ring_delivers [OF this] obtain t where "drain_ring ?s = Some t" "ring_contents (shm_ring (ring t)) = []"
      "jitter_buffers t = delivered (numbered_packet 7) (jitter_buffers ?s)" using q(2) by auto
  moreover have "ring_contents (shm_ring (ring ?s)) = [numbered_packet 7]" using q(2) by simp
  ultimately show ?thesis by blast
qed

definition bad_packet :: audio_packet where
  "bad_packet = \<lparr>ap_room_id = 0, ap_sender_id = 0, ap_seq_num = 0, ap_timestamp = 0, ap_payload_size = 3000,
     ap_payload = replicate AUDIO_PAYLOAD_SIZE 0\<rparr>"

theorem oversized_datagram_undefined_witness:
  "\<exists>t. handle_udp_packet (Some (bad_packet, \<lparr>sin_addr = 1, sin_port = 2\<rparr>, 16)) demo_server = Some t \<and>
    mixer_tick 5 t = None"
  by (rule oversized_datagram_undefined [OF demo_facts(1)])
    (simp_all add: demo_facts ring_zero_inv bad_packet_def)

end
