(* ===== verification/Voice_Path.thy ===== *)
theory Voice_Path
  imports End_To_End Mixer_Properties
begin

text \<open>
  The way of a voice through the server: datagrams that arrive go into the ring, a tick empties it into
  the jitter buffer of the speaker, every tick sends the participants of a room one period of the
  only voice in it, and the client of a listener plays it.
\<close>

section \<open>Arrival\<close>

definition udp_event :: "server \<Rightarrow> sockaddr_in \<Rightarrow> audio_packet \<Rightarrow> epoll_event" where
  "udp_event s src pkt = \<lparr>ev_fd = udp_fd s, ev_readable = True, ev_accept = - 1, ev_malloc = None, ev_recv = None,
     ev_datagram = Some (pkt, src, 16)\<rparr>"

definition addressed :: "sockaddr_in \<Rightarrow> client \<Rightarrow> client" where
  "addressed src cl = cl\<lparr>c_udp_addr := src, c_udp_addr_len := 16\<rparr>"

text \<open>Packets of a connected client go into the ring in the order of their arrival, and the client's address is noted.\<close>

lemma arrival:
  assumes "held_inv s hs" "client_heap s c = Some cl" "c_is_active cl" "udp_fd s \<noteq> tcp_listen_fd s" "packet_ok p"
    "unat (ap_sender_id p) = c_slot cl" "0 < unat (ap_payload_size p)"
    "length (ring_contents (shm_ring (ring s))) < RING_BUFFER_CAPACITY"
  obtains q where "handle_event (udp_event s src p) s = Some (s\<lparr>client_heap := (client_heap s)(c \<mapsto> addressed src cl), ring := q\<rparr>)"
    "held_inv (s\<lparr>client_heap := (client_heap s)(c \<mapsto> addressed src cl), ring := q\<rparr>) hs"
    "ring_contents (shm_ring q) = ring_contents (shm_ring (ring s)) @ [p]"
proof -
  note inv = held_invD [OF assms(1)] note T = table_invD [OF inv(2)]
  have slot: "c_slot cl < 50" "clients s ! c_slot cl = Some c" "length (clients s) = 50"
    using T(1) T(5) [OF assms(2,3)] by auto
  obtain q where q: "ring_buffer_push p (ring s) = Some (True, q)" "ring_contents (shm_ring q) = ring_contents (shm_ring (ring s)) @ [p]"
    using audio_ring.push_space [of "ring s" p] assms(8) inv(5) by (auto simp: audio_inv_def)
  have ev: "handle_event (udp_event s src p) s = Some (s\<lparr>client_heap := (client_heap s)(c \<mapsto> addressed src cl), ring := q\<rparr>)"
    using assms(2,4,6,7) slot q(1)
    by (simp add: handle_event_def udp_event_def handle_udp_packet_def mem_simps addressed_def)
  have "safe (handle_event (udp_event s src p) s) hs"
    using udp_safe [OF assms(1), of "Some (p, src, 16)"] assms(4,5) by (simp add: handle_event_def udp_event_def)
  with ev have "held_inv (s\<lparr>client_heap := (client_heap s)(c \<mapsto> addressed src cl), ring := q\<rparr>) hs" by (simp add: safe_def)
  with that ev q(2) show ?thesis by blast
qed

lemma arrivals:
  assumes "held_inv s hs" "client_heap s c = Some cl" "c_is_active cl" "udp_fd s \<noteq> tcp_listen_fd s"
    "\<forall>p \<in> set ps. packet_ok p \<and> unat (ap_sender_id p) = c_slot cl \<and> 0 < unat (ap_payload_size p)"
    "length (ring_contents (shm_ring (ring s))) + length ps \<le> RING_BUFFER_CAPACITY" "c_udp_addr cl = src" "c_udp_addr_len cl = 16"
  shows "\<exists>q. handle_events (map (udp_event s src) ps) s = Some (s\<lparr>ring := q\<rparr>) \<and> held_inv (s\<lparr>ring := q\<rparr>) hs \<and>
    ring_contents (shm_ring q) = ring_contents (shm_ring (ring s)) @ ps"
  using assms
proof (induction ps arbitrary: s)
  case Nil
  then show ?case by (intro exI [of _ "ring s"]) simp
next
  case (Cons p ps)
  have same: "addressed src cl = cl" using Cons.prems(7,8) by (cases cl) (simp add: addressed_def)
  then have C: "(client_heap s)(c \<mapsto> addressed src cl) = client_heap s" using Cons.prems(2) by auto
  obtain q where q: "handle_event (udp_event s src p) s = Some (s\<lparr>ring := q\<rparr>)" "held_inv (s\<lparr>ring := q\<rparr>) hs"
    "ring_contents (shm_ring q) = ring_contents (shm_ring (ring s)) @ [p]"
    using arrival [OF Cons.prems(1-4), of p src] Cons.prems(5,6) unfolding C by auto
  have ev: "udp_event (s\<lparr>ring := q\<rparr>) src = udp_event s src" by (simp add: udp_event_def fun_eq_iff)
  from Cons.IH [OF q(2)] Cons.prems q(3) obtain q' where
    "handle_events (map (udp_event s src) ps) (s\<lparr>ring := q\<rparr>) = Some (s\<lparr>ring := q'\<rparr>)" "held_inv (s\<lparr>ring := q'\<rparr>) hs"
    "ring_contents (shm_ring q') = ring_contents (shm_ring (ring s)) @ p # ps"
    unfolding ev by auto
  with q(1) show ?case by auto
qed

section \<open>One room in a tick\<close>

lemma popped_all_other:
  "i \<notin> slot_of s ` set cs \<Longrightarrow> popped_all s cs ! i = jitter_buffers s ! i"
proof (induction cs arbitrary: s)
  case (Cons c cs)
  then show ?case by (simp add: popped_def Let_def)
qed simp

text \<open>The buffer of a participant after a tick.\<close>

definition left_over :: "server \<Rightarrow> addr \<Rightarrow> jitter_buffer" where
  "left_over s c = (if talking s c then snd (jitter_buffer_pop (jitter_buffers s ! slot_of s c))
     else jitter_buffers s ! slot_of s c)"

lemma popped_all_member:
  assumes "placed s cs" "length (jitter_buffers s) = MAX_CLIENTS" "c \<in> set cs"
  shows "popped_all s cs ! slot_of s c = left_over s c"
  using assms
proof (induction cs arbitrary: s)
  case (Cons d cs)
  let ?s = "s\<lparr>jitter_buffers := popped s d\<rparr>"
  have P: "placed s [d]" "placed s cs" "slot_of s d \<notin> slot_of s ` set cs" "slot_of s d < 50"
    using Cons.prems(1) by (auto simp: placed_def slot_of_def)
  show ?case
  proof (cases "c = d")
    case True
    then have "popped_all ?s cs ! slot_of s c = popped s d ! slot_of s c"
      using popped_all_other [of "slot_of s c" ?s cs] P(3) by (simp add: image_iff)
    with True Cons.prems(2) P(4) show ?thesis by (simp add: popped_def left_over_def Let_def)
  next
    case False
    then have c: "c \<in> set cs" using Cons.prems(3) by simp
    then have "slot_of s c \<noteq> slot_of s d" using P(3) by (metis image_eqI)
    then have "popped s d ! slot_of s c = jitter_buffers s ! slot_of s c" by (simp add: popped_def Let_def)
    with Cons.IH [of ?s] P(2) Cons.prems(2) c show ?thesis by (simp add: popped_length left_over_def)
  qed
qed simp

lemma mixed_append: "mixed now (as @ bs) s = mixed now bs (mixed now as s)"
  by (induction as arbitrary: s) simp_all

text \<open>What mixing other rooms leaves alone.\<close>

lemma mixed_frame:
  "distinct as \<Longrightarrow> a \<notin> set as \<Longrightarrow> room_heap (mixed now as s) a = room_heap s a"
  "client_heap (mixed now as s) = client_heap s" "server_on (mixed now as s) = server_on s"
  "udp_fd (mixed now as s) = udp_fd s" "tcp_listen_fd (mixed now as s) = tcp_listen_fd s"
  "ring (mixed now as s) = ring s"
  by (induction as arbitrary: s) (auto simp: Let_def after_mix_def)

lemma popped_all_length: "length (popped_all s cs) = length (jitter_buffers s)"
  by (induction cs arbitrary: s) (simp_all add: popped_length)

lemma mixed_buffers_length: "length (jitter_buffers (mixed now as s)) = length (jitter_buffers s)"
  by (induction as arbitrary: s) (simp_all add: Let_def after_mix_def popped_all_length)

lemma mixed_buffers:
  assumes "distinct as" "i \<notin> slot_of s ` set (participants as s)"
  shows "jitter_buffers (mixed now as s) ! i = jitter_buffers s ! i"
  using assms
proof (induction as arbitrary: s)
  case (Cons a as)
  let ?r = "the (room_heap s a)"
  let ?s = "if members ?r = [] then s else after_mix now a ?r s"
  have parts: "participants as ?s = participants as s" using participants_after_mix Cons.prems(1) by simp
  have slots: "slot_of ?s = slot_of s" by (simp add: slot_of_def fun_eq_iff)
  have i: "i \<notin> slot_of s ` set (members ?r)" "i \<notin> slot_of s ` set (participants as s)"
    using Cons.prems(2) by (auto simp: participants_def)
  have "jitter_buffers ?s ! i = jitter_buffers s ! i" using popped_all_other [OF i(1)] by (simp add: after_mix_def)
  with Cons.IH [of ?s] Cons.prems(1) i(2) parts slots show ?case by (simp add: Let_def)
qed simp

lemma mixed_addresses:
  assumes "distinct as"
  obtains outs where "udp_out (mixed now as s) = udp_out s @ outs"
    "map fst outs = map (\<lambda>c. c_udp_addr (the (client_heap s c))) (participants as s)"
proof -
  obtain outs where o: "udp_out (mixed now as s) = udp_out s @ outs"
      "map (\<lambda>d. (fst d, fst (snd d))) outs = map (\<lambda>c. (c_udp_addr (the (client_heap s c)), 660)) (participants as s)"
    using mixed_datagrams [OF assms, of now s] by blast
  from arg_cong [OF o(2), of "map fst"] that o(1) show ?thesis by (simp add: comp_def)
qed

text \<open>A room between others: what is heard in it, what is sent and what is left in the buffers.\<close>

lemma mixed_one_room:
  assumes "distinct (xs @ a # ys)" "room_heap s a = Some r" "members r \<noteq> []" "placed s (members r)"
    "length (jitter_buffers s) = MAX_CLIENTS"
    "\<And>c. c \<in> set (members r) \<Longrightarrow> slot_of s c \<notin> slot_of s ` set (participants xs s @ participants ys s)"
  obtains outs outs' where "udp_out (mixed now (xs @ a # ys) s) = udp_out s @ outs @ room_datagrams now s r @ outs'"
    "map fst (outs @ outs') = map (\<lambda>c. c_udp_addr (the (client_heap s c))) (participants xs s @ participants ys s)"
    "room_heap (mixed now (xs @ a # ys) s) a = Some (with_speakers (heard_all s (members r)) r)"
    "\<And>c. c \<in> set (members r) \<Longrightarrow> jitter_buffers (mixed now (xs @ a # ys) s) ! slot_of s c = left_over s c"
proof -
  let ?s1 = "mixed now xs s" let ?s2 = "after_mix now a r ?s1"
  have d: "distinct xs" "distinct ys" "a \<notin> set xs" "a \<notin> set ys" "set xs \<inter> set ys = {}" using assms(1) by auto
  have s1: "room_heap ?s1 a = Some r" "client_heap ?s1 = client_heap s"
    using mixed_frame(1) [OF d(1,3)] mixed_frame(2) assms(2) by simp_all
  have eq: "mixed now (xs @ a # ys) s = mixed now ys ?s2" using s1 assms(3) by (simp add: mixed_append Let_def)
  have heap: "slot_of ?s1 = slot_of s" "slot_of ?s2 = slot_of s" "talking ?s1 = talking s"
    using s1(2) by (simp_all add: slot_of_def talking_def fun_eq_iff)
  then have pl: "placed ?s1 (members r)" using assms(4) s1(2) by (simp add: placed_def)
  have buf: "jitter_buffers ?s1 ! slot_of s c = jitter_buffers s ! slot_of s c" if "c \<in> set (members r)" for c
    using assms(6) [OF that] by (intro mixed_buffers [OF d(1)]) auto
  have heard: "heard_all ?s1 (members r) = heard_all s (members r)"
    unfolding heard_all_def using heard_cong [OF s1(2)] buf by (intro arg_cong [of _ _ concat] map_cong) auto
  have room: "room_datagrams now ?s1 r = room_datagrams now s r" by (simp add: room_datagrams_def heard s1(2))
  have "room_heap ?s1 b = room_heap s b" if "b \<in> set ys" for b using that d by (intro mixed_frame(1)) auto
  then have parts: "participants ys ?s2 = participants ys s"
    unfolding participants_after_mix [OF d(4)] by (auto simp: participants_def intro!: arg_cong [of _ _ concat])
  obtain outs where outs: "udp_out ?s1 = udp_out s @ outs"
      "map fst outs = map (\<lambda>c. c_udp_addr (the (client_heap s c))) (participants xs s)"
    using mixed_addresses [OF d(1)] .
  obtain outs' where outs': "udp_out (mixed now ys ?s2) = udp_out ?s2 @ outs'"
      "map fst outs' = map (\<lambda>c. c_udp_addr (the (client_heap ?s2 c))) (participants ys ?s2)"
    using mixed_addresses [OF d(2)] .
  show ?thesis
  proof (rule that)
    show "udp_out (mixed now (xs @ a # ys) s) = udp_out s @ outs @ room_datagrams now s r @ outs'"
      by (simp add: eq outs'(1) outs(1) room)
    show "map fst (outs @ outs') = map (\<lambda>c. c_udp_addr (the (client_heap s c))) (participants xs s @ participants ys s)"
      using outs(2) outs'(2) parts s1(2) by simp
    show "room_heap (mixed now (xs @ a # ys) s) a = Some (with_speakers (heard_all s (members r)) r)"
      unfolding eq mixed_frame(1) [OF d(2,4)] by (simp add: heard)
    fix c assume c: "c \<in> set (members r)"
    have "jitter_buffers (mixed now ys ?s2) ! slot_of s c = jitter_buffers ?s2 ! slot_of s c"
      using assms(6) [OF c] by (intro mixed_buffers [OF d(2)]) (auto simp: heap parts)
    also have "\<dots> = left_over s c"
      using popped_all_member [of ?s1 "members r" c] pl c heap buf [OF c] mixed_buffers_length assms(5)
      by (simp add: after_mix_def left_over_def)
    finally show "jitter_buffers (mixed now (xs @ a # ys) s) ! slot_of s c = left_over s c" by (simp add: eq)
  qed
qed

lemma seated_slots:
  assumes "held_inv s hs" "rooms_inv s as"
  shows "inj_on (slot_of s) (set (participants as s))"
    "\<forall>c \<in> set (participants as s). \<exists>cl. client_heap s c = Some cl \<and> c_is_active cl"
proof -
  note T = table_invD [OF held_invD(2) [OF assms(1)]]
  show seat: "\<forall>c \<in> set (participants as s). \<exists>cl. client_heap s c = Some cl \<and> c_is_active cl"
    using participants_are_seated(2) [OF assms(2)] by blast
  have "clients s ! slot_of s c = Some c" if c: "c \<in> set (participants as s)" for c
    using seat c T(5) [of c] by (auto simp: slot_of_def)
  then show "inj_on (slot_of s) (set (participants as s))" by (intro inj_onI) (metis option.inject)
qed

lemma ring_frame [simp]:
  "slot_of (s\<lparr>ring := q\<rparr>) = slot_of s" "participants as (s\<lparr>ring := q\<rparr>) = participants as s"
  "talking (s\<lparr>ring := q\<rparr>) = talking s" "heard (s\<lparr>ring := q\<rparr>) = heard s" "heard_all (s\<lparr>ring := q\<rparr>) = heard_all s"
  "room_datagrams now (s\<lparr>ring := q\<rparr>) r = room_datagrams now s r" "left_over (s\<lparr>ring := q\<rparr>) = left_over s"
proof -
  show heard: "heard (s\<lparr>ring := q\<rparr>) = heard s" by (rule ext, rule heard_cong) simp_all
  show all: "heard_all (s\<lparr>ring := q\<rparr>) = heard_all s" by (rule ext) (simp add: heard_all_def heard)
  then show "room_datagrams now (s\<lparr>ring := q\<rparr>) r = room_datagrams now s r" by (simp add: room_datagrams_def)
qed (auto simp: slot_of_def participants_def talking_def left_over_def fun_eq_iff)

text \<open>A tick with an empty ring, seen from one room.\<close>

lemma tick_room:
  assumes "held_inv s hs" "ring_contents (shm_ring (ring s)) = []" "room_heap s a = Some r" "members r \<noteq> []"
  obtains t outs outs' where "mixer_tick now s = Some t" "held_inv t hs" "ring_contents (shm_ring (ring t)) = []"
    "client_heap t = client_heap s" "server_on t = server_on s"
    "room_heap t a = Some (with_speakers (heard_all s (members r)) r)"
    "udp_out t = udp_out s @ outs @ room_datagrams now s r @ outs'"
    "\<forall>d \<in> set (outs @ outs'). \<exists>c cl. c \<notin> set (members r) \<and> client_heap s c = Some cl \<and> c_is_active cl \<and> fst d = c_udp_addr cl"
    "\<And>c. c \<in> set (members r) \<Longrightarrow> jitter_buffers t ! slot_of s c = left_over s c"
  using assms(1)
proof (rule mixer_tick_runs [where now = now])
  fix q :: ipc and as assume as: "rooms_inv s as" and q: "ring_contents (shm_ring q) = []"
  let ?s = "s\<lparr>ring := q\<rparr>"
  assume "mixer_tick now s = Some (mixed now as (s\<lparr>ring := q,
      jitter_buffers := fold delivered (ring_contents (shm_ring (ring s))) (jitter_buffers s)\<rparr>))"
    "held_inv (mixed now as (s\<lparr>ring := q,
      jitter_buffers := fold delivered (ring_contents (shm_ring (ring s))) (jitter_buffers s)\<rparr>)) hs"
  then have t: "mixer_tick now s = Some (mixed now as ?s)" "held_inv (mixed now as ?s) hs" using assms(2) by simp_all
  note R = rooms_invD [OF as] and S = seated_slots [OF assms(1) as]
  have dist: "distinct as" "a \<in> set as" using R(1) assms(3) list_ok_mem [OF R(1)] by (auto simp: list_ok_def)
  then obtain xs ys where xs: "as = xs @ a # ys" by (metis split_list)
  have parts: "participants as s = participants xs s @ members r @ participants ys s"
    using assms(3) by (simp add: xs participants_def)
  have others: "set (members r) \<inter> set (participants xs s @ participants ys s) = {}"
    using participants_are_seated(1) [OF as] unfolding parts by auto
  have slots: "slot_of s c \<notin> slot_of s ` set (participants xs s @ participants ys s)" if "c \<in> set (members r)" for c
    using that others inj_on_image_mem_iff [OF S(1), of c "set (participants xs s @ participants ys s)"] by (auto simp: parts)
  have "placed ?s (members r)"
    using members_placed(1) [OF as held_invD(2) [OF assms(1)] assms(3)] by (simp add: placed_def)
  then obtain outs outs' where outs: "udp_out (mixed now (xs @ a # ys) ?s) = udp_out ?s @ outs @ room_datagrams now ?s r @ outs'"
    "map fst (outs @ outs') = map (\<lambda>c. c_udp_addr (the (client_heap ?s c))) (participants xs ?s @ participants ys ?s)"
    "room_heap (mixed now (xs @ a # ys) ?s) a = Some (with_speakers (heard_all ?s (members r)) r)"
    "\<And>c. c \<in> set (members r) \<Longrightarrow> jitter_buffers (mixed now (xs @ a # ys) ?s) ! slot_of ?s c = left_over ?s c"
    using mixed_one_room [of xs a ys ?s r now] dist(1) xs assms(3,4) slots held_invD(5) [OF assms(1)]
    by (auto simp: audio_inv_def)
  have "\<exists>c cl. c \<notin> set (members r) \<and> client_heap s c = Some cl \<and> c_is_active cl \<and> fst d = c_udp_addr cl"
    if "d \<in> set (outs @ outs')" for d
  proof -
    have "fst d \<in> set (map fst (outs @ outs'))" using that by auto
    then obtain c where c: "c \<in> set (participants xs s @ participants ys s)" "fst d = c_udp_addr (the (client_heap s c))"
      unfolding outs(2) by auto
    then have "c \<in> set (participants as s)" "c \<notin> set (members r)" using others by (auto simp: parts)
    with S(2) c(2) show ?thesis by fastforce
  qed
  then show ?thesis
    using that [OF t, of outs outs'] outs(1,3,4) q by (simp add: xs mixed_frame(2-))
qed

section \<open>A room with one voice\<close>

lemma concat_single:
  "distinct xs \<Longrightarrow> x \<in> set xs \<Longrightarrow> \<forall>y \<in> set xs. y \<noteq> x \<longrightarrow> f y = [] \<Longrightarrow> concat (map f xs) = f x"
  by (induction xs) (auto simp: concat_eq_Nil_conv)

definition only_voice :: "addr \<Rightarrow> addr \<Rightarrow> server \<Rightarrow> jitter_buffer \<Rightarrow> bool" where
  "only_voice a sp s jb \<longleftrightarrow> (\<exists>r. room_heap s a = Some r \<and> sp \<in> set (members r) \<and> talking s sp \<and>
     jitter_buffers s ! slot_of s sp = jb \<and>
     (\<forall>c \<in> set (members r). c \<noteq> sp \<longrightarrow> jb_count (jitter_buffers s ! slot_of s c) = 0))"

lemma filter_single:
  "distinct xs \<Longrightarrow> x \<in> set xs \<Longrightarrow> \<forall>y \<in> set xs. P y \<longleftrightarrow> y = x \<Longrightarrow> filter P xs = [x]"
  by (induction xs) (auto simp: filter_empty_conv)

lemma silent_buffer: "jb_count jb = 0 \<Longrightarrow> jitter_buffer_pop jb = (None, jb\<lparr>jb_buffering := True\<rparr>)"
  by (simp add: jitter_buffer_pop_def)

lemma only_voice_heard:
  assumes "only_voice a sp s jb" "jitter_buffer_pop jb = (Some e, jb')" "room_heap s a = Some r" "distinct (members r)"
  shows "heard_all s (members r) = [(slot_of s sp, entry_pcm e)]"
proof -
  have V: "sp \<in> set (members r)" "talking s sp" "jitter_buffers s ! slot_of s sp = jb"
      "\<forall>c \<in> set (members r). c \<noteq> sp \<longrightarrow> jb_count (jitter_buffers s ! slot_of s c) = 0"
    using assms(1,3) by (auto simp: only_voice_def)
  have "\<forall>c \<in> set (members r). c \<noteq> sp \<longrightarrow> heard s c = []" using V(4) silent_buffer by (simp add: heard_def)
  then have "heard_all s (members r) = heard s sp" unfolding heard_all_def by (rule concat_single [OF assms(4) V(1)])
  with V(2,3) assms(2) show ?thesis by (simp add: heard_def)
qed

abbreviation datagrams_to :: "sockaddr_in \<Rightarrow> server \<Rightarrow> (sockaddr_in \<times> nat \<times> audio_packet) list" where
  "datagrams_to addr s \<equiv> filter (\<lambda>d. fst d = addr) (udp_out s)"

text \<open>The address of a listener is its own.\<close>

definition own_address :: "addr \<Rightarrow> client \<Rightarrow> server \<Rightarrow> bool" where
  "own_address l lc s \<longleftrightarrow> client_heap s l = Some lc \<and>
     (\<forall>c cl. client_heap s c = Some cl \<and> c_is_active cl \<and> c_udp_addr cl = c_udp_addr lc \<longrightarrow> c = l)"

lemma own_datagram:
  assumes "distinct (members r)" "l \<in> set (members r)" "own_address l lc s"
    "\<forall>c \<in> set (members r). \<exists>cl. client_heap s c = Some cl \<and> c_is_active cl"
  shows "filter (\<lambda>d. fst d = c_udp_addr lc) (room_datagrams now s r) =
    [mix_datagram now (r_room_id r) (heard_all s (members r)) lc]"
proof -
  let ?d = "\<lambda>c. mix_datagram now (r_room_id r) (heard_all s (members r)) (the (client_heap s c))"
  have lc: "client_heap s l = Some lc" using assms(3) by (simp add: own_address_def)
  have "filter (\<lambda>c. fst (?d c) = c_udp_addr lc) (members r) = [l]"
    by (rule filter_single [OF assms(1,2)]) (use assms(3,4) lc in \<open>fastforce simp: own_address_def mix_datagram_def\<close>)
  then show ?thesis using lc by (simp add: room_datagrams_def filter_map comp_def)
qed

lemma voice_tick:
  assumes "held_inv s hs" "ring_contents (shm_ring (ring s)) = []" "only_voice a sp s jb"
    "jitter_buffer_pop jb = (Some e, jb')" "room_heap s a = Some r" "l \<in> set (members r)" "own_address l lc s"
  obtains t r' where "mixer_tick now s = Some t" "held_inv t hs" "ring_contents (shm_ring (ring t)) = []"
    "only_voice a sp t jb'" "client_heap t = client_heap s" "server_on t = server_on s"
    "room_heap t a = Some r'" "members r' = members r" "r_room_id r' = r_room_id r"
    "datagrams_to (c_udp_addr lc) t = datagrams_to (c_udp_addr lc) s @
      [mix_datagram now (r_room_id r) [(slot_of s sp, entry_pcm e)] lc]"
proof -
  have V: "sp \<in> set (members r)" "talking s sp" "jitter_buffers s ! slot_of s sp = jb"
      "\<forall>c \<in> set (members r). c \<noteq> sp \<longrightarrow> jb_count (jitter_buffers s ! slot_of s c) = 0"
    using assms(3,5) by (auto simp: only_voice_def)
  obtain as where as: "rooms_inv s as" using held_invD(1) [OF assms(1)] by blast
  have act: "\<forall>c \<in> set (members r). \<exists>cl. client_heap s c = Some cl \<and> c_is_active cl"
    using members_placed(2) [OF as held_invD(2) [OF assms(1)] assms(5)] by blast
  have dist: "distinct (members r)"
    using rooms_ok_room [OF rooms_invD(2) [OF as] assms(5)] participants_okD(4) by (simp add: room_ok_def)
  have heard: "heard_all s (members r) = [(slot_of s sp, entry_pcm e)]" by (rule only_voice_heard [OF assms(3-5) dist])
  have "members r \<noteq> []" using V(1) by auto
  then obtain t outs outs' where t: "mixer_tick now s = Some t" "held_inv t hs" "ring_contents (shm_ring (ring t)) = []"
    "client_heap t = client_heap s" "server_on t = server_on s"
    "room_heap t a = Some (with_speakers (heard_all s (members r)) r)"
    "udp_out t = udp_out s @ outs @ room_datagrams now s r @ outs'"
    "\<forall>d \<in> set (outs @ outs'). \<exists>c cl. c \<notin> set (members r) \<and> client_heap s c = Some cl \<and> c_is_active cl \<and> fst d = c_udp_addr cl"
    "\<And>c. c \<in> set (members r) \<Longrightarrow> jitter_buffers t ! slot_of s c = left_over s c"
    using tick_room [OF assms(1,2,5), of now] by blast
  have "fst d \<noteq> c_udp_addr lc" if "d \<in> set (outs @ outs')" for d
    using t(8) that assms(6,7) unfolding own_address_def by metis
  then have "filter (\<lambda>d. fst d = c_udp_addr lc) outs = []" "filter (\<lambda>d. fst d = c_udp_addr lc) outs' = []"
    by (simp_all add: filter_empty_conv)
  then have out: "datagrams_to (c_udp_addr lc) t = datagrams_to (c_udp_addr lc) s @
      [mix_datagram now (r_room_id r) [(slot_of s sp, entry_pcm e)] lc]"
    using t(7) own_datagram [OF dist assms(6,7) act] by (simp add: heard)
  have "left_over s sp = jb'" using V(2,3) assms(4) by (simp add: left_over_def)
  moreover have "jb_count (left_over s c) = 0" if "c \<in> set (members r)" "c \<noteq> sp" for c
    using V(4) that silent_buffer by (simp add: left_over_def)
  ultimately have "only_voice a sp t jb'"
    using t(4,6,9) V(1,2) by (simp add: only_voice_def slot_of_def talking_def)
  with t(1-5) out that [OF _ _ _ _ _ _ t(6)] show ?thesis by simp
qed

lemma voice_ticks:
  assumes "held_inv s hs" "ring_contents (shm_ring (ring s)) = []" "only_voice a sp s jb" "server_on s"
    "pop_many (length nows) jb = (map Some es, jb')" "room_heap s a = Some r" "l \<in> set (members r)" "own_address l lc s"
  shows "\<exists>t. mixer_thread_main nows s = Some t \<and> held_inv t hs \<and> datagrams_to (c_udp_addr lc) t = datagrams_to (c_udp_addr lc) s @
    map2 (\<lambda>now e. mix_datagram now (r_room_id r) [(slot_of s sp, entry_pcm e)] lc) nows es"
  using assms
proof (induction nows arbitrary: s jb es r)
  case (Cons now nows)
  obtain x jb1 where pop: "jitter_buffer_pop jb = (x, jb1)" by fastforce
  with Cons.prems(5) obtain e es' where e: "es = e # es'" "x = Some e" "pop_many (length nows) jb1 = (map Some es', jb')"
    by (cases es) (auto split: prod.splits)
  obtain t r' where t: "mixer_tick now s = Some t" "held_inv t hs" "ring_contents (shm_ring (ring t)) = []"
    "only_voice a sp t jb1" "client_heap t = client_heap s" "server_on t = server_on s"
    "room_heap t a = Some r'" "members r' = members r" "r_room_id r' = r_room_id r"
    "datagrams_to (c_udp_addr lc) t = datagrams_to (c_udp_addr lc) s @
      [mix_datagram now (r_room_id r) [(slot_of s sp, entry_pcm e)] lc]"
    using voice_tick [OF Cons.prems(1-3) pop [unfolded e(2)] Cons.prems(6-8)] by blast
  have "slot_of t = slot_of s" "own_address l lc t" using t(5) Cons.prems(8) by (simp_all add: slot_of_def own_address_def fun_eq_iff)
  with Cons.IH [OF t(2,3,4) _ e(3) t(7)] Cons.prems(4,7) t obtain u where
    "mixer_thread_main nows t = Some u" "held_inv u hs" "datagrams_to (c_udp_addr lc) u = datagrams_to (c_udp_addr lc) t @
      map2 (\<lambda>now e. mix_datagram now (r_room_id r) [(slot_of s sp, entry_pcm e)] lc) nows es'"
    by auto
  with Cons.prems(4) t(1,10) e(1) show ?case by simp
qed simp

section \<open>From the ring to the buffer of the speaker\<close>

lemma delivered_all:
  assumes "\<forall>p \<in> set ps. unat (ap_sender_id p) = i" "i < MAX_CLIENTS" "length jbs = MAX_CLIENTS" "push_all ps (jbs ! i) = Some jb"
  shows "fold delivered ps jbs = jbs[i := jb]"
  using assms
proof (induction ps arbitrary: jbs)
  case (Cons p ps)
  then obtain jb1 where jb1: "jitter_buffer_push p (jbs ! i) = Some jb1" "push_all ps jb1 = Some jb" by (auto elim: bind_eq_SomeE)
  with Cons.prems have "delivered p jbs = jbs[i := jb1]" by (simp add: delivered_def Let_def)
  with Cons.IH [of "jbs[i := jb1]"] Cons.prems jb1(2) show ?case by simp
qed (metis fold_simps(1) list_update_id option.inject push_list.simps(1))

lemma drain_empty:
  "ipc_inv (ring s) \<Longrightarrow> ring_contents (shm_ring (ring s)) = [] \<Longrightarrow> drain_ring s = Some s"
  using audio_ring.pop_empty [of "ring s"] by (subst drain_ring.simps) simp

text \<open>The mixer thread goes on from the drained ring.\<close>

lemma drained_first:
  assumes "held_inv s hs" "server_on s" "ring_contents (shm_ring (ring s)) = ps" "\<forall>p \<in> set ps. unat (ap_sender_id p) = i"
    "i < MAX_CLIENTS" "push_all ps (jitter_buffers s ! i) = Some jb"
  obtains q where "held_inv (s\<lparr>ring := q, jitter_buffers := (jitter_buffers s)[i := jb]\<rparr>) hs" "ring_contents (shm_ring q) = []"
    "\<And>now nows. mixer_thread_main (now # nows) s =
      mixer_thread_main (now # nows) (s\<lparr>ring := q, jitter_buffers := (jitter_buffers s)[i := jb]\<rparr>)"
proof -
  note inv = held_invD [OF assms(1)]
  obtain as where as: "rooms_inv s as" using inv(1) by blast
  have J: "fold delivered ps (jitter_buffers s) = (jitter_buffers s)[i := jb]"
    using delivered_all [OF assms(4,5) _ assms(6)] inv(5) by (simp add: audio_inv_def)
  obtain q where q: "drain_ring s = Some (s\<lparr>ring := q, jitter_buffers := (jitter_buffers s)[i := jb]\<rparr>)"
      "ring_contents (shm_ring q) = []" "audio_inv q ((jitter_buffers s)[i := jb]) (room_speaker_sem s)"
    using drain_ring_empties [OF inv(5)] assms(3) J by auto
  let ?t = "s\<lparr>ring := q, jitter_buffers := (jitter_buffers s)[i := jb]\<rparr>"
  have "rooms_inv ?t as" using as rooms_inv_cong [of ?t s as] by simp
  then have "held_inv ?t hs" using inv q(3) by (auto simp: held_inv_def)
  moreover have "drain_ring ?t = Some ?t" using q by (intro drain_empty) (simp_all add: audio_inv_def)
  ultimately show ?thesis using that q assms(2) by (simp add: mixer_tick_def)
qed

section \<open>The listener\<close>

lemma receiver_step_running [simp]: "v_running (audio_receiver_step n p w) = v_running w"
  by (simp add: audio_receiver_step_def Let_def)

lemma plays_voice:
  assumes "length bs = 640" "slot \<noteq> c_slot lc" "mix_datagram now room_id [(slot, pcm_of_bytes bs)] lc = (addr, n, pkt)"
  shows "v_played (audio_receiver_step (int n) pkt w) = v_played w @ bs"
proof -
  have len: "length (pcm_of_bytes bs) = 320" by (simp add: length_pcm_of_bytes assms(1))
  obtain b where b: "v_played (audio_receiver_step (int n) pkt w) = v_played w @ b" "length b = 640"
      "pcm_of_bytes b = mix_for (c_slot lc) [(slot, pcm_of_bytes bs)]"
    using client_plays_mix [OF _ assms(3), of w] len by auto
  have "mix_for (c_slot lc) [(slot, pcm_of_bytes bs)] = pcm_of_bytes bs"
    by (rule mix_for_single [OF len pcm_of_bytes_range]) (use assms(2) in simp)
  then have "bytes_of_pcm (pcm_of_bytes b) = bytes_of_pcm (pcm_of_bytes bs)" using b(3) by simp
  then have "b = bs" using b(2) assms(1) by (simp add: bytes_pcm_bytes)
  with b(1) show ?thesis by simp
qed

abbreviation received :: "(sockaddr_in \<times> nat \<times> audio_packet) list \<Rightarrow> (int \<times> audio_packet) list" where
  "received ds \<equiv> map (\<lambda>(_, n, pkt). (int n, pkt)) ds"

lemma plays_voices:
  assumes "v_running w" "slot \<noteq> c_slot lc" "length nows = length bss" "\<forall>bs \<in> set bss. length bs = 640"
  shows "v_played (receiver_loop (received (map2 (\<lambda>now bs. mix_datagram now room_id [(slot, pcm_of_bytes bs)] lc) nows bss)) w) =
    v_played w @ concat bss"
  using assms(3,1,4)
proof (induction nows bss arbitrary: w rule: list_induct2)
  case (Cons now nows bs bss)
  obtain addr n pkt where d: "mix_datagram now room_id [(slot, pcm_of_bytes bs)] lc = (addr, n, pkt)" by (metis prod_cases3)
  from plays_voice [OF _ assms(2) d, of w] Cons d show ?case by simp
qed simp

text \<open>The server between the arrival of a burst and the first tick after it.\<close>

lemma burst_ready:
  assumes "held_inv s hs" "server_on s" "room_heap s a = Some r" "sp \<in> set (members r)" "talking s sp"
    "\<forall>c \<in> set (members r). jb_count (jitter_buffers s ! slot_of s c) = 0"
    "ring_contents (shm_ring (ring s)) = ps" "\<forall>p \<in> set ps. unat (ap_sender_id p) = slot_of s sp"
    "push_all ps (jitter_buffers s ! slot_of s sp) = Some jb"
  obtains t where "held_inv t hs" "server_on t" "ring_contents (shm_ring (ring t)) = []" "only_voice a sp t jb"
    "room_heap t = room_heap s" "client_heap t = client_heap s" "udp_out t = udp_out s"
    "\<And>now nows. mixer_thread_main (now # nows) s = mixer_thread_main (now # nows) t"
proof -
  obtain as where as: "rooms_inv s as" using held_invD(1) [OF assms(1)] by blast
  have pl: "placed s (members r)" by (rule members_placed(1) [OF as held_invD(2) [OF assms(1)] assms(3)])
  then have i: "slot_of s sp < 50" using assms(4) by (auto simp: placed_def slot_of_def)
  have other: "slot_of s sp \<noteq> slot_of s c" if "c \<in> set (members r)" "c \<noteq> sp" for c
    using pl that assms(4) by (auto simp: placed_def distinct_map dest: inj_onD)
  obtain q where q: "held_inv (s\<lparr>ring := q, jitter_buffers := (jitter_buffers s)[slot_of s sp := jb]\<rparr>) hs"
      "ring_contents (shm_ring q) = []" "\<And>now nows. mixer_thread_main (now # nows) s =
      mixer_thread_main (now # nows) (s\<lparr>ring := q, jitter_buffers := (jitter_buffers s)[slot_of s sp := jb]\<rparr>)"
    using drained_first [OF assms(1,2,7,8) i assms(9)] by blast
  have "only_voice a sp (s\<lparr>ring := q, jitter_buffers := (jitter_buffers s)[slot_of s sp := jb]\<rparr>) jb"
    using assms(3-6) i other held_invD(5) [OF assms(1)] by (auto simp: only_voice_def audio_inv_def)
  with that [OF q(1)] q(2,3) assms(2) show ?thesis by simp
qed

lemma burst_heard:
  assumes "held_inv s hs" "server_on s" "udp_fd s \<noteq> tcp_listen_fd s" "ring_contents (shm_ring (ring s)) = []"
    "room_heap s a = Some r" "sp \<in> set (members r)" "l \<in> set (members r)"
    "\<forall>c \<in> set (members r). jb_count (jitter_buffers s ! slot_of s c) = 0"
    "client_heap s sp = Some sc" "c_is_active sc" "\<not> c_is_mute sc" "c_udp_addr sc = src" "c_udp_addr_len sc = 16"
    "own_address l lc s" "\<forall>p \<in> set ps. packet_ok p \<and> unat (ap_sender_id p) = c_slot sc \<and> 0 < unat (ap_payload_size p)"
    "length ps \<le> RING_BUFFER_CAPACITY" "ps \<noteq> []" "length nows = length ps"
    "push_all ps (jitter_buffers s ! c_slot sc) = Some jb" "pop_many (length ps) jb = (map Some es, jb')"
  shows "\<exists>t u. handle_events (map (udp_event s src) ps) s = Some t \<and> mixer_thread_main nows t = Some u \<and> held_inv u hs \<and>
    datagrams_to (c_udp_addr lc) u = datagrams_to (c_udp_addr lc) s @
      map2 (\<lambda>now e. mix_datagram now (r_room_id r) [(c_slot sc, entry_pcm e)] lc) nows es"
proof -
  have sp: "talking s sp" "slot_of s sp = c_slot sc" using assms(9-11) by (simp_all add: talking_def slot_of_def)
  obtain q where q: "handle_events (map (udp_event s src) ps) s = Some (s\<lparr>ring := q\<rparr>)" "held_inv (s\<lparr>ring := q\<rparr>) hs"
      "ring_contents (shm_ring q) = ps"
    using arrivals [OF assms(1,9,10,3,15) _ assms(12,13)] assms(4,16) by auto
  obtain t where t: "held_inv t hs" "server_on t" "ring_contents (shm_ring (ring t)) = []" "only_voice a sp t jb"
      "room_heap t = room_heap s" "client_heap t = client_heap s" "udp_out t = udp_out s"
      "\<And>now nows. mixer_thread_main (now # nows) (s\<lparr>ring := q\<rparr>) = mixer_thread_main (now # nows) t"
    using burst_ready [OF q(2), of a r sp ps jb] assms(2,5,6,8,15,19) q(3) sp by auto
  have "slot_of t sp = c_slot sc" "own_address l lc t" using t(6) sp(2) assms(14) by (simp_all add: slot_of_def own_address_def)
  then obtain u where "mixer_thread_main nows t = Some u" "held_inv u hs" "datagrams_to (c_udp_addr lc) u =
      datagrams_to (c_udp_addr lc) t @ map2 (\<lambda>now e. mix_datagram now (r_room_id r) [(c_slot sc, entry_pcm e)] lc) nows es"
    using voice_ticks [OF t(1,3,4,2), of nows es jb' r l lc] assms(5,7,18,20) t(5) by auto
  moreover obtain now nows' where "nows = now # nows'" using assms(17,18) by (cases nows) auto
  ultimately show ?thesis using q(1) t(7,8) by auto
qed

lemma map2_right: "map g ys = map h zs \<Longrightarrow> map2 (\<lambda>x y. f x (g y)) xs ys = map2 (\<lambda>x z. f x (h z)) xs zs"
proof (induction xs arbitrary: ys zs)
  case (Cons x xs)
  then show ?case by (cases ys; cases zs) auto
qed simp

lemma entries_pcm:
  assumes "map (\<lambda>e. take (unat (je_payload_size e)) (je_payload e)) es = bss" "\<forall>bs \<in> set bss. length bs = 640"
  shows "map entry_pcm es = map pcm_of_bytes bss"
  using assms(2) unfolding assms(1) [symmetric] by (auto intro: entry_pcm_full)

lemma thread_plays_voices:
  assumes "v_running w" "slot \<noteq> c_slot lc" "length nows = length bss" "\<forall>bs \<in> set bss. length bs = 640"
  shows "v_played (audio_receiver_thread True (received (map2 (\<lambda>now bs. mix_datagram now i [(slot, pcm_of_bytes bs)] lc) nows bss)) w) =
    v_played w @ replicate 6400 0 @ concat bss"
  using plays_voices [OF _ assms(2-4), of "receiver_prefill (w\<lparr>v_recv_count := 0\<rparr>)"] assms(1)
  by (simp add: audio_receiver_thread_def receiver_prefill_def)

end
