(* ===== verification/Example_Duo.thy ===== *)
theory Example_Duo
  imports Voice_Path
begin

text \<open>
  A room with two participants, used by the witness for the way of a voice: a second client connects
  to the server of \<open>Example_Run\<close>, both register an address, and the second joins the room of the first.
\<close>

definition second_event :: epoll_event where
  "second_event = \<lparr>ev_fd = 3, ev_readable = True, ev_accept = 8, ev_malloc = Some 101, ev_recv = None,
     ev_datagram = None\<rparr>"

abbreviation (input) first_address :: sockaddr_in where "first_address \<equiv> \<lparr>sin_addr = 1, sin_port = 1\<rparr>"
abbreviation (input) second_address :: sockaddr_in where "second_address \<equiv> \<lparr>sin_addr = 2, sin_port = 2\<rparr>"

definition first_client :: client where
  "first_client = addressed first_address ((new_client 7 0)\<lparr>c_current_room := Some 200\<rparr>)"

definition second_client :: client where
  "second_client = addressed second_address (new_client 8 1)"

definition guest_server :: server where
  "guest_server = joined_server\<lparr>client_heap := (client_heap joined_server)(101 \<mapsto> new_client 8 1),
     clients := (clients joined_server)[1 := Some 101], client_count := client_count joined_server + 1,
     fd_to_slot := (fd_to_slot joined_server)[8 := 1], open_fds := open_fds joined_server @ [8]\<rparr>"

lemma demo_tables:
  "clients demo_server = Some 100 # replicate 49 None" "client_count demo_server = 1" "length (fd_to_slot demo_server) = 4096"
  "server_on demo_server" "jitter_buffers demo_server = replicate 50 jitter_zero"
proof -
  have "(replicate 50 None)[0 := Some 100] = Some (100 :: addr) # replicate 49 None" using replicate_Suc [of 49 "None :: addr option"] by simp
  moreover have "jitter_buffers first_server = replicate 50 jitter_zero" by (rule boot_state [OF boot_demo])
  ultimately show "clients demo_server = Some 100 # replicate 49 None" "client_count demo_server = 1"
    "length (fd_to_slot demo_server) = 4096" "server_on demo_server" "jitter_buffers demo_server = replicate 50 jitter_zero"
    using first_server_facts(3) by (simp_all only: demo_server_def) simp_all
qed

lemma guest_accepted: "held_inv guest_server []"
proof -
  have "first_free_slot 0 (clients joined_server) = Some 1" "length (clients joined_server) = 50"
    using joined_demo(8) demo_tables(1) first_free_replicate [of 49 1] by simp_all
  then have "handle_event second_event joined_server = Some guest_server"
    using joined_demo(9-13) demo_facts(11) demo_tables(2,3)
    by (simp add: handle_event_def second_event_def accept_new_client_def mem_simps in_fd_map_def guest_server_def)
  moreover have "event_ok second_event joined_server"
    using joined_demo(6,11) demo_facts(10) by (simp add: event_ok_def second_event_def)
  ultimately show ?thesis using event_safe [OF joined_demo(5), of second_event] by (simp add: safe_def)
qed

definition addressed_server :: server where
  "addressed_server = guest_server\<lparr>client_heap := [100 \<mapsto> first_client, 101 \<mapsto> second_client]\<rparr>"

lemma addressed_inv: "held_inv addressed_server []"
proof -
  have h: "client_heap guest_server = [100 \<mapsto> (new_client 7 0)\<lparr>c_current_room := Some 200\<rparr>, 101 \<mapsto> new_client 8 1]"
    using joined_demo(6) by (simp add: guest_server_def)
  have "held_inv (guest_server\<lparr>client_heap := (client_heap guest_server)(100 \<mapsto> first_client)\<rparr>) []"
    by (rule held_client_update [OF guest_accepted, of 100 "(new_client 7 0)\<lparr>c_current_room := Some 200\<rparr>"]) (simp_all add: h first_client_def addressed_def shape_eq)
  then have "held_inv (guest_server\<lparr>client_heap := (client_heap guest_server)(100 \<mapsto> first_client, 101 \<mapsto> second_client)\<rparr>) []"
    using held_client_update [of "guest_server\<lparr>client_heap := (client_heap guest_server)(100 \<mapsto> first_client)\<rparr>" "[]" 101 "new_client 8 1" second_client]
    by (simp add: h second_client_def addressed_def shape_eq)
  moreover have "(client_heap guest_server)(100 \<mapsto> first_client, 101 \<mapsto> second_client) = [100 \<mapsto> first_client, 101 \<mapsto> second_client]"
    unfolding h by (simp add: fun_eq_iff)
  ultimately show ?thesis unfolding addressed_server_def by simp
qed

lemma duo:
  obtains s r where "held_inv s []" "server_on s" "udp_fd s \<noteq> tcp_listen_fd s" "ring_contents (shm_ring (ring s)) = []"
    "room_heap s 200 = Some r" "members r = [100, 101]" "jitter_buffers s = replicate 50 jitter_zero"
    "client_heap s = [100 \<mapsto> first_client, 101 \<mapsto> second_client\<lparr>c_current_room := Some 200\<rparr>]" "udp_out s = udp_out joined_server"
proof -
  obtain r where r: "room_heap joined_server 200 = Some r" "members r = [100]" "r_password r = []" using joined_demo(7) by blast
  obtain as where as: "rooms_inv addressed_server as" using held_invD(1) [OF addressed_inv] by blast
  have h: "client_heap addressed_server = [100 \<mapsto> first_client, 101 \<mapsto> second_client]" by (simp add: addressed_server_def)
  have c: "c_is_active second_client" "c_current_room second_client = None" by (simp_all add: second_client_def addressed_def)
  have "room_heap addressed_server 200 = Some r" using r(1) by (simp add: addressed_server_def guest_server_def)
  then obtain h' d r1 s where s: "s = addressed_server\<lparr>room_heap := h', db := d,
      client_heap := (client_heap addressed_server)(101 \<mapsto> second_client\<lparr>c_current_room := Some 200\<rparr>)\<rparr>"
      "rooms_inv s as" "room_table s = (room_table addressed_server)(200 \<mapsto> r1)" "members r1 = members r @ [101]"
    using room_join_enter [OF as _ c, of 101 200 r "[]"] r h by auto
  have "same_shapes (client_heap addressed_server) (client_heap s)"
    unfolding s(1) by (simp add: h same_shapes_def shape_def)
  then have inv: "held_inv s []" by (rule held_room_change [OF addressed_inv s(2)]) (simp_all add: s(1))
  have "room_table s 200 = Some r1" using s(3) by simp
  then obtain r2 where r2: "room_heap s 200 = Some r2" "room_data r2 = r1" by (auto simp: room_table_def)
  have "members r2 = [100, 101]" using s(4) r(2) r2(2) by auto
  then show ?thesis
    using that [OF inv _ _ _ r2(1)] joined_demo(12-16) demo_facts demo_tables ring_zero_inv
    by (simp add: s(1) addressed_server_def guest_server_def)
qed

end
