(* ===== verification/Voice_Properties.thy ===== *)
theory Voice_Properties
  imports Example_Duo
begin

text \<open>
  A voice end to end: a client records and sends, the network reorders, the server receives the
  datagrams, the mixer reorders and mixes them tick by tick, and a client in the same room plays
  what was recorded.
\<close>

section \<open>The property\<close>

text \<open>
  C5: a voice reaches the listener. In a room where one participant speaks, its client is not muted and
  has registered its address with START. It records five to twenty full periods, and their packets
  reach the server in any order before the next tick. Then as many ticks of the mixer send every other
  participant of the room, at its own address, datagrams from which its client plays, after the
  silence it starts with, exactly the recorded bytes in the order of recording.
\<close>

theorem voice_reaches_listener:
  assumes "held_inv s hs" "server_on s" "udp_fd s \<noteq> tcp_listen_fd s" "ring_contents (shm_ring (ring s)) = []"
    "room_heap s a = Some r" "sp \<in> set (members r)" "l \<in> set (members r)" "l \<noteq> sp"
    "\<forall>c \<in> set (members r). jb_count (jitter_buffers s ! slot_of s c) = 0"
    "client_heap s sp = Some sc" "\<not> c_is_mute sc" "c_udp_addr sc = src" "c_udp_addr_len sc = 16"
    "own_address l lc s" "v_running w"
    "v_running v" "\<not> v_mic_muted v" "v_client_slot v = int (c_slot sc)"
    "0 \<le> v_audio_seq v" "v_audio_seq v + int (length its) \<le> 2147483647"
    "\<forall>it \<in> set its. length (snd it) = AUDIO_PAYLOAD_SIZE" "length its \<le> JITTER_BUFFER_SIZE" "5 \<le> length (full_reads its)"
  shows "\<exists>v' pkts. audio_sender_thread True its v = Some v' \<and> v_udp_sent v' = v_udp_sent v @ map (Pair 660) pkts \<and>
    (\<forall>arrived nows. mset arrived = mset pkts \<and> length nows = length pkts \<longrightarrow>
      (\<exists>t u ds. handle_events (map (udp_event s src) arrived) s = Some t \<and> mixer_thread_main nows t = Some u \<and> held_inv u hs \<and>
        datagrams_to (c_udp_addr lc) u = datagrams_to (c_udp_addr lc) s @ ds \<and>
        v_played (audio_receiver_thread True (received ds) w) = v_played w @ replicate 6400 0 @ concat (full_reads its)))"
proof -
  obtain as where as: "rooms_inv s as" using held_invD(1) [OF assms(1)] by blast
  note M = members_placed [OF as held_invD(2) [OF assms(1)] assms(5)]
  have "slot_of s sp \<noteq> slot_of s l" using M(1) assms(6-8) by (auto simp: placed_def distinct_map dest: inj_onD)
  then have sc: "c_is_active sc" "c_slot sc < 50" "c_slot sc \<noteq> c_slot lc"
    using M assms(6,10,14) by (auto simp: slot_of_def placed_def own_address_def)
  obtain v' pkts where run: "audio_sender_thread True its v = Some v'" "v_udp_sent v' = v_udp_sent v @ map (Pair 660) pkts"
      "map (\<lambda>p. take 640 (ap_payload p)) pkts = full_reads its"
      "\<forall>p \<in> set pkts. packet_ok p \<and> ap_payload_size p = 640 \<and> ap_sender_id p = of_int (v_client_slot v)"
      "map ap_seq_num pkts = map (\<lambda>i. of_int (v_audio_seq v + int i)) [0..<length pkts]"
    using sender_loop_sends [OF assms(17,20,19,21,16)] by (auto simp: audio_sender_thread_def)
  have n: "length pkts = length (full_reads its)" "length pkts \<le> 20"
    using arg_cong [OF run(3), of length] assms(22) full_reads_le [of its] by simp_all
  have buffer: "jb_ok (jitter_buffers s ! c_slot sc)" "jb_packets (jitter_buffers s ! c_slot sc) = {#}"
    using held_invD(5) [OF assms(1)] sc(2) assms(6,9,10) size_jb_packets [of "jitter_buffers s ! c_slot sc"]
    by (auto simp: audio_inv_def slot_of_def)
  have "\<exists>t u ds. handle_events (map (udp_event s src) arrived) s = Some t \<and> mixer_thread_main nows t = Some u \<and> held_inv u hs \<and>
      datagrams_to (c_udp_addr lc) u = datagrams_to (c_udp_addr lc) s @ ds \<and>
      v_played (audio_receiver_thread True (received ds) w) = v_played w @ replicate 6400 0 @ concat (full_reads its)"
    if arr: "mset arrived = mset pkts" "length nows = length pkts" for arrived nows
  proof -
    have arr': "length arrived = length pkts" "set arrived = set pkts" "mset (map packet_view arrived) = mset (map packet_view pkts)"
      using mset_eq_length [OF arr(1)] mset_eq_setD [OF arr(1)] arr(1) by simp_all
    have ok: "\<forall>p \<in> set arrived. packet_ok p \<and> unat (ap_sender_id p) = c_slot sc \<and> 0 < unat (ap_payload_size p)"
      using run(4) arr'(2) sc(2) assms(18) by (simp add: unsigned_of_nat take_bit_nat_eq_self)
    obtain jb es jb' where jb: "push_all arrived (jitter_buffers s ! c_slot sc) = Some jb"
        "pop_many (length arrived) jb = (map Some es, jb')" "map jpacket es = map packet_view pkts"
      using reordered_speech [OF buffer(1,2) _ _ run(5) arr'(3)] n assms(23) ok by auto
    have "map (\<lambda>p. take (unat (ap_payload_size p)) (ap_payload p)) pkts = full_reads its"
      unfolding run(3) [symmetric] using run(4) by simp
    then have "map (\<lambda>e. take (unat (je_payload_size e)) (je_payload e)) es = full_reads its"
      using arg_cong [OF jb(3), of "map (\<lambda>x. snd (snd x))"] by (simp add: jpacket_def packet_view_def comp_def)
    then have pcm: "map entry_pcm es = map pcm_of_bytes (full_reads its)" by (rule entries_pcm [OF _ full_reads_length])
    have "arrived \<noteq> []" "length arrived \<le> 128" "length nows = length arrived" using arr'(1) arr(2) n assms(23) by auto
    note heard = burst_heard [OF assms(1-7,9,10) sc(1) assms(11-14) ok this(2,1,3) jb(1,2)]
    have "map2 (\<lambda>now e. mix_datagram now (r_room_id r) [(c_slot sc, entry_pcm e)] lc) nows es =
        map2 (\<lambda>now bs. mix_datagram now (r_room_id r) [(c_slot sc, pcm_of_bytes bs)] lc) nows (full_reads its)"
      by (rule map2_right [OF pcm, of "\<lambda>now p. mix_datagram now (r_room_id r) [(c_slot sc, p)] lc"])
    with heard thread_plays_voices [OF assms(15) sc(3) _ full_reads_length, of nows its] arr(2) n(1)
    show ?thesis by metis
  qed
  with run(1,2) show ?thesis by blast
qed

section \<open>Witness\<close>

definition recording :: "(byte list list \<times> byte list) list" where
  "recording = map (\<lambda>i. ([replicate 640 (of_nat i)], replicate 2048 0)) [1..<6]"

lemma recording_facts:
  "full_reads recording = map (\<lambda>i. replicate 640 (of_nat i)) [1..<6]" "length recording = 5"
  "\<forall>it \<in> set recording. length (snd it) = 2048"
  by (simp_all add: full_reads_def recording_def comp_def)

theorem voice_reaches_listener_witness:
  "\<exists>s t u nows ds arrived. held_inv s [] \<and> handle_events (map (udp_event s first_address) arrived) s = Some t \<and>
    mixer_thread_main nows t = Some u \<and> datagrams_to second_address u = datagrams_to second_address s @ ds \<and>
    v_played (audio_receiver_thread True (received ds) client_zero) =
      replicate 6400 0 @ concat (map (\<lambda>i. replicate 640 (of_nat i)) [1..<6])"
proof (rule duo)
  fix s r assume s: "held_inv s []" "server_on s" "udp_fd s \<noteq> tcp_listen_fd s" "ring_contents (shm_ring (ring s)) = []"
    "room_heap s 200 = Some r" "members r = [100, 101]" "jitter_buffers s = replicate 50 jitter_zero"
    "client_heap s = [100 \<mapsto> first_client, 101 \<mapsto> second_client\<lparr>c_current_room := Some 200\<rparr>]"
  let ?v = "client_zero\<lparr>v_mic_muted := False, v_client_slot := 0\<rparr>" let ?lc = "second_client\<lparr>c_current_room := Some 200\<rparr>"
  have c: "slot_of s 100 = 0" "slot_of s 101 = 1" "own_address 101 ?lc s" "c_udp_addr ?lc = second_address"
    by (auto simp: slot_of_def s(8) first_client_def second_client_def addressed_def own_address_def split: if_splits)
  have "\<exists>v' pkts. audio_sender_thread True recording ?v = Some v' \<and> v_udp_sent v' = v_udp_sent ?v @ map (Pair 660) pkts \<and>
    (\<forall>arrived nows. mset arrived = mset pkts \<and> length nows = length pkts \<longrightarrow>
      (\<exists>t u ds. handle_events (map (udp_event s first_address) arrived) s = Some t \<and> mixer_thread_main nows t = Some u \<and> held_inv u [] \<and>
        datagrams_to (c_udp_addr ?lc) u = datagrams_to (c_udp_addr ?lc) s @ ds \<and>
        v_played (audio_receiver_thread True (received ds) client_zero) =
          v_played client_zero @ replicate 6400 0 @ concat (full_reads recording)))"
    by (rule voice_reaches_listener [OF s(1-5), where sp = 100 and l = 101 and sc = first_client])
      (use s(6-8) c in \<open>simp_all add: recording_facts client_zero_def first_client_def addressed_def jitter_zero_def\<close>)
  then obtain pkts where "\<forall>arrived nows. mset arrived = mset pkts \<and> length nows = length pkts \<longrightarrow>
      (\<exists>t u ds. handle_events (map (udp_event s first_address) arrived) s = Some t \<and> mixer_thread_main nows t = Some u \<and> held_inv u [] \<and>
        datagrams_to (c_udp_addr ?lc) u = datagrams_to (c_udp_addr ?lc) s @ ds \<and>
        v_played (audio_receiver_thread True (received ds) client_zero) =
          v_played client_zero @ replicate 6400 0 @ concat (full_reads recording))" by blast
  from this [rule_format, of pkts "replicate (length pkts) 0"] obtain t u ds where
    "handle_events (map (udp_event s first_address) pkts) s = Some t" "mixer_thread_main (replicate (length pkts) 0) t = Some u"
    "datagrams_to (c_udp_addr ?lc) u = datagrams_to (c_udp_addr ?lc) s @ ds"
    "v_played (audio_receiver_thread True (received ds) client_zero) =
          v_played client_zero @ replicate 6400 0 @ concat (full_reads recording)" by auto
  then show ?thesis using s(1) c(4) unfolding recording_facts(1) by (auto simp: client_zero_def)
qed

end
