(* ===== verification/Example_Session.thy ===== *)
theory Example_Session
  imports Example_Run
begin

text \<open>
  A session as the server sees it: the client of \<open>Example_Run\<close> logs in as administrator, creates a room
  and joins it, each time by a command that the network thread queues and a worker takes and runs. The
  state it ends in is reachable and has a room with a participant.
\<close>

section \<open>One command\<close>

text \<open>The server between two commands of the only client.\<close>

definition quiet :: "server \<Rightarrow> client \<Rightarrow> bool" where
  "quiet s cl \<longleftrightarrow> sys_reachable (s, client_handler_init) \<and> server_on s \<and> task_list (tasks s) = [] \<and>
     tcp_listen_fd s = 3 \<and> udp_fd s = 4 \<and> client_heap s = [100 \<mapsto> cl] \<and> c_is_active cl \<and> c_fd cl = 7 \<and>
     c_ref_count cl = 1"

definition recv_event :: "string \<Rightarrow> epoll_event" where
  "recv_event line = \<lparr>ev_fd = 7, ev_readable = True, ev_accept = - 1, ev_malloc = None, ev_recv = Some line,
     ev_datagram = None\<rparr>"

lemma c_string_id: "nul \<notin> set cs \<Longrightarrow> c_string cs = cs"
  by (simp add: c_string_def takeWhile_eq_all_conv) metis

lemma recv_queued:
  assumes "quiet s cl" "line \<noteq> []" "nul \<notin> set line" "length line < MAX_PACKET_SIZE"
  obtains q where "task_ok q" "task_list q = [\<lparr>task_c = Some 100, task_command = line\<rparr>]"
    "sys_reachable (s\<lparr>client_heap := [100 \<mapsto> cl\<lparr>c_ref_count := 2\<rparr>], tasks := q\<rparr>, client_handler_init)"
proof -
  note Q = assms(1) [unfolded quiet_def]
  have inv: "held_inv s (worker_holders client_handler_init)" using Q reachable_held by blast
  have ok: "task_ok (tasks s)" "tq_count (tasks s) = 0"
    using held_invD(4) [OF inv] Q length_task_list [of "tasks s"] by (simp_all add: tasks_ok_def)
  obtain q where q: "task_put \<lparr>task_c = Some 100, task_command = line\<rparr> (tasks s) = Some (True, q)" "task_ok q"
      "task_list q = [\<lparr>task_c = Some 100, task_command = line\<rparr>]"
    using task_put_space [OF ok(1), of "\<lparr>task_c = Some 100, task_command = line\<rparr>"] ok(2) Q by auto
  have "client_of_fd 7 s = Some (Some (c_slot cl, 100))"
    using client_of_fd_connected [OF inv, of 100 cl] Q by (simp add: in_fd_map_def)
  moreover obtain b bs where "line = b # bs" using assms(2) by (cases line) auto
  ultimately have "handle_event (recv_event line) s = Some (s\<lparr>client_heap := [100 \<mapsto> cl\<lparr>c_ref_count := 2\<rparr>], tasks := q\<rparr>)"
    using Q q(1) assms(4) c_string_id [OF assms(3)] ok(2)
    by (simp add: handle_event_def recv_event_def handle_tcp_command_def mem_simps process_client_command_def)
  moreover have "action_ok (Net (recv_event line)) (s, client_handler_init)"
    using assms(4) by (simp add: event_ok_def recv_event_def)
  ultimately have "sys_step (s, client_handler_init) (s\<lparr>client_heap := [100 \<mapsto> cl\<lparr>c_ref_count := 2\<rparr>], tasks := q\<rparr>, client_handler_init)"
    by (intro act [of "Net (recv_event line)"]) simp_all
  with Q q that show ?thesis by (blast intro: reach_step)
qed

text \<open>A whole round: the command is queued, taken by the first worker, and run.\<close>

lemma command_round:
  assumes "quiet s cl" "line \<noteq> []" "nul \<notin> set line" "length line < MAX_PACKET_SIZE"
    "strtok_first is_delim line = Some cmd" "\<And>n. m = Some n \<Longrightarrow> room_heap s n = None"
  obtains q where "task_list q = []" "\<And>t u. dispatch m 100 cmd (strtok_rest is_delim line)
      (s\<lparr>client_heap := [100 \<mapsto> cl\<lparr>c_ref_count := 2\<rparr>], tasks := q\<rparr>) = Some t \<Longrightarrow> drop_ref 100 t = Some u \<Longrightarrow>
      sys_reachable (u, client_handler_init)"
proof -
  note Q = assms(1) [unfolded quiet_def]
  let ?task = "\<lparr>task_c = Some 100, task_command = line\<rparr>" and ?ws = client_handler_init
  obtain q where q: "task_ok q" "task_list q = [?task]"
      "sys_reachable (s\<lparr>client_heap := [100 \<mapsto> cl\<lparr>c_ref_count := 2\<rparr>], tasks := q\<rparr>, ?ws)"
    using recv_queued [OF assms(1-4)] .
  obtain q' where q': "task_take q = Some (Some ?task, q')" "task_list q' = []"
    using task_take_first [OF q(1,2)] by blast
  let ?s = "s\<lparr>client_heap := [100 \<mapsto> cl\<lparr>c_ref_count := 2\<rparr>], tasks := q'\<rparr>"
  have ws: "0 < length ?ws" "?ws ! 0 = None" by (simp_all add: client_handler_init_def)
  have "sys_step (s\<lparr>client_heap := [100 \<mapsto> cl\<lparr>c_ref_count := 2\<rparr>], tasks := q\<rparr>, ?ws) (?s, ?ws[0 := Some ?task])"
    using q'(1) Q ws by (intro act [of "Take 0"]) (simp_all add: worker_take_def)
  with q(3) have reach: "sys_reachable (?s, ?ws[0 := Some ?task])" by (rule reach_step)
  have "sys_reachable (u, ?ws)" if "dispatch m 100 cmd (strtok_rest is_delim line) ?s = Some t" "drop_ref 100 t = Some u" for t u
  proof -
    have "run_task m ?task ?s = Some u" using that Q assms(5) by (simp add: run_task_def run_checked_def)
    then have "perform (Work 0 m) (?s, ?ws[0 := Some ?task]) = Some (u, ?ws)"
      using ws by (simp add: mem_simps list_update_same_conv)
    moreover have "action_ok (Work 0 m) (?s, ?ws[0 := Some ?task])" using ws assms(6) by simp
    ultimately have "sys_step (?s, ?ws[0 := Some ?task]) (u, ?ws)" by (intro act)
    with reach show ?thesis by (rule reach_step)
  qed
  with q'(2) that show ?thesis by blast
qed

lemma drop_ref_two:
  "client_heap t = [100 \<mapsto> cl\<lparr>c_ref_count := 2\<rparr>] \<Longrightarrow> c_ref_count cl = 1 \<Longrightarrow> drop_ref 100 t = Some (t\<lparr>client_heap := [100 \<mapsto> cl]\<rparr>)"
  by (cases cl) (simp add: drop_ref_def mem_simps)

text \<open>A command that leaves the switch, the sockets and the queue alone ends in a quiet server.\<close>

lemma quiet_round:
  assumes "quiet s cl" "line \<noteq> []" "nul \<notin> set line" "length line < MAX_PACKET_SIZE"
    "strtok_first is_delim line = Some cmd" "\<And>n. m = Some n \<Longrightarrow> room_heap s n = None"
    "\<And>q. \<exists>t. dispatch m 100 cmd (strtok_rest is_delim line) (s\<lparr>client_heap := [100 \<mapsto> cl\<lparr>c_ref_count := 2\<rparr>], tasks := q\<rparr>) = Some t \<and>
       server_on t \<and> tasks t = q \<and> tcp_listen_fd t = 3 \<and> udp_fd t = 4 \<and>
       client_heap t = [100 \<mapsto> cl'\<lparr>c_ref_count := 2\<rparr>] \<and> P t"
    "c_is_active cl'" "c_fd cl' = 7" "c_ref_count cl' = 1"
  obtains t where "quiet (t\<lparr>client_heap := [100 \<mapsto> cl']\<rparr>) cl'" "P t"
proof -
  obtain q where q: "task_list q = []" "\<And>t u. dispatch m 100 cmd (strtok_rest is_delim line)
      (s\<lparr>client_heap := [100 \<mapsto> cl\<lparr>c_ref_count := 2\<rparr>], tasks := q\<rparr>) = Some t \<Longrightarrow> drop_ref 100 t = Some u \<Longrightarrow>
      sys_reachable (u, client_handler_init)"
    by (rule command_round [OF assms(1-6)]) (simp, blast)
  obtain t where t: "dispatch m 100 cmd (strtok_rest is_delim line) (s\<lparr>client_heap := [100 \<mapsto> cl\<lparr>c_ref_count := 2\<rparr>], tasks := q\<rparr>) = Some t"
       "server_on t" "tasks t = q" "tcp_listen_fd t = 3" "udp_fd t = 4"
       "client_heap t = [100 \<mapsto> cl'\<lparr>c_ref_count := 2\<rparr>]" "P t"
    using assms(7) by blast
  have "quiet (t\<lparr>client_heap := [100 \<mapsto> cl']\<rparr>) cl'"
    using q(2) [OF t(1) drop_ref_two [OF t(6) assms(10)]] q(1) t assms(8-10) by (simp add: quiet_def)
  then show ?thesis using that t(7) by blast
qed

section \<open>Login, create, join\<close>

definition admin_client :: client where
  "admin_client = (new_client 7 0)\<lparr>c_user_id := 0, c_username := ''admin'', c_role := ROLE_ADMIN\<rparr>"

lemma admin_client_facts [simp]:
  "c_is_active admin_client" "c_fd admin_client = 7" "c_ref_count admin_client = 1" "c_user_id admin_client = 0"
  "c_role admin_client = ROLE_ADMIN" "c_current_room admin_client = None"
  by (simp_all add: admin_client_def)

lemma demo_quiet: "quiet demo_server (new_client 7 0)"
  using demo_reachable demo_facts first_server_facts by (simp add: quiet_def demo_server_def)

lemma login_round: obtains s where "quiet s admin_client" "room_table s = Map.empty"
proof -
  have line: "strtok_first is_delim ''LOGIN admin admin123'' = Some ''LOGIN''"
    "strtok_rest is_delim ''LOGIN admin admin123'' = Some ''admin admin123''" by code_simp+
  have run: "\<exists>t. dispatch None 100 ''LOGIN'' (strtok_rest is_delim ''LOGIN admin admin123'')
        (demo_server\<lparr>client_heap := [100 \<mapsto> (new_client 7 0)\<lparr>c_ref_count := 2\<rparr>], tasks := q\<rparr>) = Some t \<and>
      server_on t \<and> tasks t = q \<and> tcp_listen_fd t = 3 \<and> udp_fd t = 4 \<and>
      client_heap t = [100 \<mapsto> admin_client\<lparr>c_ref_count := 2\<rparr>] \<and> room_heap t = Map.empty" for q
    using demo_login demo_args demo_facts first_server_facts
    by (simp add: dispatch_def line handle_login_def strcasecmp_eq_def send_ok_def send_response_def mem_simps
        demo_server_def admin_client_def new_client_def)
  obtain t where "quiet (t\<lparr>client_heap := [100 \<mapsto> admin_client]\<rparr>) admin_client" "room_heap t = Map.empty"
    by (rule quiet_round [OF demo_quiet _ _ _ line(1) _ run]) simp_all
  moreover from this have "room_table (t\<lparr>client_heap := [100 \<mapsto> admin_client]\<rparr>) = Map.empty"
    by (simp add: room_table_def fun_eq_iff)
  ultimately show ?thesis using that by blast
qed

lemma dispatch_rooms:
  "dispatch m c ''CREATE'' args s = handle_create_room m c args s"
  "dispatch m c ''JOIN'' args s = handle_join_room c args s"
proof -
  have "\<not> strcasecmp_eq ''CREATE'' ''LOGIN''" "\<not> strcasecmp_eq ''CREATE'' ''REGISTER''" "\<not> strcasecmp_eq ''CREATE'' ''LOGOUT''"
    "\<not> strcasecmp_eq ''JOIN'' ''LOGIN''" "\<not> strcasecmp_eq ''JOIN'' ''REGISTER''" "\<not> strcasecmp_eq ''JOIN'' ''LOGOUT''"
    "\<not> strcasecmp_eq ''JOIN'' ''CREATE''" "strcasecmp_eq ''CREATE'' ''CREATE''" "strcasecmp_eq ''JOIN'' ''JOIN''" by code_simp+
  then show "dispatch m c ''CREATE'' args s = handle_create_room m c args s" "dispatch m c ''JOIN'' args s = handle_join_room c args s"
    by (simp_all add: dispatch_def)
qed

text \<open>The rooms between the reception of a command and its execution.\<close>

lemma quiet_rooms:
  assumes "quiet s cl"
  obtains as where "rooms_inv (s\<lparr>client_heap := [100 \<mapsto> cl\<lparr>c_ref_count := 2\<rparr>], tasks := q\<rparr>) as" "set as = dom (room_table s)"
proof -
  note Q = assms [unfolded quiet_def]
  obtain as where as: "rooms_inv s as" using held_invD(1) [OF reachable_held] Q by blast
  have "rooms_inv (s\<lparr>client_heap := [100 \<mapsto> cl\<lparr>c_ref_count := 2\<rparr>]\<rparr>) as"
    by (rule rooms_inv_seated [OF as]) (use Q in \<open>simp add: seated_def fun_eq_iff\<close>)
  then have "rooms_inv (s\<lparr>client_heap := [100 \<mapsto> cl\<lparr>c_ref_count := 2\<rparr>], tasks := q\<rparr>) as"
    by (subst rooms_inv_cong) simp_all
  moreover have "set as = dom (room_table s)" using rooms_invD(1) [OF as] by (auto simp: list_ok_def room_table_def dom_def)
  ultimately show ?thesis by (rule that)
qed

abbreviation lobby_only :: "server \<Rightarrow> room \<Rightarrow> bool" where
  "lobby_only s r \<equiv> room_table s = [200 \<mapsto> r] \<and> r_room_name r = ''lobby'' \<and> r_password r = []"

lemma create_round:
  assumes "quiet s admin_client" "room_table s = Map.empty"
  obtains s' r where "quiet s' admin_client" "lobby_only s' r" "members r = []"
proof -
  have line: "strtok_first is_delim ''CREATE lobby'' = Some ''CREATE''" "strtok_rest is_delim ''CREATE lobby'' = Some ''lobby''"
    "scan_words 31 63 (Some ''lobby'') = (''lobby'', [])" by code_simp+
  have none: "room_heap s = Map.empty" using assms(2) by (auto simp: room_table_def fun_eq_iff)
  have run: "\<exists>t. dispatch (Some 200) 100 ''CREATE'' (strtok_rest is_delim ''CREATE lobby'')
        (s\<lparr>client_heap := [100 \<mapsto> admin_client\<lparr>c_ref_count := 2\<rparr>], tasks := q\<rparr>) = Some t \<and>
      server_on t \<and> tasks t = q \<and> tcp_listen_fd t = 3 \<and> udp_fd t = 4 \<and>
      client_heap t = [100 \<mapsto> admin_client\<lparr>c_ref_count := 2\<rparr>] \<and> (\<exists>r. lobby_only t r \<and> members r = [])" for q
  proof -
    let ?s = "s\<lparr>client_heap := [100 \<mapsto> admin_client\<lparr>c_ref_count := 2\<rparr>], tasks := q\<rparr>"
    obtain as where as: "rooms_inv ?s as" "set as = {}" using quiet_rooms [OF assms(1), of q] assms(2) by auto
    obtain k h p d s' where s': "room_create (Some 200) ''lobby'' [] 100 ?s = Some (int k, s')" "k < 32"
        "s' = ?s\<lparr>room_head := p, room_heap := h, room_count := room_count ?s + 1, db := d\<rparr>"
        "room_table s' = (room_table ?s)(200 \<mapsto> room_data (new_room k ''lobby'' []))"
      using room_create_new [OF as(1), of "''lobby''" "[]" 200 100] none as(2) by (auto simp: fits_def)
    have tab: "room_table (s'\<lparr>tcp_out := x\<rparr>) = [200 \<mapsto> room_data (new_room k ''lobby'' [])]" for x
      using s'(4) assms(2) room_table_cong [of ?s s] room_table_cong [of "s'\<lparr>tcp_out := x\<rparr>" s'] by simp
    have "dispatch (Some 200) 100 ''CREATE'' (strtok_rest is_delim ''CREATE lobby'') ?s =
        send_ok 100 ''Room created successfully'' None s'"
      using s'(1) by (simp add: dispatch_rooms line handle_create_room_def auth_check_permission_def)
    moreover have "lobby_only (s'\<lparr>tcp_out := x\<rparr>) (room_data (new_room k ''lobby'' []))" for x
      using tab by (simp add: new_room_def)
    ultimately show ?thesis
      using assms(1) new_room_facts [of k "''lobby''" "[]"] room_data_ok(1) [of "new_room k ''lobby'' []"]
      by (fastforce simp: send_ok_def send_response_def s'(3) quiet_def)
  qed
  obtain t where t: "quiet (t\<lparr>client_heap := [100 \<mapsto> admin_client]\<rparr>) admin_client" "\<exists>r. lobby_only t r \<and> members r = []"
    by (rule quiet_round [OF assms(1) _ _ _ line(1) _ run]) (simp_all add: none)
  then show ?thesis using that room_table_cong [of "t\<lparr>client_heap := [100 \<mapsto> admin_client]\<rparr>" t] by fastforce
qed

lemma join_round:
  assumes "quiet s admin_client" "lobby_only s r" "members r = []"
  obtains s' r' where "quiet s' (admin_client\<lparr>c_current_room := Some 200\<rparr>)" "lobby_only s' r'" "members r' = [100]"
proof -
  have line: "strtok_first is_delim ''JOIN lobby'' = Some ''JOIN''" "strtok_rest is_delim ''JOIN lobby'' = Some ''lobby''"
    "scan_words 31 63 (Some ''lobby'') = (''lobby'', [])" by code_simp+
  have "room_table s 200 = Some r" using assms(2) by simp
  then obtain r0 where r0: "room_heap s 200 = Some r0" "room_data r0 = r" by (auto simp: room_table_def)
  have only: "room_heap s a = None" if "a \<noteq> 200" for a
    using that assms(2) by (auto simp: room_table_def fun_eq_iff split: if_splits)
  have f: "r_room_name r0 = ''lobby''" "r_password r0 = []" "members r0 = []"
    using r0(2) assms(2,3) by auto
  have run: "\<exists>t. dispatch None 100 ''JOIN'' (strtok_rest is_delim ''JOIN lobby'')
        (s\<lparr>client_heap := [100 \<mapsto> admin_client\<lparr>c_ref_count := 2\<rparr>], tasks := q\<rparr>) = Some t \<and>
      server_on t \<and> tasks t = q \<and> tcp_listen_fd t = 3 \<and> udp_fd t = 4 \<and>
      client_heap t = [100 \<mapsto> admin_client\<lparr>c_current_room := Some 200\<rparr>\<lparr>c_ref_count := 2\<rparr>] \<and>
      (\<exists>r. lobby_only t r \<and> members r = [100])" for q
  proof -
    let ?s = "s\<lparr>client_heap := [100 \<mapsto> admin_client\<lparr>c_ref_count := 2\<rparr>], tasks := q\<rparr>"
    obtain as where as: "rooms_inv ?s as" using quiet_rooms [OF assms(1), of q] by blast
    have find: "room_find_by_name ''lobby'' ?s = Some (Some 200)"
      unfolding room_find_by_name_def using rooms_invD(1) [OF as]
      by (cases rule: find_room_cases [where P = "\<lambda>r. r_room_name r = ''lobby''"]) (use r0 f only in \<open>force+\<close>)
    obtain h d r1 s' where s': "room_join (r_room_id r0) [] 100 ?s = Some (0, s')"
        "s' = ?s\<lparr>room_heap := h, db := d,
          client_heap := (client_heap ?s)(100 \<mapsto> (admin_client\<lparr>c_ref_count := 2\<rparr>)\<lparr>c_current_room := Some 200\<rparr>)\<rparr>"
        "room_table s' = (room_table ?s)(200 \<mapsto> r1)" "members r1 = members r0 @ [100]" "r_room_name r1 = r_room_name r0"
        "r_password r1 = r_password r0"
      using room_join_enter [OF as, of 100 "admin_client\<lparr>c_ref_count := 2\<rparr>" 200 r0 "[]"] r0(1) f by auto
    have tab: "room_table (s'\<lparr>tcp_out := x\<rparr>) = [200 \<mapsto> r1]" for x
      using s'(3) assms(2) room_table_cong [of ?s s] room_table_cong [of "s'\<lparr>tcp_out := x\<rparr>" s'] by simp
    have "room_table s' 200 = Some r1" using s'(3) by simp
    then obtain r2 where r2: "room_heap s' 200 = Some r2" by (auto simp: room_table_def)
    have "dispatch None 100 ''JOIN'' (strtok_rest is_delim ''JOIN lobby'') ?s =
        send_ok 100 ''Joined room successfully'' (Some (r_room_name r2)) s'"
      using s'(1) r0(1) r2 find by (simp add: dispatch_rooms line handle_join_room_def)
    moreover have "lobby_only (s'\<lparr>tcp_out := x\<rparr>) r1" "members r1 = [100]" for x
      using tab s'(4-6) f by simp_all
    ultimately show ?thesis
      using assms(1) by (fastforce simp: send_ok_def send_response_def s'(2) quiet_def)
  qed
  obtain t where t: "quiet (t\<lparr>client_heap := [100 \<mapsto> admin_client\<lparr>c_current_room := Some 200\<rparr>]\<rparr>) (admin_client\<lparr>c_current_room := Some 200\<rparr>)"
      "\<exists>r. lobby_only t r \<and> members r = [100]"
    by (rule quiet_round [OF assms(1) _ _ _ line(1) _ run]) simp_all
  then show ?thesis
    using that room_table_cong [of "t\<lparr>client_heap := [100 \<mapsto> admin_client\<lparr>c_current_room := Some 200\<rparr>]\<rparr>" t] by fastforce
qed

text \<open>The server after the session.\<close>

lemma session:
  obtains s r where "sys_reachable (s, client_handler_init)" "room_heap s 200 = Some r" "members r = [100]"
    "client_heap s 100 = Some (admin_client\<lparr>c_current_room := Some 200\<rparr>)" "r_room_name r = ''lobby''"
proof -
  obtain s1 where "quiet s1 admin_client" "room_table s1 = Map.empty" by (rule login_round)
  then obtain s2 r2 where "quiet s2 admin_client" "lobby_only s2 r2" "members r2 = []" by (rule create_round)
  then obtain s3 r3 where s3: "quiet s3 (admin_client\<lparr>c_current_room := Some 200\<rparr>)" "lobby_only s3 r3" "members r3 = [100]"
    by (rule join_round)
  from s3(2) have "room_table s3 200 = Some r3" by simp
  then obtain r where r: "room_heap s3 200 = Some r" "room_data r = r3" by (auto simp: room_table_def)
  then show ?thesis using that [of s3 r] s3 by (auto simp: quiet_def)
qed

end
