(* ===== verification/Check_Race.thy ===== *)
theory Check_Race
  imports Example_Session Mixer_Properties
begin

text \<open>
  A worker tests \<open>is_active\<close> of the client before it runs the command, without a lock. Between the test
  and the handler the network thread may disconnect the client. This is outside the steps of
  \<open>Server_System\<close>, where a task is run in one step; here the two parts of \<open>run_task\<close> are taken apart.
\<close>

section \<open>A participant that is gone\<close>

lemma collect_dangling:
  assumes "k \<in> set is" "arr_get (r_participants r) k = Some (Some c)" "client_heap s c = None"
    "length speakers + length is \<le> MAX_CLIENTS"
  shows "collect_speakers is r speakers s = None"
  using assms(1,3,4)
proof (induction "is" arbitrary: speakers s)
  case (Cons i "is")
  have rest: "collect_speakers is r sp t = None" if "k \<noteq> i" "client_heap t c = None" "length sp \<le> length speakers + 1" for sp t
    using that Cons.prems by (intro Cons.IH) auto
  show ?case
  proof (cases "k = i")
    case True
    with assms(2) Cons.prems(2) show ?thesis by simp
  next
    case False
    with rest [OF False] Cons.prems show ?thesis
      by (auto simp: Let_def bind_eq_None_conv split: option.splits prod.splits)
  qed
qed simp

lemma drain_frame:
  "drain_ring s = Some t \<Longrightarrow> room_head t = room_head s \<and> room_heap t = room_heap s \<and> client_heap t = client_heap s \<and>
    room_speaker_sem t = room_speaker_sem s"
proof (induction "ring_full (ring s)" arbitrary: s rule: less_induct)
  case less
  have IH: "room_head t = room_head s' \<and> room_heap t = room_heap s' \<and> client_heap t = client_heap s' \<and>
      room_speaker_sem t = room_speaker_sem s'"
    if "ring_buffer_pop (ring s) = Some (Some p, q)" "ring s' = q" "drain_ring s' = Some t" for p q s'
    using less.hyps [of s'] ring_buffer_pop_less [OF that(1)] that(2,3) by simp
  show ?case
  proof (cases "ring_buffer_pop (ring s)")
    case None
    with less.prems show ?thesis by (subst (asm) drain_ring.simps) simp
  next
    case (Some xq)
    obtain x q where xq: "xq = (x, q)" by (cases xq)
    show ?thesis
    proof (cases x)
      case None
      with Some xq less.prems show ?thesis by (subst (asm) drain_ring.simps) auto
    next
      case (Some p)
      with \<open>ring_buffer_pop (ring s) = Some xq\<close> xq have pop: "ring_buffer_pop (ring s) = Some (Some p, q)" by simp
      from less.prems show ?thesis
        by (subst (asm) drain_ring.simps) (auto simp: pop Let_def split: if_splits option.splits dest!: IH [OF pop, rotated])
    qed
  qed
qed

lemma mix_dangling:
  assumes "room_head s = Some a" "room_heap s a = Some r" "k < r_participant_count r" "r_participant_count r \<le> MAX_CLIENTS"
    "arr_get (r_participants r) k = Some (Some c)" "client_heap s c = None"
  shows "mixer_tick now s = None"
proof -
  have "mix_rooms now (room_head t) t = None" if t: "room_head t = room_head s" "room_heap t = room_heap s" "client_heap t = client_heap s" for t
  proof -
    have "collect_speakers [0..<r_participant_count r] r [] t = None"
      by (rule collect_dangling [OF _ assms(5)]) (use assms(3,4,6) t(3) in auto)
    then have "mix_room now a t = None" using assms(2) t(2) by (simp add: mix_room_def)
    with assms t show ?thesis by (subst mix_rooms.simps) simp
  qed
  then show ?thesis by (cases "drain_ring s") (auto simp: mixer_tick_def dest: drain_frame)
qed

section \<open>The race\<close>

lemma disconnect_roomless:
  assumes "held_inv s hs" "client_heap s c = Some cl" "c_is_active cl" "in_fd_map (c_fd cl)" "c_current_room cl = None"
    "c_ref_count cl = 2"
  shows "disconnect_client (c_fd cl) s = Some (s\<lparr>open_fds := remove1 (c_fd cl) (open_fds s),
    client_heap := (client_heap s)(c \<mapsto> cl\<lparr>c_is_active := False, c_ref_count := 1\<rparr>), clients := (clients s)[c_slot cl := None],
    client_count := client_count s - 1, fd_to_slot := (fd_to_slot s)[nat (c_fd cl) := - 1]\<rparr>)"
proof -
  note T = table_invD [OF held_invD(2) [OF assms(1)]]
  have "c_slot cl < 50" using T(5) [OF assms(2,3)] by simp
  moreover have "nat (c_fd cl) < 4096" using assms(4) by (simp add: in_fd_map_def nat_less_iff)
  ultimately show ?thesis
    using client_of_fd_connected [OF assms(1-4)] assms T(1,2)
    by (simp add: disconnect_client_def drop_ref_def mem_simps Let_def)
qed

lemma join_adds:
  assumes "rooms_inv s as" "client_heap s c = Some cl" "c_user_id cl \<noteq> - 1" "c_current_room cl = None"
    "room_find_by_name name s = Some (Some a)" "room_heap s a = Some r" "r_password r = []" "length (members r) < MAX_CLIENTS"
    "scan_words 31 63 args = (name, [])" "name \<noteq> []"
  obtains t where "handle_join_room c args s = Some t" "room_head t = room_head s"
    "room_heap t a = Some (with_participant c r)" "client_heap t c = Some (cl\<lparr>c_current_room := Some a\<rparr>)"
proof -
  obtain d where "room_join (r_room_id r) [] c s = Some (0, s\<lparr>room_heap := (room_heap s)(a \<mapsto> with_participant c r),
      client_heap := (client_heap s)(c \<mapsto> cl\<lparr>c_current_room := Some a\<rparr>), db := d\<rparr>)"
    using room_join_steps [OF assms(1,2,4,6) _ assms(8), of "[]"] assms(7) by blast
  with assms that show ?thesis
    by (simp add: handle_join_room_def mem_simps send_ok_def send_response_def)
qed

text \<open>
  C36: the test of \<open>is_active\<close> does not protect the handler. A worker has taken a JOIN of a connected
  client and seen that it is active; then the client disconnects, and then the worker goes on. The
  client is added to the room and freed with the reference of the task, and the next tick of the
  mixer reads the freed memory.
\<close>

theorem join_race_undefined:
  assumes "held_inv s (c # hs)" "client_heap s c = Some cl" "c_is_active cl" "in_fd_map (c_fd cl)"
    "c_ref_count cl = 2" "c_user_id cl \<noteq> - 1" "c_current_room cl = None"
    "room_head s = Some a" "room_heap s a = Some r" "r_password r = []" "length (members r) < MAX_CLIENTS"
    "strtok_first is_delim command = Some ''JOIN''"
    "scan_words 31 63 (strtok_rest is_delim command) = (r_room_name r, [])" "r_room_name r \<noteq> []"
  shows "\<exists>t u. disconnect_client (c_fd cl) s = Some t \<and> run_checked m c command t = Some u \<and> mixer_tick now u = None"
proof -
  let ?cl = "cl\<lparr>c_is_active := False, c_ref_count := 1\<rparr>"
  let ?t = "s\<lparr>open_fds := remove1 (c_fd cl) (open_fds s), client_heap := (client_heap s)(c \<mapsto> ?cl),
    clients := (clients s)[c_slot cl := None], client_count := client_count s - 1,
    fd_to_slot := (fd_to_slot s)[nat (c_fd cl) := - 1]\<rparr>"
  have t: "disconnect_client (c_fd cl) s = Some ?t" by (rule disconnect_roomless [OF assms(1-4,7,5)])
  obtain as where as: "rooms_inv s as" using held_invD(1) [OF assms(1)] by blast
  have "rooms_inv (s\<lparr>client_heap := (client_heap s)(c \<mapsto> ?cl)\<rparr>) as"
    by (rule rooms_inv_seated [OF as]) (use assms(2,7) in \<open>auto simp: seated_def fun_eq_iff\<close>)
  then have inv: "rooms_inv ?t as" by (subst rooms_inv_cong) simp_all
  have ok: "room_ok r" by (rule rooms_ok_room [OF rooms_invD(2) [OF as] assms(9)])
  have "room_find_by_name (r_room_name r) ?t = Some (Some a)"
    using assms(8,9) by (simp add: room_find_by_name_def find_room.simps [of _ _ "Some a"])
  then obtain u where u: "handle_join_room c (strtok_rest is_delim command) ?t = Some u" "room_head u = room_head s"
      "room_heap u a = Some (with_participant c r)" "client_heap u c = Some (?cl\<lparr>c_current_room := Some a\<rparr>)"
    using join_adds [OF inv, of c ?cl "r_room_name r" a r "strtok_rest is_delim command"] assms by auto
  let ?u = "u\<lparr>client_heap := (client_heap u)(c := None)\<rparr>"
  have "drop_ref c u = Some ?u" using u(4) by (simp add: drop_ref_def mem_simps)
  then have run: "run_checked m c command ?t = Some ?u" using assms(12) u(1) by (simp add: run_checked_def dispatch_rooms)
  have n: "r_participant_count r = length (members r)" "length (r_participants r) = 50"
    using ok participants_okD(1-3) [of r] by (simp_all add: room_ok_def)
  have "mixer_tick now ?u = None"
    by (rule mix_dangling [where a = a and r = "with_participant c r" and k = "length (members r)" and c = c])
      (use u(2,3) assms(8,11) n in \<open>simp_all add: arr_get_def\<close>)
  with t run show ?thesis by blast
qed

section \<open>Witness\<close>

definition busy_client :: client where
  "busy_client = admin_client\<lparr>c_ref_count := 2\<rparr>"

definition busy_server :: server where
  "busy_server = room_server\<lparr>client_heap := [100 \<mapsto> busy_client]\<rparr>"

lemma busy_facts:
  "held_inv busy_server [100]" "room_head busy_server = Some 200"
  "\<exists>r. room_heap busy_server 200 = Some r \<and> r_password r = [] \<and> members r = [] \<and> r_room_name r = ''lobby''"
proof -
  have h: "client_heap room_server = [100 \<mapsto> new_client 7 0]" using room_demo(4) demo_facts(2) by simp
  have "held_inv (room_server\<lparr>client_heap := [100 \<mapsto> admin_client]\<rparr>) []"
    using held_client_update [OF room_demo(5), of 100 "new_client 7 0" admin_client] h
    by (simp add: admin_client_def shape_eq)
  from held_ref_add [OF this, of 100 admin_client] show "held_inv busy_server [100]"
    by (simp add: busy_server_def busy_client_def)
  have "list_ok room_server [200]" by (rule rooms_invD(1) [OF room_demo(2)])
  then show "room_head busy_server = Some 200" by (auto simp: list_ok_def busy_server_def)
  have "room_table room_server 200 = Some (room_data (new_room 0 ''lobby'' []))" using room_demo(3) by simp
  then obtain r where r: "room_heap room_server 200 = Some r" "room_data r = room_data (new_room 0 ''lobby'' [])"
    by (auto simp: room_table_def)
  then have "r_password r = []" "members r = []" "r_room_name r = ''lobby''"
    using new_room_facts [of 0 "''lobby''" "[]"]
    by (metis room_data_fields(3), metis room_data_ok(1), metis room_data_fields(2))
  with r(1) show "\<exists>r. room_heap busy_server 200 = Some r \<and> r_password r = [] \<and> members r = [] \<and> r_room_name r = ''lobby''"
    by (simp add: busy_server_def)
qed

theorem join_race_undefined_witness:
  "\<exists>t u. disconnect_client 7 busy_server = Some t \<and> run_checked None 100 ''JOIN lobby'' t = Some u \<and> mixer_tick 5 u = None"
proof -
  obtain r where r: "room_heap busy_server 200 = Some r" "r_password r = []" "members r = []" "r_room_name r = ''lobby''"
    using busy_facts(3) by blast
  have line: "strtok_first is_delim ''JOIN lobby'' = Some ''JOIN''"
    "scan_words 31 63 (strtok_rest is_delim ''JOIN lobby'') = (''lobby'', [])" by code_simp+
  have "client_heap busy_server 100 = Some busy_client" by (simp add: busy_server_def)
  from join_race_undefined [OF busy_facts(1) this _ _ _ _ _ busy_facts(2) r(1,2) _ line(1), of None 5] line(2) r
  show ?thesis by (simp add: busy_client_def in_fd_map_def)
qed

end
