(* ===== verification/Stale_Rooms.thy ===== *)
theory Stale_Rooms
  imports Check_Race
begin

text \<open>
  A restart on a room file with active records. The server starts without rooms and does not read
  the records back, so they stay active for ever and their ids are taken.
\<close>

section \<open>The first room after a restart\<close>

lemma next_free_full: "\<forall>rec \<in> set recs. rr_is_active rec \<noteq> 0 \<Longrightarrow> next_free i recs = i + length recs"
  by (induction recs arbitrary: i) simp_all

text \<open>A room of a server without rooms gets the first free id of the file.\<close>

lemma create_first:
  assumes "room_head s = None" "room_count s = 0" "db_ready (db s)" "client_heap s c \<noteq> None"
    "\<forall>rec \<in> set (rooms_of (db s)). rr_is_active rec \<noteq> 0" "length (rooms_of (db s)) = k" "k < 2147483648"
    "fits MAX_ROOM_NAME_LEN name"
  obtains d where "room_create (Some n) name [] c s = Some (int k, s\<lparr>room_head := Some n, db := d, room_count := 1,
      room_heap := (room_heap s)(n \<mapsto> new_room k name [])\<rparr>)"
    "db_ready d" "rooms_of d = rooms_of (db s) @ [new_room_record k name []]"
proof -
  have id: "db_next_free_room_id (db s) = k"
    using assms(3,5,6) next_free_full [of "rooms_of (db s)" 0] by (simp add: db_next_free_room_id_def db_ready_def del: length_file_records)
  have "room_record_ok (new_room_record k name [])"
    using assms(7,8) by (simp add: room_record_ok_def new_room_record_def in_i32_def fits_def)
  then obtain d where d: "db_write_room k (new_room_record k name []) (db s) = Some (True, d)" "db_ready d"
      "rooms_of d = rooms_of (db s) @ [new_room_record k name []]"
    using write_record [OF assms(3), of _ k] assms(6) by auto
  have "room_find_by_name name s = Some None" using assms(1) by (simp add: room_find_by_name_def find_room.simps)
  then have "room_create (Some n) name [] c s = Some (int k, s\<lparr>room_head := Some n, db := d, room_count := 1,
      room_heap := (room_heap s)(n \<mapsto> new_room k name [])\<rparr>)"
    using assms(1,2,4,8) id d(1) by (auto simp: room_create_def link_room_def fits_def)
  with that d(2,3) show ?thesis by blast
qed

lemma join_first:
  assumes "room_head s = Some n" "room_heap s n = Some (new_room k name [])" "client_heap s c = Some cl" "c_current_room cl = None"
    "db_ready (db s)" "rooms_of (db s) = recs @ [new_room_record k name []]" "length recs = k" "k < 2147483648" "fits MAX_ROOM_NAME_LEN name"
  obtains d where "room_join k [] c s = Some (0, s\<lparr>room_heap := (room_heap s)(n \<mapsto> with_participant c (new_room k name [])),
    client_heap := (client_heap s)(c \<mapsto> cl\<lparr>c_current_room := Some n\<rparr>), db := d\<rparr>)"
proof -
  let ?rec = "(new_room_record k name [])\<lparr>rr_user_count := 1\<rparr>"
  have "room_record_ok ?rec" using assms(8,9) by (simp add: room_record_ok_def new_room_record_def in_i32_def fits_def)
  then obtain d where d: "db_write_room k ?rec (db s) = Some (True, d)"
    using write_record [OF assms(5), of ?rec k] assms(6,7) by auto
  have read: "db_read_room_raw k (db s) = Some (new_room_record k name [])"
    using assms(5-7) by (auto simp: db_read_room_raw_conv db_ready_def nth_append simp del: length_file_records)
  have "find_room (\<lambda>r. r_room_id r = k) (room_heap s) (room_head s) = Some (Some n)"
    using assms(1,2) by (subst find_room.simps) (simp add: new_room_def)
  then have "room_join k [] c s = Some (0, s\<lparr>room_heap := (room_heap s)(n \<mapsto> with_participant c (new_room k name [])),
    client_heap := (client_heap s)(c \<mapsto> cl\<lparr>c_current_room := Some n\<rparr>), db := d\<rparr>)"
    using assms(2-4) read d by (simp add: room_join_def mem_simps new_room_def write_user_count_def)
  with that show ?thesis by blast
qed

lemma mix_bad_id:
  assumes "room_head s = Some n" "room_heap s n = Some r" "r_participant_count r = 1" "arr_get (r_participants r) 0 = Some (Some c)"
    "client_heap s c = Some cl" "c_is_active cl" "\<not> c_is_mute cl" "length (room_speaker_sem s) \<le> r_room_id r"
  shows "mixer_tick now s = None"
proof -
  have "mix_rooms now (room_head t) t = None"
    if t: "room_head t = room_head s" "room_heap t = room_heap s" "client_heap t = client_heap s" "room_speaker_sem t = room_speaker_sem s" for t
  proof -
    have "collect_speakers [0] r [] t = None"
      using assms(4-8) t(3,4) by (simp add: sem_trywait_def arr_get_def)
    then have "mix_room now n t = None" using assms(2,3) t(2) by (simp add: mix_room_def)
    with assms t show ?thesis by (subst mix_rooms.simps) simp
  qed
  then show ?thesis by (cases "drain_ring s") (auto simp: mixer_tick_def dest: drain_frame)
qed

text \<open>
  C37: a restart forgets the rooms and keeps their ids. When the server starts on a file of at least 32
  records, all of them active, it has no room in memory, although every record can still be read; the
  first room that is then created gets the next id, which is no index of the semaphores, and after
  a client has joined it the next tick of the mixer is undefined.
\<close>

theorem stale_rooms_undefined:
  assumes "server_boot b argv files = Some (Inr s)" "disk files = []" "calls files = []" "wal_log files = []"
    "\<forall>rec \<in> set (rooms_of files). rr_is_active rec \<noteq> 0" "MAX_ROOMS \<le> length (rooms_of files)"
    "length (rooms_of files) < 2147483648" "fd \<noteq> - 1" "fits MAX_ROOM_NAME_LEN name"
  shows "room_heap s = Map.empty \<and> (\<forall>i < length (rooms_of files). db_read_room i (db s) = Some (rooms_of files ! i)) \<and>
    (\<exists>s1 k t u. accept_new_client fd (Some c) s = Some s1 \<and> room_create (Some n) name [] c s1 = Some (int k, t) \<and>
      MAX_ROOMS \<le> k \<and> room_join k [] c t = Some (0, u) \<and> mixer_tick now u = None)"
  using assms(1)
proof (rule boot_state)
  fix d d' assume d: "file_db_init (b_open_rooms b) (b_create_rooms b) (b_open_wal b) (b_create_wal b)
        (db (server_zero files)) = Some (Inr d)" "auth_init (b_open_users b) (b_create_users b) d = Inr d'" "db s = d'"
    and rooms: "room_heap s = Map.empty" "room_head s = None" "room_count s = 0"
    and cl: "client_heap s = Map.empty" "clients s = replicate MAX_CLIENTS None" "client_count s = 0"
      "fd_to_slot s = replicate FD_MAP_SIZE (- 1)"
    and sems: "room_speaker_sem s = replicate MAX_ROOMS 10"
  have db: "db_ready (db s)" "rooms_of (db s) = rooms_of files"
    using file_db_init_fresh [OF d(1)] auth_init_keeps [OF d(2)] d(3) assms(2-4) by (auto simp: server_zero_def)
  let ?k = "length (rooms_of files)"
  obtain s1 where s1: "accept_new_client fd (Some c) s = Some s1" "client_heap s1 = [c \<mapsto> new_client fd 0]"
      "room_heap s1 = Map.empty" "room_head s1 = None" "room_count s1 = 0" "db s1 = db s" "room_speaker_sem s1 = replicate MAX_ROOMS 10"
    using cl rooms sems assms(8)
    by (cases "in_fd_map fd") (auto simp: accept_new_client_def first_free_replicate mem_simps in_fd_map_def nat_less_iff)
  obtain e where e: "room_create (Some n) name [] c s1 = Some (int ?k, s1\<lparr>room_head := Some n, db := e, room_count := 1,
      room_heap := (room_heap s1)(n \<mapsto> new_room ?k name [])\<rparr>)"
      "db_ready e" "rooms_of e = rooms_of (db s) @ [new_room_record ?k name []]"
    using create_first [of s1 c ?k name n] s1 db assms(5,7,9) by (auto simp del: length_file_records)
  let ?t = "s1\<lparr>room_head := Some n, db := e, room_count := 1, room_heap := (room_heap s1)(n \<mapsto> new_room ?k name [])\<rparr>"
  obtain e' where join: "room_join ?k [] c ?t = Some (0, ?t\<lparr>room_heap := (room_heap ?t)(n \<mapsto> with_participant c (new_room ?k name [])),
      client_heap := (client_heap ?t)(c \<mapsto> (new_client fd 0)\<lparr>c_current_room := Some n\<rparr>), db := e'\<rparr>)"
    using join_first [of ?t n ?k name c "new_client fd 0" "rooms_of files"] s1 e db assms(7,9) by (auto simp del: length_file_records)
  let ?u = "?t\<lparr>room_heap := (room_heap ?t)(n \<mapsto> with_participant c (new_room ?k name [])),
      client_heap := (client_heap ?t)(c \<mapsto> (new_client fd 0)\<lparr>c_current_room := Some n\<rparr>), db := e'\<rparr>"
  have "mixer_tick now ?u = None"
    by (rule mix_bad_id [of _ n "with_participant c (new_room ?k name [])" c "(new_client fd 0)\<lparr>c_current_room := Some n\<rparr>"])
      (use s1(7) assms(6) in \<open>simp_all add: new_room_def arr_get_def del: length_file_records\<close>)
  moreover have "db_read_room i (db s) = Some (rooms_of files ! i)" if "i < length (rooms_of files)" for i
    using db assms(5) that by (auto simp: db_read_room_conv db_ready_def simp del: length_file_records)
  ultimately show ?thesis using rooms(1) s1(1) e(1) join assms(6) by blast
qed

section \<open>Witness\<close>

definition stale_record :: room_record where
  "stale_record = new_room_record 0 ''old'' []"

definition stale_files :: file_db where
  "stale_files = example_db\<lparr>rooms_bin := concat (map enc_room (replicate 32 stale_record))\<rparr>"

lemma stale_records: "rooms_of stale_files = replicate 32 stale_record"
proof -
  have "room_record_ok stale_record" by (simp add: stale_record_def new_room_record_def room_record_ok_def in_i32_def fits_def)
  then show ?thesis using room_file.records_concat [of "replicate 32 stale_record"] by (simp add: stale_files_def)
qed

definition restarted_server :: server where
  "restarted_server = (case server_boot demo_boot [] stale_files of Some (Inr s) \<Rightarrow> s | _ \<Rightarrow> server_zero stale_files)"

lemma boot_stale: "server_boot demo_boot [] stale_files = Some (Inr restarted_server)"
  by (simp add: restarted_server_def server_boot_def demo_boot_def file_db_init_def wal_recover_def server_zero_def
      stale_files_def example_db_def auth_init_def network_init_def ipc_manager_init_def)

theorem stale_rooms_undefined_witness:
  "\<exists>s1 k t u. accept_new_client 7 (Some 100) restarted_server = Some s1 \<and>
    room_create (Some 200) ''lobby'' [] 100 s1 = Some (int k, t) \<and> 32 \<le> k \<and> room_join k [] 100 t = Some (0, u) \<and>
    mixer_tick 5 u = None"
proof -
  have "disk stale_files = []" "calls stale_files = []" "wal_log stale_files = []"
    by (simp_all add: stale_files_def example_db_def)
  from stale_rooms_undefined [OF boot_stale this, of 7 "''lobby''" 100 200 5] stale_records
  show ?thesis by (simp add: stale_record_def new_room_record_def fits_def del: length_file_records)
qed

end
