(* ===== verification/Spec2Isabelle.thy ===== *)
theory Spec2Isabelle
  imports Wal_Recovery Room_Properties Command_Properties Lifecycle_Properties Voice_Properties Stale_Rooms
begin

text \<open>
  A verification development for VoxOS (EchoLink), a group voice server in C: clients talk to it over
  TCP (text commands) and UDP (audio packets).

  \<^bold>\<open>The program.\<close> \<open>main.c\<close> opens the files, the sockets and the shared memory, starts the threads,
  runs the epoll loop and shuts down. The network thread (\<open>network.c\<close>) keeps the table of connected
  clients, puts every command into a task queue and every audio packet into a ring
  (\<open>ipc_manager.c\<close>). Eight workers (\<open>client_handler.c\<close>) take commands from the queue, check the
  permissions (\<open>auth.c\<close>), act on the rooms (\<open>room_manager.c\<close>) and answer. Rooms and users are records
  of two files with a write-ahead log (\<open>file_db.c\<close>). The mixer (\<open>audio_mixer.c\<close>) wakes every 20 ms,
  empties the ring into one jitter buffer per client, mixes each room and sends every participant the
  others' voices. A thread prints a status screen (\<open>console_display.c\<close>). \<open>client.c\<close> is the terminal
  client.

  \<^bold>\<open>The model, theory by theory.\<close>
  \<^item> \<open>Vox_Prelude\<close>, \<open>C_Lib\<close>, \<open>Record_File\<close>, \<open>Bounded_Fifo\<close>, \<open>Reorder_Buffer\<close>: checked arrays and
    heaps, the C library calls on text, files of fixed-size records (locale \<open>record_file\<close> and its
    interpretations \<open>room_file\<close>, \<open>user_file\<close>), the contract of a bounded queue (locale \<open>bounded_fifo\<close>,
    interpreted on the audio ring and the task queue), of a buffer that puts packets in order (locale
    \<open>reorder_buffer\<close>, interpreted on the jitter buffer for every window) and of a transition system
    with an invariant (locale \<open>invariant_system\<close>, interpreted on the two ring threads and the server).
  \<^item> \<open>Utils\<close> (\<open>common/utils.c\<close>), \<open>Protocol\<close> (\<open>common/protocol.h\<close>: constants, structs as records,
    their memory images).
  \<^item> \<open>File_Db\<close>, \<open>Wal_Log\<close>, \<open>Wal_Recovery\<close> (\<open>server/file_db.c\<close>): the files as bytes; every write takes its
    length from a list of outcomes, so it may be cut short, and every log call may fail or read only a
    part. The lines of the log, whole or cut off; crashes at every character of the log and byte of the
    record; recovery and rollback.
  \<^item> \<open>Auth\<close> (\<open>server/auth.c\<close>), \<open>Ipc_Manager\<close> (\<open>server/ipc_manager.c\<close>: the ring sequentially, and as a
    step relation of two threads), \<open>Task_Queue\<close> (the queue of \<open>server/client_handler.c\<close>),
    \<open>Jitter_Buffer\<close> (first half of \<open>server/audio_mixer.c\<close>).
  \<^item> \<open>Server_State\<close>: the globals of \<open>server/server.h\<close> and \<open>main.c\<close> in one record \<open>server\<close>, with a heap of
    clients and a heap of rooms; pointers are addresses, NULL is \<open>None\<close>.
  \<^item> \<open>Room_Manager\<close> (\<open>server/room_manager.c\<close>, a doubly linked list in the heap), \<open>Client_Handler\<close> (the
    workers and all command handlers), \<open>Network\<close> (\<open>server/network.c\<close>), \<open>Audio_Mixer\<close> (second half of
    \<open>audio_mixer.c\<close>), \<open>Console_Display\<close>, \<open>Server_Main\<close> (\<open>main.c\<close>), \<open>Voice_Client\<close>
    (\<open>client/client.c\<close>).
  \<^item> \<open>Server_System\<close>: the threads as actions on the shared state, in any order.

  An operation of type \<open>'a option\<close> returns \<open>None\<close> when the C code has undefined behaviour: a dangling
  or null pointer is read, an index lies outside its array, a copy exceeds its destination, a list
  has no end. Errors that the code handles are return values, as in the source. The traversals of
  the room list are \<open>partial_function (option)\<close>, so a cyclic list is \<open>None\<close> too; nothing uses fuel.
  The answers of the system calls (\<open>accept\<close>, \<open>recv\<close>, \<open>malloc\<close>, \<open>open\<close>, the bytes a peer sends, the
  clock) are arguments.

  \<^bold>\<open>The lemmas.\<close>
  \<^item> \<open>Room_List\<close> and \<open>Room_Invariant\<close>: the linked list as a list of addresses; \<open>rooms_inv\<close> and what each
    room operation does under it. \<open>Server_Invariant\<close>, \<open>Handler_Invariant\<close>, \<open>Network_Invariant\<close>,
    \<open>Mixer_Invariant\<close>: \<open>held_inv s hs\<close> joins the rooms, the client table, the reference counts (\<open>hs\<close> are
    the references in the hands of workers), the tasks and the audio state; every handler, network
    event and tick keeps it and is defined.
  \<^item> \<open>Audio_Mixing\<close>: what the mixing arithmetic computes. \<open>Client_Facts\<close>: the client on its own.
    \<open>Voice_Path\<close>: a datagram from its arrival to the player of a listener.
  \<^item> Properties: \<open>Room_Properties\<close>, \<open>Mixer_Properties\<close>, \<open>Command_Properties\<close>, \<open>Lifecycle_Properties\<close>,
    \<open>End_To_End\<close> and \<open>Voice_Properties\<close> (client and server together), \<open>Check_Race\<close> (a client that leaves
    between the test of \<open>is_active\<close> and its command), \<open>Stale_Rooms\<close> (a restart on a file with active
    rooms), those of single components in their theories, and here those of every reachable state.
    \<open>Example_Run\<close>, \<open>Example_Session\<close> and \<open>Example_Duo\<close> are the runs that the witnesses use.

  \<^bold>\<open>The run.\<close> A step of \<open>Server_System\<close> is one epoll event, one worker taking a task, one worker running
  the task it took, one tick, one message on the FIFO, or a signal. Between taking and running a task
  all other threads may act, so a client may disconnect while its command waits. A handler is one
  step: the code holds \<open>rooms_mutex\<close>, \<open>clients_mutex\<close> or \<open>task_mutex\<close> for parts of it, and what may
  happen between these parts is not modelled, with one exception: \<open>join_race_undefined\<close> shows that the
  safety of the steps does depend on it, by letting a client disconnect between the test of
  \<open>is_active\<close> and its JOIN. The ring alone is also modelled with the two
  threads interleaved at every access. The initial states are the results of \<open>server_boot\<close> on files
  without a log and without active rooms, whose writes succeed; \<open>action_ok\<close> states what the
  environment guarantees, among it that the size field of a datagram fits its payload, which the code
  does not check (\<open>oversized_datagram_undefined\<close> shows what happens otherwise, and
  \<open>stale_rooms_undefined\<close> what a start with active rooms can lead to). Failing writes and crashes are
  the subject of \<open>Wal_Recovery\<close> and of \<open>room_create_write_fails\<close>. The main thread alone, from the start
  to the end of its loop by a signal, a failing call or the FIFO, is \<open>server_main\<close>
  (\<open>Lifecycle_Properties\<close>).

  \<^bold>\<open>Limits of the guarantees.\<close> Recovery and rollback restore a room only if its old record has a
  non-empty name and password without white space, the log is cut at a place where it can be read, and
  fewer than 128 transactions precede (\<open>crash_recovery_atomic\<close>, \<open>failed_write_rolled_back\<close>); beyond that
  they do not (\<open>open_room_not_restored\<close>, \<open>wal_recover_ignores_long_log\<close>,
  \<open>failed_write_restores_first_transaction\<close>). Speech is played in order as long as no packet is late
  (\<open>speech_in_order\<close>); a late one is played behind its successors (\<open>late_packet_played_behind\<close>). The
  password hash is injective on at most 31 characters only (\<open>register_then_login\<close>).

  \<^bold>\<open>Not modelled.\<close> Locks (\<open>pthread\<close>, \<open>fcntl\<close>) beyond the atomicity above, \<open>fsync\<close>, thread creation and
  priorities, sleeping, socket options, the log lines of the server, the scripts, the load test and
  the recorder and player programs that the client runs.
\<close>

section \<open>Every reachable state\<close>

text \<open>
  C1: the server never runs into undefined behaviour. In every state that the threads can reach from a
  start on files without a log and without active rooms, whose writes succeed, in any order of events,
  tasks, mixer ticks, FIFO messages and signals, every step that the environment may trigger is
  defined: no dangling pointer is read, no index lies outside its array and every list traversal ends;
  and it leads to a reachable state. The environment (\<open>action_ok\<close>) hands out fresh descriptors and
  addresses, and sends datagrams whose size field is not larger than the payload.
\<close>

theorem server_never_undefined:
  assumes "sys_reachable S" "action_ok a S"
  shows "\<exists>T. perform a S = Some T \<and> sys_reachable T"
proof -
  obtain T where "perform a S = Some T" using perform_safe [OF voice_server.reachable_inv [OF assms(1)] assms(2)] by blast
  moreover from this have "sys_reachable T" using reach_step [OF assms(1)] act [OF assms(2)] by blast
  ultimately show ?thesis by blast
qed

text \<open>
  C2: rooms and clients agree. In every reachable state the participants of a room are distinct, and
  they are exactly the connected clients whose current room it is; the current room of a connected
  client is a room of the list.
\<close>

theorem membership_agrees:
  assumes "sys_reachable (s, ws)"
  shows "(\<forall>a r. room_heap s a = Some r \<longrightarrow> distinct (members r) \<and> r_participant_count r = length (members r)) \<and>
    (\<forall>c a. (\<exists>r. room_heap s a = Some r \<and> c \<in> set (members r)) \<longleftrightarrow>
       (\<exists>cl. client_heap s c = Some cl \<and> c_is_active cl \<and> c_current_room cl = Some a))"
proof -
  obtain as where as: "rooms_inv s as" using held_invD(1) [OF reachable_held [OF assms]] by blast
  note R = rooms_invD [OF as]
  have "distinct (members r) \<and> r_participant_count r = length (members r)" if "room_heap s a = Some r" for a r
    using participants_okD(2,4) rooms_ok_room [OF R(2) that] by (simp add: room_ok_def)
  moreover have "(\<exists>r. room_heap s a = Some r \<and> c \<in> set (members r)) \<longleftrightarrow>
      (\<exists>r. room_table s a = Some r \<and> c \<in> set (members r))" for a c
    by (auto simp: room_table_def)
  ultimately show ?thesis using R(3) unfolding linked_def by blast
qed

text \<open>
  C3: the room file mirrors the rooms. In every reachable state the room ids are distinct, reading the
  record of a room yields its name, password and number of participants, and every active record
  belongs to a room in memory.
\<close>

theorem rooms_mirrored_on_disk:
  assumes "sys_reachable (s, ws)"
  shows "(\<forall>a b r r'. room_heap s a = Some r \<and> room_heap s b = Some r' \<and> r_room_id r = r_room_id r' \<longrightarrow> a = b) \<and>
    (\<forall>i rec. db_read_room i (db s) = Some rec \<longleftrightarrow> (\<exists>a r. room_heap s a = Some r \<and> r_room_id r = i \<and> rec = record_of r))"
proof -
  obtain as where as: "rooms_inv s as" using held_invD(1) [OF reachable_held [OF assms]] by blast
  note R = rooms_invD [OF as]
  have tab: "(\<exists>a r. room_table s a = Some r \<and> r_room_id r = i \<and> x = record_of r) \<longleftrightarrow>
      (\<exists>a r. room_heap s a = Some r \<and> r_room_id r = i \<and> x = record_of r)" for i x
    unfolding room_table_def map_option_eq_Some by (metis room_data_fields(1) room_data_ok(3))
  have "a = b" if "room_heap s a = Some r" "room_heap s b = Some r'" "r_room_id r = r_room_id r'" for a b r r'
    using R(2) room_table_Some [OF that(1)] room_table_Some [OF that(2)] that(3) unfolding rooms_ok_def
    by (metis room_data_fields(1))
  moreover have "db_read_room i (db s) = Some x \<longleftrightarrow> (\<exists>a r. room_table s a = Some r \<and> r_room_id r = i \<and> x = record_of r)" for i x
  proof
    assume x: "db_read_room i (db s) = Some x"
    then have "i < length (rooms_of (db s))" "rr_is_active (rooms_of (db s) ! i) \<noteq> 0"
      using R(4) by (auto simp: on_disk_def db_ready_def db_read_room_conv simp del: length_file_records split: if_splits)
    then obtain a r where "room_table s a = Some r" "r_room_id r = i"
      using R(4) unfolding on_disk_def mirrors_def by blast
    with x on_disk_read(2) [OF R(4)] show "\<exists>a r. room_table s a = Some r \<and> r_room_id r = i \<and> x = record_of r" by fastforce
  next
    assume "\<exists>a r. room_table s a = Some r \<and> r_room_id r = i \<and> x = record_of r"
    then show "db_read_room i (db s) = Some x" using on_disk_read(2) [OF R(4)] by blast
  qed
  ultimately show ?thesis using tab by blast
qed

text \<open>
  C4: reference counts keep clients alive. In every reachable state the client of each queued task and
  of each task in the hands of a worker is still allocated, and its count is at least the number of
  these tasks, plus one while it is connected; so a client that disconnects is not freed while a
  command of it is pending.
\<close>

theorem references_keep_clients:
  assumes "sys_reachable (s, ws)"
  shows "(\<forall>t. t \<in> set (task_list (tasks s)) \<or> Some t \<in> set ws \<longrightarrow> (\<exists>c cl. task_c t = Some c \<and> client_heap s c = Some cl)) \<and>
    (\<forall>c cl. client_heap s c = Some cl \<longrightarrow>
       int (count_list (worker_holders ws @ task_holders (tasks s)) c) + of_bool (c_is_active cl) \<le> c_ref_count cl)"
proof -
  have inv: "held_inv s (worker_holders ws)" "workers_ok ws"
    using voice_server.reachable_inv [OF assms] by (simp_all add: sys_inv_def)
  have refs: "refs_inv (client_heap s) (worker_holders ws @ task_holders (tasks s))" by (rule held_invD(3) [OF inv(1)])
  have "\<exists>c cl. task_c t = Some c \<and> client_heap s c = Some cl" if t: "t \<in> set (task_list (tasks s)) \<or> Some t \<in> set ws" for t
  proof -
    have "task_c t \<noteq> None" using t held_invD(4) [OF inv(1)] inv(2) by (auto simp: tasks_ok_def workers_ok_def)
    then obtain c where c: "task_c t = Some c" by blast
    have "c \<in> set (task_holders (tasks s))" if "t \<in> set (task_list (tasks s))"
      unfolding task_holders_def set_map by (rule image_eqI [of _ _ t]) (use that c in simp_all)
    moreover have "c \<in> set (worker_holders ws)" if "Some t \<in> set ws"
      unfolding worker_holders_def set_map set_filter
      by (rule image_eqI [of _ _ "Some t"]) (use that c in simp_all)
    ultimately have "c \<in> set (worker_holders ws @ task_holders (tasks s))" using t by auto
    then have "client_heap s c \<noteq> None" using refs unfolding refs_inv_def by blast
    then show ?thesis using c by blast
  qed
  then show ?thesis using refs unfolding refs_inv_def by blast
qed

text \<open>
  C14: a command is attributed to the client that sent it: in every reachable state the two tables lead
  from a descriptor below 4096 to a client exactly when this is the connected client with that
  socket, and never outside the tables.
\<close>

theorem commands_attributed:
  assumes "sys_reachable (s, ws)" "in_fd_map fd"
  shows "\<exists>r. client_of_fd fd s = Some r \<and>
    (\<forall>i c. r = Some (i, c) \<longleftrightarrow> (\<exists>cl. client_heap s c = Some cl \<and> c_is_active cl \<and> c_fd cl = fd \<and> c_slot cl = i))"
proof -
  note inv = reachable_held [OF assms(1)]
  obtain r where r: "client_of_fd fd s = Some r" "\<forall>i c. r = Some (i, c) \<longrightarrow>
      (\<exists>cl. client_heap s c = Some cl \<and> c_is_active cl \<and> c_slot cl = i \<and> c_fd cl = fd)"
    using client_of_fd_ok [OF inv, of fd] by blast
  have "r = Some (c_slot cl, c)" if "client_heap s c = Some cl" "c_is_active cl" "c_fd cl = fd" for c cl
    using client_of_fd_connected [OF inv that(1,2)] that(3) assms(2) r(1) by simp
  with r show ?thesis by blast
qed

text \<open>
  C15: nothing overflows. In every reachable state the number of connected clients is the number of
  taken slots, at most 50; there are at most 32 rooms, whose ids are below 32, with at most 50
  participants each; at most 256 tasks wait; and the ring and the jitter buffers keep to their sizes.
\<close>

theorem capacities_respected:
  assumes "sys_reachable (s, ws)"
  shows "client_count s = int (length (filter (\<lambda>p. p \<noteq> None) (clients s))) \<and> client_count s \<le> int MAX_CLIENTS \<and>
    room_count s \<le> int MAX_ROOMS \<and>
    (\<forall>a r. room_heap s a = Some r \<longrightarrow> r_room_id r < MAX_ROOMS \<and> r_participant_count r \<le> MAX_CLIENTS) \<and>
    tq_count (tasks s) \<le> MAX_QUEUED_TASKS \<and> length (ring_contents (shm_ring (ring s))) \<le> RING_BUFFER_CAPACITY \<and>
    (\<forall>jb \<in> set (jitter_buffers s). jb_count jb = int (size (jb_packets jb)) \<and> size (jb_packets jb) \<le> JITTER_BUFFER_SIZE)"
proof -
  note inv = held_invD [OF reachable_held [OF assms]]
  obtain as where as: "rooms_inv s as" using inv(1) by blast
  note R = rooms_invD [OF as] and T = table_invD [OF inv(2)]
  have "r_room_id r < 32 \<and> r_participant_count r \<le> 50" if "room_heap s a = Some r" for a r
    using rooms_ok_room [OF R(2) that] participants_okD(2,3) [of r] by (simp add: room_ok_def)
  moreover have "client_count s \<le> 50" using T(1,3) length_filter_le [of "\<lambda>p. p \<noteq> None" "clients s"] by simp
  moreover have "room_count s \<le> 32" using R(1) rooms_limit [OF as] by (simp add: list_ok_def)
  moreover have "tq_count (tasks s) \<le> 256" using inv(4) by (simp add: tasks_ok_def task_ok_def)
  moreover have "length (ring_contents (shm_ring (ring s))) \<le> 128"
    using inv(5) audio_ring.within_cap by (auto simp: audio_inv_def)
  ultimately show ?thesis using T(3) inv(5) size_jb_packets jb_packets_le by (auto simp: audio_inv_def)
qed

text \<open>
  C13: a disconnected client is gone from every room, its slot is free and its socket closed; its memory
  is freed with the last reference, and the invariant holds.
\<close>

theorem disconnect_removes_client:
  assumes "held_inv s hs" "client_heap s c = Some cl" "c_is_active cl" "in_fd_map (c_fd cl)"
  shows "\<exists>t. disconnect_client (c_fd cl) s = Some t \<and> held_inv t hs \<and> clients t ! c_slot cl = None \<and>
    c_fd cl \<notin> set (open_fds t) \<and> (\<forall>a r. room_heap t a = Some r \<longrightarrow> c \<notin> set (members r)) \<and>
    (client_heap t c = None \<longleftrightarrow> c_ref_count cl = 1)"
proof -
  obtain u h p n d where u: "disconnect_client (c_fd cl) s = drop_ref c u" "held_inv u (c # hs)"
    "u = s\<lparr>room_head := p, room_heap := h, room_count := n, db := d, open_fds := remove1 (c_fd cl) (open_fds s),
      client_heap := (client_heap s)(c \<mapsto> cl\<lparr>c_is_active := False\<rparr>), clients := (clients s)[c_slot cl := None],
      client_count := client_count s - 1, fd_to_slot := (fd_to_slot s)[nat (c_fd cl) := - 1]\<rparr>"
    using disconnect_steps [OF assms] .
  obtain t where t: "drop_ref c u = Some t" "held_inv t hs" using held_drop_ref [OF u(2)] by blast
  note T = table_invD [OF held_invD(2) [OF assms(1)]]
  have C: "client_heap u c = Some (cl\<lparr>c_is_active := False\<rparr>)" unfolding u(3) by simp
  have t_eq: "clients t = clients u" "open_fds t = open_fds u" "room_heap t = room_heap u"
      "client_heap t = (client_heap u)(c := if c_ref_count cl = 1 then None else Some (cl\<lparr>c_is_active := False,
        c_ref_count := c_ref_count cl - 1\<rparr>))"
    using t(1) C by (auto simp: drop_ref_def mem_simps split: if_splits)
  have "clients t ! c_slot cl = None" using t_eq(1) T(1) T(5) [OF assms(2,3)] unfolding u(3) by simp
  moreover have "c_fd cl \<notin> set (open_fds t)" using t_eq(2) T(8) unfolding u(3) by simp
  moreover have "c \<notin> set (members r)" if r: "room_heap t a = Some r" for a r
  proof
    assume "c \<in> set (members r)"
    moreover obtain as where "rooms_inv t as" using held_invD(1) [OF t(2)] by blast
    ultimately obtain cl' where "client_heap t c = Some cl'" "c_is_active cl'"
      using linked_member [OF rooms_invD(3) room_table_Some [OF r], of as c] by auto
    with t_eq(4) show False by (auto split: if_splits)
  qed
  ultimately show ?thesis using u(1) t t_eq(4) by auto
qed

section \<open>Witnesses\<close>

theorem server_never_undefined_witness:
  "\<exists>T. perform (Net accept_event) (first_server, client_handler_init) = Some T \<and> sys_reachable T"
  by (rule server_never_undefined [OF demo_reachable(1) demo_step])

theorem membership_agrees_witness:
  "\<exists>s r cl. sys_reachable (s, client_handler_init) \<and> room_heap s 200 = Some r \<and> r_participant_count r = 1 \<and>
    client_heap s 100 = Some cl \<and> c_current_room cl = Some 200"
proof (rule session)
  fix s r assume s: "sys_reachable (s, client_handler_init)" "room_heap s 200 = Some r" "members r = [100]"
  with membership_agrees [OF s(1)] have "r_participant_count r = 1"
    "\<exists>cl. client_heap s 100 = Some cl \<and> c_current_room cl = Some 200" by (force+)
  with s show ?thesis by blast
qed

theorem rooms_mirrored_on_disk_witness:
  "\<exists>s r. sys_reachable (s, client_handler_init) \<and> room_heap s 200 = Some r \<and>
    db_read_room (r_room_id r) (db s) = Some (record_of r)"
proof (rule session)
  fix s r assume s: "sys_reachable (s, client_handler_init)" "room_heap s 200 = Some r"
  with rooms_mirrored_on_disk [OF s(1)] show ?thesis by blast
qed

theorem references_keep_clients_witness:
  "\<exists>s cl. sys_reachable (s, client_handler_init) \<and> task_list (tasks s) = [\<lparr>task_c = Some 100, task_command = ''LIST''\<rparr>] \<and>
    client_heap s 100 = Some cl \<and> 2 \<le> c_ref_count cl"
proof -
  obtain q where q: "task_list q = [\<lparr>task_c = Some 100, task_command = ''LIST''\<rparr>]"
    "sys_reachable (demo_server\<lparr>client_heap := [100 \<mapsto> (new_client 7 0)\<lparr>c_ref_count := 2\<rparr>], tasks := q\<rparr>, client_handler_init)"
    by (rule recv_queued [OF demo_quiet, of "''LIST''"]) simp_all
  have "int (count_list (worker_holders client_handler_init @ task_holders q) 100) + 1 \<le> c_ref_count ((new_client 7 0)\<lparr>c_ref_count := 2\<rparr>)"
    using references_keep_clients [OF q(2), THEN conjunct2, rule_format, of 100] by simp
  moreover have "task_holders q = [100]" using q(1) by (simp add: task_holders_def)
  ultimately show ?thesis using q by (intro exI conjI) (assumption | simp)+
qed

theorem commands_attributed_witness: "client_of_fd 7 demo_server = Some (Some (0, 100))"
  using commands_attributed [OF demo_reachable(2), of 7] demo_facts(2) by (auto simp: in_fd_map_def)

theorem capacities_respected_witness: "client_count demo_server \<le> 50 \<and> room_count demo_server \<le> 32"
  using capacities_respected [OF demo_reachable(2)] by simp

theorem disconnect_removes_client_witness:
  "\<exists>t. disconnect_client 7 demo_server = Some t \<and> client_heap t 100 = None \<and> 7 \<notin> set (open_fds t)"
  using disconnect_removes_client [OF demo_facts(1), of 100 "new_client 7 0"] demo_facts(2) by (auto simp: in_fd_map_def)

end
